(* ===== verification/Prelude.thy ===== *)
theory Prelude
  imports Main "HOL-Library.Word" "HOL-Library.While_Combinator"
begin

text \<open>
  Shared vocabulary of the rest_rpc development: the machine types of the C++ sources
  (\<open>uint8_t\<close>, \<open>uint32_t\<close>, \<open>uint64_t\<close>, \<open>size_t\<close>), byte strings, and the generic
  lemmas on byte splitting and on lists that the components use. The two views of an object
  representation, least and most significant byte first, are \<open>le_bytes\<close> and \<open>be_bytes\<close>;
  their inverses are \<open>of_le_bytes\<close> and \<open>of_be_bytes\<close>. \<open>size_t\<close> is 64 bits wide, as on every
  platform the project's continuous integration builds on.
\<close>

unbundle bit_operations_syntax

type_synonym u8 = "8 word"
type_synonym u16 = "16 word"
type_synonym u32 = "32 word"
type_synonym u64 = "64 word"
type_synonym size_t = "64 word"
type_synonym bytes = "8 word list"

named_theorems wire_simps \<open>lengths and splittings of wire images\<close>
named_theorems md5_simps \<open>unfolding rules of the message digest\<close>
named_theorems io_simps \<open>behaviour of the socket operations\<close>

subsection \<open>Characters and bytes\<close>

text \<open>A \<open>std::string\<close> literal as the bytes it occupies; characters are single bytes.\<close>

definition str_bytes :: "string \<Rightarrow> bytes" where
  "str_bytes s = map (\<lambda>c. of_nat (of_char c)) s"

definition bytes_str :: "bytes \<Rightarrow> string" where
  "bytes_str bs = map (\<lambda>b. char_of (unat b)) bs"

lemma char_of_unat_of_char [simp]: "char_of (unat (of_nat (of_char c) :: u8)) = c"
  by (simp add: unat_of_nat take_bit_eq_mod)

lemma unat_u8_mod [simp]: "unat (b :: u8) mod 256 = unat b"
proof -
  have "unat b < 2 ^ LENGTH(8)" by (rule unsigned_less)
  then show ?thesis by simp
qed

lemma of_char_char_of_unat [simp]: "of_nat (of_char (char_of (unat b) :: char)) = (b :: u8)"
  by simp

lemma bytes_str_str_bytes [simp]: "bytes_str (str_bytes s) = s"
  by (simp add: str_bytes_def bytes_str_def comp_def map_idI)

lemma str_bytes_bytes_str [simp]: "str_bytes (bytes_str bs) = bs"
  unfolding str_bytes_def bytes_str_def map_map comp_def of_char_char_of_unat by simp

lemma length_str_bytes [simp]: "length (str_bytes s) = length s"
  by (simp add: str_bytes_def)

lemma length_bytes_str [simp]: "length (bytes_str s) = length s"
  by (simp add: bytes_str_def)

lemma str_bytes_append [simp]: "str_bytes (s @ t) = str_bytes s @ str_bytes t"
  by (simp add: str_bytes_def)

lemma str_bytes_inject [simp]: "str_bytes s = str_bytes t \<longleftrightarrow> s = t"
  by (metis bytes_str_str_bytes)

lemma str_bytes_Nil [simp]: "str_bytes [] = []" "str_bytes s = [] \<longleftrightarrow> s = []"
  by (simp_all add: str_bytes_def)

subsection \<open>Object representations\<close>

text \<open>The \<open>k\<close> low bytes of a word, least significant byte first, and the word read back.\<close>

definition le_bytes :: "nat \<Rightarrow> 'a::len word \<Rightarrow> bytes" where
  "le_bytes k w = map (\<lambda>i. ucast (drop_bit (8 * i) w)) [0..<k]"

fun of_le_bytes :: "bytes \<Rightarrow> 'a::len word" where
  "of_le_bytes [] = 0"
| "of_le_bytes (b # bs) = ucast b OR push_bit 8 (of_le_bytes bs)"

definition be_bytes :: "nat \<Rightarrow> 'a::len word \<Rightarrow> bytes" where
  "be_bytes k w = rev (le_bytes k w)"

definition of_be_bytes :: "bytes \<Rightarrow> 'a::len word" where
  "of_be_bytes bs = of_le_bytes (rev bs)"

lemma length_le_bytes [simp, wire_simps]: "length (le_bytes k w) = k"
  by (simp add: le_bytes_def)

lemma length_be_bytes [simp, wire_simps]: "length (be_bytes k w) = k"
  by (simp add: be_bytes_def)

lemma bit_of_le_bytes:
  "bit (of_le_bytes bs :: 'a::len word) n \<longleftrightarrow>
     n < LENGTH('a) \<and> n div 8 < length bs \<and> bit (bs ! (n div 8)) (n mod 8)"
proof (induction bs arbitrary: n)
  case Nil
  then show ?case by simp
next
  case (Cons b bs)
  have shape: "(n < 8 \<and> n div 8 = 0 \<and> n mod 8 = n) \<or>
      (8 \<le> n \<and> n div 8 = Suc ((n - 8) div 8) \<and> n mod 8 = (n - 8) mod 8)"
    by (cases "n < 8") (auto simp: le_div_geq le_mod_geq)
  have "bit (ucast b :: 'a word) n \<longleftrightarrow> n < LENGTH('a) \<and> n < 8 \<and> bit b n"
    by (auto simp: bit_unsigned_iff dest: bit_imp_le_length)
  then show ?case
    using shape Cons.IH [of "n - 8"]
    by (auto simp: bit_or_iff bit_push_bit_iff)
qed

lemma bit_le_bytes:
  assumes "i < k" "j < 8"
  shows "bit (le_bytes k w ! i) j \<longleftrightarrow> bit w (8 * i + j)"
  using assms by (simp add: le_bytes_def bit_unsigned_iff bit_drop_bit_eq add.commute)

lemma of_le_bytes_le_bytes [simp]:
  assumes "LENGTH('a) \<le> 8 * k"
  shows "(of_le_bytes (le_bytes k (w :: 'a::len word)) :: 'a word) = w"
proof (rule bit_word_eqI)
  fix n assume n: "n < LENGTH('a)"
  then have "n div 8 < k" using assms by (simp add: div_less_iff_less_mult)
  then show "bit (of_le_bytes (le_bytes k w) :: 'a word) n = bit w n"
    using n by (simp add: bit_of_le_bytes bit_le_bytes)
qed

lemma of_le_bytes_take_bit:
  "(of_le_bytes (le_bytes k (w :: 'a::len word)) :: 'a word) = take_bit (8 * k) w"
proof (rule bit_word_eqI)
  fix n assume n: "n < LENGTH('a)"
  have "n div 8 < k \<longleftrightarrow> n < 8 * k" by (simp add: div_less_iff_less_mult mult.commute)
  then show "bit (of_le_bytes (le_bytes k w) :: 'a word) n = bit (take_bit (8 * k) w) n"
    using n by (auto simp: bit_of_le_bytes bit_le_bytes bit_take_bit_iff)
qed

lemma le_bytes_of_le_bytes:
  assumes "8 * length bs \<le> LENGTH('a)"
  shows "le_bytes (length bs) (of_le_bytes bs :: 'a::len word) = bs"
proof (rule nth_equalityI)
  show "length (le_bytes (length bs) (of_le_bytes bs :: 'a word)) = length bs" by simp
next
  fix i assume "i < length (le_bytes (length bs) (of_le_bytes bs :: 'a word))"
  then have i: "i < length bs" by simp
  show "le_bytes (length bs) (of_le_bytes bs :: 'a word) ! i = bs ! i"
  proof (rule bit_word_eqI)
    fix n assume "n < LENGTH(8)"
    then have n: "n < 8" by simp
    have "8 * i + n < LENGTH('a)" using i n assms by linarith
    with i n show "bit (le_bytes (length bs) (of_le_bytes bs :: 'a word) ! i) n = bit (bs ! i) n"
      by (simp add: bit_le_bytes bit_of_le_bytes)
  qed
qed

lemma of_be_bytes_be_bytes [simp]:
  "LENGTH('a) \<le> 8 * k \<Longrightarrow> (of_be_bytes (be_bytes k (w :: 'a::len word)) :: 'a word) = w"
  by (simp add: of_be_bytes_def be_bytes_def)

lemma be_bytes_of_be_bytes:
  "8 * length bs \<le> LENGTH('a) \<Longrightarrow> be_bytes (length bs) (of_be_bytes bs :: 'a::len word) = bs"
  using le_bytes_of_le_bytes [of "rev bs", where 'a = 'a]
  by (simp add: of_be_bytes_def be_bytes_def)

lemma le_bytes_inject:
  "LENGTH('a) \<le> 8 * k \<Longrightarrow> le_bytes k (v :: 'a::len word) = le_bytes k w \<longleftrightarrow> v = w"
  by (metis of_le_bytes_le_bytes)

text \<open>The 64-bit image of the length of an in-memory buffer.\<close>

lemma unat_of_nat_small: "n < 2 ^ LENGTH('a) \<Longrightarrow> unat (of_nat n :: 'a::len word) = n"
  by (simp add: unat_of_nat take_bit_nat_eq_self)

lemma byte_mask: "(255 :: 'a::len word) = mask 8"
  by (simp add: mask_eq_exp_minus_1)

subsection \<open>Lists\<close>

lemma take_append_le [wire_simps]: "n = length xs \<Longrightarrow> take n (xs @ ys) = xs"
  by simp

lemma drop_append_le [wire_simps]: "n = length xs \<Longrightarrow> drop n (xs @ ys) = ys"
  by simp

lemma takeWhile_append_stop:
  "(\<And>x. x \<in> set xs \<Longrightarrow> P x) \<Longrightarrow> \<not> P y \<Longrightarrow> takeWhile P (xs @ y # ys) = xs"
  by (simp add: takeWhile_tail)

subsection \<open>Codec contracts\<close>

text \<open>
  What the router and the client rely on: a value of a type, packed on one side and unpacked on
  the other, is the value. An image that also ends where it ends, whatever follows, is the stronger
  contract that struct_pack keeps.
\<close>

locale value_codec =
  fixes ok :: "'t \<Rightarrow> 'v \<Rightarrow> bool"
    and pack :: "'t \<Rightarrow> 'v \<Rightarrow> bytes"
    and unpack :: "'t \<Rightarrow> bytes \<Rightarrow> 'e + 'v"
  assumes unpack_pack: "ok t v \<Longrightarrow> unpack t (pack t v) = Inr v"
begin

lemma pack_inject: "ok t v \<Longrightarrow> ok t w \<Longrightarrow> pack t v = pack t w \<longleftrightarrow> v = w"
  by (metis sum.inject(2) unpack_pack)

lemma error_not_packed: "unpack t data = Inl e \<Longrightarrow> ok t v \<Longrightarrow> data \<noteq> pack t v"
  using unpack_pack by fastforce

end

locale self_delimiting_codec =
  fixes ok :: "'t \<Rightarrow> 'v \<Rightarrow> bool"
    and pack :: "'t \<Rightarrow> 'v \<Rightarrow> bytes"
    and unpack :: "'t \<Rightarrow> bytes \<Rightarrow> 'e + 'v"
  assumes unpack_pack_append: "ok t v \<Longrightarrow> unpack t (pack t v @ r) = Inr v"
begin

lemma prefix_free: "ok t v \<Longrightarrow> ok t w \<Longrightarrow> pack t v @ r = pack t w @ r' \<Longrightarrow> v = w"
  by (metis sum.inject(2) unpack_pack_append)

end

sublocale self_delimiting_codec \<subseteq> value_codec ok pack unpack
  by unfold_locales (use unpack_pack_append [of _ _ "[]"] in simp)

end
