(* ===== verification/Error_Code.thy ===== *)
theory Error_Code
  imports Prelude
begin

text \<open>
  include/rest_rpc/error_code.h: the error enumeration with its one-byte wire value, the error
  category with its messages, and \<open>std::error_code\<close> as the pair of a value and a category. A C++
  enumeration with a fixed underlying type can hold every value of that type, so a byte received
  from the peer may be no enumerator: \<open>errc_other\<close> is such a value.
\<close>

datatype rpc_errc =
    ok
  | no_such_function
  | no_such_key
  | invalid_req_type
  | function_exception
  | function_unknown_exception
  | invalid_argument
  | write_error
  | read_error
  | socket_closed
  | resolve_timeout
  | connection_timeout
  | request_timeout
  | protocol_error
  | has_response
  | duplicate_topic
  | rpc_context_init_failed
  | errc_other u8

text \<open>The underlying value, an \<open>int8_t\<close>: the byte at \<open>&result.ec\<close>.\<close>

fun errc_byte :: "rpc_errc \<Rightarrow> u8" where
  "errc_byte ok = 0"
| "errc_byte no_such_function = 1"
| "errc_byte no_such_key = 2"
| "errc_byte invalid_req_type = 3"
| "errc_byte function_exception = 4"
| "errc_byte function_unknown_exception = 5"
| "errc_byte invalid_argument = 6"
| "errc_byte write_error = 7"
| "errc_byte read_error = 8"
| "errc_byte socket_closed = 9"
| "errc_byte resolve_timeout = 10"
| "errc_byte connection_timeout = 11"
| "errc_byte request_timeout = 12"
| "errc_byte protocol_error = 13"
| "errc_byte has_response = 14"
| "errc_byte duplicate_topic = 15"
| "errc_byte rpc_context_init_failed = 16"
| "errc_byte (errc_other b) = b"

definition enumerators :: "rpc_errc list" where
  "enumerators =
     [ok, no_such_function, no_such_key, invalid_req_type, function_exception,
      function_unknown_exception, invalid_argument, write_error, read_error, socket_closed,
      resolve_timeout, connection_timeout, request_timeout, protocol_error, has_response,
      duplicate_topic, rpc_context_init_failed]"

text \<open>\<open>(rpc_errc)socket_->body_[0]\<close>\<close>

definition errc_of_byte :: "u8 \<Rightarrow> rpc_errc" where
  "errc_of_byte b = (if unat b < length enumerators then enumerators ! unat b else errc_other b)"

text \<open>\<open>static_cast<int>(e)\<close>: the byte is signed.\<close>

definition errc_int :: "rpc_errc \<Rightarrow> int" where
  "errc_int e = sint (errc_byte e)"

text \<open>A value of the enumeration in canonical form.\<close>

fun errc_wf :: "rpc_errc \<Rightarrow> bool" where
  "errc_wf (errc_other b) = (17 \<le> unat b)"
| "errc_wf _ = True"

section \<open>The category\<close>

text \<open>\<open>rpc_error_category::message(int ev)\<close>: the argument is cut to the underlying type first.\<close>

definition errc_of_int :: "int \<Rightarrow> rpc_errc" where
  "errc_of_int ev = errc_of_byte (word_of_int ev)"

fun errc_message :: "rpc_errc \<Rightarrow> string" where
  "errc_message ok = ''ok''"
| "errc_message no_such_function = ''no such function''"
| "errc_message no_such_key = ''resolve failed''"
| "errc_message invalid_req_type = ''invalid request type''"
| "errc_message function_exception = ''logic function exception happend''"
| "errc_message function_unknown_exception = ''unknown function exception happend''"
| "errc_message invalid_argument = ''invalid argument''"
| "errc_message write_error = ''write failed''"
| "errc_message read_error = ''read failed''"
| "errc_message socket_closed = ''socket closed''"
| "errc_message resolve_timeout = ''resolve timeout''"
| "errc_message connection_timeout = ''connect timeout''"
| "errc_message request_timeout = ''request timeout''"
| "errc_message protocol_error = ''protocol error''"
| "errc_message has_response = ''has response, duplicate response is not allowed''"
| "errc_message duplicate_topic = ''duplicate topic''"
| "errc_message rpc_context_init_failed =
     ''the rpc context init failed, it must be created in rpc handler io thread, otherwise will init failed''"
| "errc_message (errc_other _) = ''unknown error''"

definition category_message :: "int \<Rightarrow> string" where
  "category_message ev = errc_message (errc_of_int ev)"

section \<open>\<open>std::error_code\<close>\<close>

text \<open>The categories of the codes the library handles: its own, the system's and those of asio.\<close>

datatype category = rest_rpc_error | system_category | generic_category | misc_category

record error_code =
  ec_value :: int
  ec_category :: category

definition make_error_code :: "rpc_errc \<Rightarrow> error_code" where
  "make_error_code e = \<lparr>ec_value = errc_int e, ec_category = rest_rpc_error\<rparr>"

text \<open>\<open>std::error_code{}\<close> and the conversion to \<open>bool\<close>.\<close>

definition no_error :: error_code where
  "no_error = \<lparr>ec_value = 0, ec_category = system_category\<rparr>"

definition ec_set :: "error_code \<Rightarrow> bool" where
  "ec_set ec \<longleftrightarrow> ec_value ec \<noteq> 0"

text \<open>\<open>operator==(const std::error_code &code, rpc_errc ec)\<close> compares the values only.\<close>

definition ec_eq_errc :: "error_code \<Rightarrow> rpc_errc \<Rightarrow> bool" where
  "ec_eq_errc code e \<longleftrightarrow> ec_value code = errc_int e"

text \<open>The codes of asio and of \<open>std::errc\<close> that the sources name.\<close>

definition asio_eof :: error_code where
  "asio_eof = \<lparr>ec_value = 2, ec_category = misc_category\<rparr>"

definition operation_aborted :: error_code where
  "operation_aborted = \<lparr>ec_value = 125, ec_category = system_category\<rparr>"

definition bad_descriptor :: error_code where
  "bad_descriptor = \<lparr>ec_value = 9, ec_category = system_category\<rparr>"

definition operation_canceled :: error_code where
  "operation_canceled = \<lparr>ec_value = 125, ec_category = generic_category\<rparr>"

section \<open>Lemmas\<close>

lemma enumerators_length [simp]: "length enumerators = 17"
  by (simp add: enumerators_def)

lemma errc_byte_enumerators:
  "map errc_byte enumerators = map of_nat [0..<17]"
  by (simp add: enumerators_def upt_conv_Cons)

lemma errc_of_byte_errc_byte [simp]: "errc_wf e \<Longrightarrow> errc_of_byte (errc_byte e) = e"
  by (cases e) (simp_all add: errc_of_byte_def enumerators_def)

lemma errc_byte_errc_of_byte [simp]: "errc_byte (errc_of_byte b) = b"
proof (cases "unat b < 17")
  case True
  then have "errc_byte (enumerators ! unat b) = map errc_byte enumerators ! unat b" by simp
  also have "\<dots> = of_nat (unat b)" using True by (simp only: errc_byte_enumerators) simp
  finally show ?thesis using True by (simp add: errc_of_byte_def)
next
  case False
  then show ?thesis by (simp add: errc_of_byte_def)
qed

lemma errc_wf_enumerators: "e \<in> set enumerators \<Longrightarrow> errc_wf e"
  by (auto simp: enumerators_def)

lemma errc_wf_of_byte [simp]: "errc_wf (errc_of_byte b)"
  by (auto simp: errc_of_byte_def intro!: errc_wf_enumerators nth_mem)

lemma errc_int_zero [simp]: "errc_wf e \<Longrightarrow> errc_int e = 0 \<longleftrightarrow> e = ok"
  unfolding errc_int_def signed_eq_0_iff by (cases e) auto

lemma ec_set_make_error_code [simp]: "errc_wf e \<Longrightarrow> ec_set (make_error_code e) \<longleftrightarrow> e \<noteq> ok"
  by (simp add: ec_set_def make_error_code_def)

lemma ec_set_simps [simp]:
  "\<not> ec_set no_error" "ec_set asio_eof" "ec_set operation_aborted" "ec_set bad_descriptor"
  "ec_set operation_canceled"
  by (simp_all add: ec_set_def no_error_def asio_eof_def operation_aborted_def bad_descriptor_def
      operation_canceled_def)

section \<open>Properties\<close>

text \<open>An error code survives the wire: the byte the server writes for any value of the
  enumeration is read back by the client as the same value, and every byte is the image of exactly
  one value.\<close>

theorem errc_wire_roundtrip:
  "(errc_wf e \<longrightarrow> errc_of_byte (errc_byte e) = e) \<and> errc_byte (errc_of_byte b) = b \<and> errc_wf (errc_of_byte b)"
  by simp

theorem errc_wire_roundtrip_witness:
  "errc_of_byte (errc_byte function_exception) = function_exception \<and> errc_byte (errc_of_byte 200) = 200"
  using errc_wire_roundtrip [of function_exception 200] by simp

text \<open>The comparison of a \<open>std::error_code\<close> with an enumerator ignores the category: every code
  with the same value compares equal, whatever its origin. The end-of-file code of asio equals
  \<open>rpc_errc::no_such_key\<close>, and a successful code of any category equals \<open>rpc_errc::ok\<close>.\<close>

theorem ec_eq_errc_ignores_category:
  "ec_eq_errc code e = ec_eq_errc (code\<lparr>ec_category := c\<rparr>) e
     \<and> ec_eq_errc (make_error_code e) e
     \<and> ec_eq_errc asio_eof no_such_key \<and> asio_eof \<noteq> make_error_code no_such_key"
  by (simp add: ec_eq_errc_def make_error_code_def asio_eof_def errc_int_def)

end
