(* ===== verification/Net.thy ===== *)
theory Net
  imports Error_Code
begin

text \<open>
  The TCP socket as the library's code sees it through asio: composed reads and writes that
  complete in full or with an error code, and closing. A socket holds what the peer has sent and
  will still send, the error that ends the stream, what was written, and how the coming writes
  end; these are the inputs of the model. The documented behaviour that is modelled: \<open>async_read\<close>
  reads exactly the buffer's size or reports an error after what there was; an empty buffer is
  filled at once; operations on a closed socket report \<open>bad_descriptor\<close>.
\<close>

record socket =
  sk_open :: bool
  sk_rx :: bytes
  sk_end :: error_code
  sk_tx :: bytes
  sk_writes :: "(error_code \<times> nat) option list"

text \<open>An operation that fails reports a code that tests true.\<close>

definition as_error :: "error_code \<Rightarrow> error_code" where
  "as_error ec = (if ec_set ec then ec else asio_eof)"

text \<open>\<open>asio::async_read(socket, buffer, as_tuple(use_awaitable))\<close>: the error code and the bytes.\<close>

definition async_read :: "nat \<Rightarrow> socket \<Rightarrow> error_code \<times> bytes \<times> socket" where
  "async_read n s =
     (if n = 0 then (no_error, [], s)
      else if \<not> sk_open s then (bad_descriptor, [], s)
      else if n \<le> length (sk_rx s) then (no_error, take n (sk_rx s), s\<lparr>sk_rx := drop n (sk_rx s)\<rparr>)
      else (as_error (sk_end s), sk_rx s, s\<lparr>sk_rx := []\<rparr>))"

text \<open>\<open>asio::async_write(socket, buffers, as_tuple(use_awaitable))\<close>.\<close>

definition async_write :: "bytes \<Rightarrow> socket \<Rightarrow> error_code \<times> socket" where
  "async_write bs s =
     (if \<not> sk_open s then (bad_descriptor, s)
      else case sk_writes s of
        [] \<Rightarrow> (no_error, s\<lparr>sk_tx := sk_tx s @ bs\<rparr>)
      | None # ws \<Rightarrow> (no_error, s\<lparr>sk_tx := sk_tx s @ bs, sk_writes := ws\<rparr>)
      | Some (ec, k) # ws \<Rightarrow> (as_error ec, s\<lparr>sk_tx := sk_tx s @ take k bs, sk_writes := ws\<rparr>))"

text \<open>\<open>shutdown\<close> and \<open>close\<close>, whose error codes are ignored.\<close>

definition sk_close :: "socket \<Rightarrow> socket" where
  "sk_close s = s\<lparr>sk_open := False\<rparr>"

definition fresh_socket :: "bytes \<Rightarrow> socket" where
  "fresh_socket rx = \<lparr>sk_open = True, sk_rx = rx, sk_end = asio_eof, sk_tx = [], sk_writes = []\<rparr>"

section \<open>Lemmas\<close>

lemma ec_set_as_error [simp, io_simps]: "ec_set (as_error ec)"
  by (simp add: as_error_def)

lemma async_read_full [io_simps]:
  "sk_open s \<Longrightarrow> sk_rx s = bs @ r \<Longrightarrow> n = length bs \<Longrightarrow>
     async_read n s = (no_error, bs, s\<lparr>sk_rx := r\<rparr>)"
  by (cases s) (auto simp: async_read_def)

text \<open>A read that succeeds consumes exactly what it returns.\<close>

lemma async_read_success:
  assumes "async_read n s = (ec, bs, s')" "\<not> ec_set ec"
  shows "length bs = n" "0 < n \<Longrightarrow> sk_open s" "sk_rx s = bs @ sk_rx s'"
  using assms by (auto simp: async_read_def split: if_splits)

lemma async_read_frame:
  "async_read n s = (ec, bs, s') \<Longrightarrow> s' = s\<lparr>sk_rx := sk_rx s'\<rparr> \<and> length (sk_rx s') \<le> length (sk_rx s)"
  by (auto simp: async_read_def split: if_splits)

lemma async_read_open: "async_read n s = (ec, bs, s') \<Longrightarrow> sk_open s' = sk_open s"
  by (auto simp: async_read_def split: if_splits)

lemma async_write_frame:
  "async_write bs s = (ec, s') \<Longrightarrow> sk_rx s' = sk_rx s \<and> sk_open s' = sk_open s \<and> sk_end s' = sk_end s"
  by (auto simp: async_write_def split: if_splits list.splits option.splits)

lemma sk_close_sel [simp]:
  "sk_open (sk_close s) = False" "sk_rx (sk_close s) = sk_rx s" "sk_tx (sk_close s) = sk_tx s"
  "sk_end (sk_close s) = sk_end s"
  by (simp_all add: sk_close_def)

end
