(* ===== verification/Protocol.thy ===== *)
theory Protocol
  imports Prelude
begin

text \<open>
  include/rest_rpc/rest_rpc_protocol.hpp: the 32-byte message header and its conversion to and
  from network order. The byte order of the machine is a parameter \<open>host\<close> of every definition that
  depends on it: a header travels as the object representation of the C++ struct, so the bytes on
  the wire are those of the sending host, converted only when \<open>cross_ending\<close> is enabled. \<open>htonl\<close>
  and \<open>ntohl\<close> are the POSIX functions: the identity on a big-endian host, a byte swap on a
  little-endian one. The lemmas show that the conversions are inverse to each other, that on a
  little-endian host they produce network order, and what \<open>htonll\<close> does on a big-endian host.
\<close>

datatype endian = Little | Big

definition host_bytes :: "endian \<Rightarrow> nat \<Rightarrow> 'a::len word \<Rightarrow> bytes" where
  "host_bytes host k w = (case host of Little \<Rightarrow> le_bytes k w | Big \<Rightarrow> be_bytes k w)"

definition of_host_bytes :: "endian \<Rightarrow> bytes \<Rightarrow> 'a::len word" where
  "of_host_bytes host bs = (case host of Little \<Rightarrow> of_le_bytes bs | Big \<Rightarrow> of_be_bytes bs)"

section \<open>Network order conversions\<close>

definition htonl :: "endian \<Rightarrow> u32 \<Rightarrow> u32" where
  "htonl host w = of_host_bytes host (be_bytes 4 w)"

definition ntohl :: "endian \<Rightarrow> u32 \<Rightarrow> u32" where
  "ntohl host w = of_be_bytes (host_bytes host 4 w)"

definition htonll :: "endian \<Rightarrow> u64 \<Rightarrow> u64" where
  "htonll host value =
     push_bit 32 (ucast (htonl host (ucast (value AND 0xFFFFFFFF))))
       OR ucast (htonl host (ucast (drop_bit 32 value)))"

definition ntohll :: "endian \<Rightarrow> u64 \<Rightarrow> u64" where
  "ntohll host value =
     push_bit 32 (ucast (ntohl host (ucast (value AND 0xFFFFFFFF))))
       OR ucast (ntohl host (ucast (drop_bit 32 value)))"

section \<open>The header\<close>

definition REST_MAGIC_NUM :: u8 where
  "REST_MAGIC_NUM = 39"

record rest_rpc_header =
  magic :: u8
  version :: u8
  serialize_type :: u8
  msg_type :: u8
  function_id :: u32
  seq_num :: u64
  body_len :: u64
  attach_length :: u64

text \<open>\<open>rest_rpc_header header{}\<close>: the default member initialiser of \<open>magic\<close>, zeros elsewhere.\<close>

definition init_header :: rest_rpc_header where
  "init_header = \<lparr>magic = REST_MAGIC_NUM, version = 0, serialize_type = 0, msg_type = 0,
     function_id = 0, seq_num = 0, body_len = 0, attach_length = 0\<rparr>"

definition prepare_for_send :: "endian \<Rightarrow> rest_rpc_header \<Rightarrow> rest_rpc_header" where
  "prepare_for_send host header =
     header\<lparr>function_id := htonl host (function_id header),
            seq_num := htonll host (seq_num header),
            body_len := htonll host (body_len header),
            attach_length := htonll host (attach_length header)\<rparr>"

definition parse_recieved :: "endian \<Rightarrow> rest_rpc_header \<Rightarrow> rest_rpc_header" where
  "parse_recieved host header =
     header\<lparr>function_id := ntohl host (function_id header),
            seq_num := ntohll host (seq_num header),
            body_len := ntohll host (body_len header),
            attach_length := ntohll host (attach_length header)\<rparr>"

text \<open>
  \<open>asio::buffer(&header, sizeof(rest_rpc_header))\<close>: four bytes, a 4-byte and three 8-byte
  integers at their natural alignment, so 32 bytes and no padding.
\<close>

definition header_size :: nat where
  "header_size = 32"

definition header_bytes :: "endian \<Rightarrow> rest_rpc_header \<Rightarrow> bytes" where
  "header_bytes host h =
     [magic h, version h, serialize_type h, msg_type h] @ host_bytes host 4 (function_id h)
       @ host_bytes host 8 (seq_num h) @ host_bytes host 8 (body_len h)
       @ host_bytes host 8 (attach_length h)"

text \<open>Reading 32 bytes into the struct.\<close>

definition header_of_bytes :: "endian \<Rightarrow> bytes \<Rightarrow> rest_rpc_header" where
  "header_of_bytes host bs =
     \<lparr>magic = bs ! 0, version = bs ! 1, serialize_type = bs ! 2, msg_type = bs ! 3,
      function_id = of_host_bytes host (take 4 (drop 4 bs)),
      seq_num = of_host_bytes host (take 8 (drop 8 bs)),
      body_len = of_host_bytes host (take 8 (drop 16 bs)),
      attach_length = of_host_bytes host (take 8 (drop 24 bs))\<rparr>"

section \<open>Representation lemmas\<close>

lemma length_host_bytes [simp, wire_simps]: "length (host_bytes host k w) = k"
  by (simp add: host_bytes_def split: endian.split)

lemma of_host_bytes_host_bytes [simp]:
  "LENGTH('a) \<le> 8 * k \<Longrightarrow> (of_host_bytes host (host_bytes host k (w :: 'a::len word)) :: 'a word) = w"
  by (simp add: host_bytes_def of_host_bytes_def split: endian.split)

lemma host_bytes_of_host_bytes:
  "8 * length bs \<le> LENGTH('a) \<Longrightarrow> host_bytes host (length bs) (of_host_bytes host bs :: 'a::len word) = bs"
  by (simp add: host_bytes_def of_host_bytes_def le_bytes_of_le_bytes be_bytes_of_be_bytes
      split: endian.split)

lemma length_header_bytes [simp, wire_simps]: "length (header_bytes host h) = header_size"
  by (simp add: header_bytes_def header_size_def)

lemma header_of_bytes_header_bytes [simp]: "header_of_bytes host (header_bytes host h) = h"
  by (simp add: header_of_bytes_def header_bytes_def numeral_eq_Suc)

lemma header_of_bytes_append [simp]:
  "header_of_bytes host (header_bytes host h @ rest) = h"
  by (simp add: header_of_bytes_def header_bytes_def numeral_eq_Suc)

interpretation hdr: self_delimiting_codec "\<lambda>host h. True" header_bytes
  "\<lambda>host bs. Inr (header_of_bytes host bs) :: unit + rest_rpc_header"
  by unfold_locales simp

section \<open>Byte order lemmas\<close>

lemma htonl_Big [simp]: "htonl Big w = w"
  by (simp add: htonl_def of_host_bytes_def)

lemma ntohl_Big [simp]: "ntohl Big w = w"
  by (simp add: ntohl_def host_bytes_def)

lemma ntohl_htonl [simp]: "ntohl host (htonl host w) = w"
  using host_bytes_of_host_bytes [of "be_bytes 4 w" host, where 'a = 32]
  by (simp add: ntohl_def htonl_def)

lemma host_bytes_htonl: "host_bytes host 4 (htonl host w) = be_bytes 4 w"
  using host_bytes_of_host_bytes [of "be_bytes 4 w" host, where 'a = 32]
  by (simp add: htonl_def)

text \<open>The two 32-bit halves of a 64-bit word.\<close>

lemma low_half: "(ucast (v AND 0xFFFFFFFF) :: u32) = ucast (v :: u64)"
proof -
  have m: "(0xFFFFFFFF :: u64) = mask 32" by (simp add: mask_eq_exp_minus_1)
  show ?thesis
    unfolding m by (intro bit_word_eqI) (simp add: bit_simps bit_mask_iff bit_unsigned_iff)
qed

lemma join_low: "(ucast (push_bit 32 (ucast (h :: u32)) OR ucast (l :: u32) :: u64) :: u32) = l"
  by (intro bit_word_eqI) (simp add: bit_simps bit_unsigned_iff)

lemma join_high: "(ucast (drop_bit 32 (push_bit 32 (ucast (h :: u32)) OR ucast (l :: u32) :: u64)) :: u32) = h"
  by (intro bit_word_eqI) (auto simp: bit_simps bit_unsigned_iff dest: bit_imp_le_length)

lemma join_halves: "push_bit 32 (ucast (ucast (drop_bit 32 v) :: u32)) OR ucast (ucast v :: u32) = (v :: u64)"
  by (intro bit_word_eqI) (auto simp: bit_simps bit_unsigned_iff)

lemma htonll_halves:
  "htonll host v = push_bit 32 (ucast (htonl host (ucast v))) OR ucast (htonl host (ucast (drop_bit 32 v)))"
  by (simp add: htonll_def low_half)

lemma ntohll_halves:
  "ntohll host v = push_bit 32 (ucast (ntohl host (ucast v))) OR ucast (ntohl host (ucast (drop_bit 32 v)))"
  by (simp add: ntohll_def low_half)

lemma ntohll_htonll [simp]: "ntohll host (htonll host v) = v"
  by (simp only: ntohll_halves htonll_halves join_low join_high ntohl_htonl join_halves)

lemma le_bytes_join:
  "le_bytes 8 (push_bit 32 (ucast (h :: u32)) OR ucast (l :: u32) :: u64) = le_bytes 4 l @ le_bytes 4 h"
proof (rule nth_equalityI)
  show "length (le_bytes 8 (push_bit 32 (ucast h) OR ucast l :: u64)) = length (le_bytes 4 l @ le_bytes 4 h)"
    by simp
next
  fix i assume "i < length (le_bytes 8 (push_bit 32 (ucast h) OR ucast l :: u64))"
  then have i: "i < 8" by simp
  show "le_bytes 8 (push_bit 32 (ucast h) OR ucast l :: u64) ! i = (le_bytes 4 l @ le_bytes 4 h) ! i"
  proof (rule bit_word_eqI)
    fix n assume "n < LENGTH(8)"
    then have n: "n < 8" by simp
    show "bit (le_bytes 8 (push_bit 32 (ucast h) OR ucast l :: u64) ! i) n
        = bit ((le_bytes 4 l @ le_bytes 4 h) ! i) n"
    proof (cases "i < 4")
      case True
      with n have "8 * i + n < 32" by simp
      with True n i show ?thesis
        by (simp add: bit_le_bytes nth_append bit_simps bit_unsigned_iff)
    next
      case False
      with n i have "32 \<le> 8 * i + n" "8 * i + n < 64" "8 * (i - 4) + n = 8 * i + n - 32" by simp_all
      with False n i show ?thesis
        by (auto simp: bit_le_bytes nth_append bit_simps bit_unsigned_iff dest: bit_imp_le_length)
    qed
  qed
qed

lemma le_bytes_halves: "le_bytes 8 (v :: u64) = le_bytes 4 (ucast v :: u32) @ le_bytes 4 (ucast (drop_bit 32 v) :: u32)"
  using le_bytes_join [of "ucast (drop_bit 32 v)" "ucast v"] by (simp only: join_halves)

lemma le_bytes_htonl: "le_bytes 4 (htonl Little w) = be_bytes 4 w"
  using host_bytes_htonl [of Little w] by (simp add: host_bytes_def)

lemma le_bytes_htonll: "le_bytes 8 (htonll Little v) = be_bytes 8 v"
  by (simp add: htonll_halves le_bytes_join le_bytes_htonl be_bytes_def le_bytes_halves [of v])

lemma htonll_Big: "htonll Big v = push_bit 32 (ucast (ucast v :: u32)) OR ucast (ucast (drop_bit 32 v) :: u32)"
  by (simp add: htonll_halves)

lemma be_bytes_htonll_Big:
  "be_bytes 8 (htonll Big v) = be_bytes 4 (ucast v :: u32) @ be_bytes 4 (ucast (drop_bit 32 v) :: u32)"
  by (simp add: htonll_Big be_bytes_def le_bytes_join)

section \<open>Properties\<close>

text \<open>Between hosts of opposite byte order the raw integers arrive byte-swapped.\<close>

lemma of_le_bytes_be_bytes8: "of_le_bytes (be_bytes 8 v) = htonll Little v"
  using of_le_bytes_le_bytes [of 8 "htonll Little v"] by (simp add: le_bytes_htonll)

lemma of_le_bytes_be_bytes4: "of_le_bytes (be_bytes 4 w) = htonl Little w"
  by (simp add: htonl_def of_host_bytes_def)

lemma header_fields_wire:
  "header_of_bytes host' (header_bytes host h) =
     h\<lparr>function_id := of_host_bytes host' (host_bytes host 4 (function_id h)),
       seq_num := of_host_bytes host' (host_bytes host 8 (seq_num h)),
       body_len := of_host_bytes host' (host_bytes host 8 (body_len h)),
       attach_length := of_host_bytes host' (host_bytes host 8 (attach_length h))\<rparr>"
  by (simp add: header_of_bytes_def header_bytes_def numeral_eq_Suc)

definition swap_halves :: "u64 \<Rightarrow> u64" where
  "swap_halves v = push_bit 32 v OR drop_bit 32 v"

lemma htonll_Big_swaps: "htonll Big v = swap_halves v"
  unfolding htonll_Big swap_halves_def
  by (intro bit_word_eqI) (auto simp: bit_simps bit_unsigned_iff dest: bit_imp_le_length)

text \<open>C32: The header survives a connection between hosts of the same byte order with the
  conversions enabled: writing the prepared header and reading it back with \<open>parse_recieved\<close>
  gives the header that was sent, and the image on the wire is 32 bytes long.\<close>

theorem cross_ending_roundtrip:
  "parse_recieved host (header_of_bytes host (header_bytes host (prepare_for_send host h))) = h
     \<and> length (header_bytes host (prepare_for_send host h)) = 32"
  by (simp add: parse_recieved_def prepare_for_send_def header_size_def)

text \<open>On a little-endian host \<open>prepare_for_send\<close> puts every multi-byte field in network order:
  the wire image holds them most significant byte first, at the offsets of the struct.\<close>

theorem prepare_for_send_network_order:
  "header_bytes Little (prepare_for_send Little h) =
     [magic h, version h, serialize_type h, msg_type h] @ be_bytes 4 (function_id h)
       @ be_bytes 8 (seq_num h) @ be_bytes 8 (body_len h) @ be_bytes 8 (attach_length h)"
  by (simp add: header_bytes_def prepare_for_send_def host_bytes_def le_bytes_htonl le_bytes_htonll)

text \<open>A big-endian sender does not produce network order: \<open>htonl\<close> is the identity there, so
  \<open>htonll\<close> only exchanges the two halves of a 64-bit field. A little-endian receiver with the
  conversions enabled gets the function id right and the 64-bit fields with their halves
  exchanged, and the same in the other direction.\<close>

theorem cross_ending_between_byte_orders:
  assumes "host \<noteq> host'"
  shows "parse_recieved host' (header_of_bytes host' (header_bytes host (prepare_for_send host h))) =
     h\<lparr>seq_num := swap_halves (seq_num h), body_len := swap_halves (body_len h),
       attach_length := swap_halves (attach_length h)\<rparr>"
proof -
  have swap2: "ntohll Big v = swap_halves v" for v
    using htonll_Big_swaps [of v] by (simp add: ntohll_def htonll_def)
  have be8: "of_be_bytes (le_bytes 8 (htonll Little v)) = v" for v :: u64
    by (simp add: le_bytes_htonll)
  have be4: "of_be_bytes (le_bytes 4 (htonl Little w)) = w" for w
    by (simp add: le_bytes_htonl)
  have "host = Big \<and> host' = Little \<or> host = Little \<and> host' = Big"
    using assms by (cases host; cases host') simp_all
  then show ?thesis
    by (auto simp: header_fields_wire parse_recieved_def prepare_for_send_def host_bytes_def
        of_host_bytes_def of_le_bytes_be_bytes8 of_le_bytes_be_bytes4 htonll_Big_swaps
        be8 be4 swap2)
qed

theorem cross_ending_between_byte_orders_witness:
  "body_len (parse_recieved Little (header_of_bytes Little
     (header_bytes Big (prepare_for_send Big (init_header\<lparr>body_len := 5\<rparr>))))) = 0x500000000"
proof -
  have "swap_halves 5 = 0x500000000" by (simp add: swap_halves_def)
  then show ?thesis
    using cross_ending_between_byte_orders [of Big Little "init_header\<lparr>body_len := 5\<rparr>"] by simp
qed

end
