(* ===== verification/Md5.thy ===== *)
theory Md5
  imports Prelude
begin

text \<open>
  The message digest of include/rest_rpc/md5.hpp, from which every routing key and topic id is
  derived: \<open>MD5CE\<close> step by step on 32-bit words with the wrap-around of the C++ code, and, next
  to it, the digest as RFC 1321 describes it (\<open>rfc_md5\<close>: padding of the message, four auxiliary
  functions, tables for the word index and the rotation, the table of sines and the registers, each
  written as the RFC gives it). The lemmas show that the two agree on
  every message whose bit length fits in 32 bits, that the loop over the blocks ends, and what
  the padding produces. \<open>string_literal\<close>, the fixed-size string of the same header, is at the end.
\<close>

section \<open>The code of \<open>MD5CE\<close>\<close>

record IntermediateData =
  id_a :: u32
  id_b :: u32
  id_c :: u32
  id_d :: u32

type_synonym RoundData = "u32 list"

definition kConstants :: "u32 list" where
  "kConstants =
     [0xd76aa478, 0xe8c7b756, 0x242070db, 0xc1bdceee, 0xf57c0faf, 0x4787c62a,
      0xa8304613, 0xfd469501, 0x698098d8, 0x8b44f7af, 0xffff5bb1, 0x895cd7be,
      0x6b901122, 0xfd987193, 0xa679438e, 0x49b40821, 0xf61e2562, 0xc040b340,
      0x265e5a51, 0xe9b6c7aa, 0xd62f105d, 0x02441453, 0xd8a1e681, 0xe7d3fbc8,
      0x21e1cde6, 0xc33707d6, 0xf4d50d87, 0x455a14ed, 0xa9e3e905, 0xfcefa3f8,
      0x676f02d9, 0x8d2a4c8a, 0xfffa3942, 0x8771f681, 0x6d9d6122, 0xfde5380c,
      0xa4beea44, 0x4bdecfa9, 0xf6bb4b60, 0xbebfbc70, 0x289b7ec6, 0xeaa127fa,
      0xd4ef3085, 0x04881d05, 0xd9d4d039, 0xe6db99e5, 0x1fa27cf8, 0xc4ac5665,
      0xf4292244, 0x432aff97, 0xab9423a7, 0xfc93a039, 0x655b59c3, 0x8f0ccc92,
      0xffeff47d, 0x85845dd1, 0x6fa87e4f, 0xfe2ce6e0, 0xa3014314, 0x4e0811a1,
      0xf7537e82, 0xbd3af235, 0x2ad7d2bb, 0xeb86d391]"

definition kShifts :: "u32 list" where
  "kShifts = [7, 12, 17, 22, 5, 9, 14, 20, 4, 11, 16, 23, 6, 10, 15, 21]"

definition kInitialIntermediateData :: IntermediateData where
  "kInitialIntermediateData =
     \<lparr>id_a = 0x67452301, id_b = 0xefcdab89, id_c = 0x98badcfe, id_d = 0x10325476\<rparr>"

definition GetPaddedMessageLength :: "u32 \<Rightarrow> u32" where
  "GetPaddedMessageLength n = (((n + 1 + 8) + 63) div 64) * 64"

definition ExtractByte :: "u64 \<Rightarrow> u32 \<Rightarrow> u8" where
  "ExtractByte value i = ucast (drop_bit (unat (i * 8)) value AND 0xff)"

text \<open>
  \<open>ExtractByte(n * 8, ...)\<close>: the product is formed in \<open>uint32_t\<close>, then widened to the
  \<open>uint64_t\<close> parameter.
\<close>

definition GetPaddedMessageByte :: "bytes \<Rightarrow> u32 \<Rightarrow> u32 \<Rightarrow> u32 \<Rightarrow> u8" where
  "GetPaddedMessageByte data n m i =
     (if i < n then data ! unat i
      else if i = n then 0x80
      else if i \<ge> m - 8 then ExtractByte (ucast (n * 8)) (i - (m - 8))
      else 0)"

definition GetPaddedMessageWord :: "bytes \<Rightarrow> u32 \<Rightarrow> u32 \<Rightarrow> u32 \<Rightarrow> u32" where
  "GetPaddedMessageWord data n m i =
     ucast (GetPaddedMessageByte data n m i) OR
     push_bit 8 (ucast (GetPaddedMessageByte data n m (i + 1))) OR
     push_bit 16 (ucast (GetPaddedMessageByte data n m (i + 2))) OR
     push_bit 24 (ucast (GetPaddedMessageByte data n m (i + 3)))"

definition GetRoundData :: "bytes \<Rightarrow> u32 \<Rightarrow> u32 \<Rightarrow> u32 \<Rightarrow> RoundData" where
  "GetRoundData data n m i =
     [GetPaddedMessageWord data n m i,
      GetPaddedMessageWord data n m (i + 4),
      GetPaddedMessageWord data n m (i + 8),
      GetPaddedMessageWord data n m (i + 12),
      GetPaddedMessageWord data n m (i + 16),
      GetPaddedMessageWord data n m (i + 20),
      GetPaddedMessageWord data n m (i + 24),
      GetPaddedMessageWord data n m (i + 28),
      GetPaddedMessageWord data n m (i + 32),
      GetPaddedMessageWord data n m (i + 36),
      GetPaddedMessageWord data n m (i + 40),
      GetPaddedMessageWord data n m (i + 44),
      GetPaddedMessageWord data n m (i + 48),
      GetPaddedMessageWord data n m (i + 52),
      GetPaddedMessageWord data n m (i + 56),
      GetPaddedMessageWord data n m (i + 60)]"

definition CalcF :: "u32 \<Rightarrow> u32 \<Rightarrow> u32 \<Rightarrow> u32 \<Rightarrow> u32" where
  "CalcF i b c d =
     (if i < 16 then d XOR (b AND (c XOR d))
      else if i < 32 then c XOR (d AND (b XOR c))
      else if i < 48 then b XOR c XOR d
      else c XOR (b OR NOT d))"

definition CalcF_intermediate :: "u32 \<Rightarrow> IntermediateData \<Rightarrow> u32" where
  "CalcF_intermediate i intermediate =
     CalcF i (id_b intermediate) (id_c intermediate) (id_d intermediate)"

definition CalcG :: "u32 \<Rightarrow> u32" where
  "CalcG i =
     (if i < 16 then i
      else if i < 32 then (5 * i + 1) mod 16
      else if i < 48 then (3 * i + 5) mod 16
      else (7 * i) mod 16)"

definition GetShift :: "u32 \<Rightarrow> u32" where
  "GetShift i = kShifts ! unat ((i div 16) * 4 + (i mod 4))"

definition LeftRotate :: "u32 \<Rightarrow> u32 \<Rightarrow> u32" where
  "LeftRotate value bits =
     push_bit (unat bits) value OR drop_bit (unat (32 - bits)) value"

definition ApplyStep :: "u32 \<Rightarrow> RoundData \<Rightarrow> IntermediateData \<Rightarrow> IntermediateData" where
  "ApplyStep i data intermediate =
     (let g = CalcG i;
          f = CalcF_intermediate i intermediate + id_a intermediate
                + kConstants ! unat i + data ! unat g;
          s = GetShift i
      in \<lparr>id_a = id_d intermediate,
          id_b = id_b intermediate + LeftRotate f s,
          id_c = id_b intermediate,
          id_d = id_c intermediate\<rparr>)"

definition Add :: "IntermediateData \<Rightarrow> IntermediateData \<Rightarrow> IntermediateData" where
  "Add x y =
     \<lparr>id_a = id_a x + id_a y, id_b = id_b x + id_b y,
      id_c = id_c x + id_c y, id_d = id_d x + id_d y\<rparr>"

text \<open>The body of the loop over the 64-byte blocks, with its inner loop of 64 steps.\<close>

definition ProcessBlock :: "bytes \<Rightarrow> u32 \<Rightarrow> u32 \<Rightarrow> u32 \<Rightarrow> IntermediateData \<Rightarrow> IntermediateData" where
  "ProcessBlock message n m offset intermediate0 =
     (let data = GetRoundData message n m offset;
          intermediate1 = fold (\<lambda>i. ApplyStep (of_nat i) data) [0..<64] intermediate0
      in Add intermediate0 intermediate1)"

definition ProcessMessage_loop ::
    "bytes \<Rightarrow> u32 \<Rightarrow> u32 \<Rightarrow> (u32 \<times> IntermediateData) option" where
  "ProcessMessage_loop message n m =
     while_option (\<lambda>(offset, _). offset < m)
       (\<lambda>(offset, st). (offset + 64, ProcessBlock message n m offset st))
       (0, kInitialIntermediateData)"

definition ProcessMessage :: "bytes \<Rightarrow> u32 \<Rightarrow> IntermediateData" where
  "ProcessMessage message n =
     snd (the (ProcessMessage_loop message n (GetPaddedMessageLength n)))"

definition SwapEndian :: "u32 \<Rightarrow> u32" where
  "SwapEndian a =
     push_bit 24 (a AND 0xff) OR push_bit 16 (drop_bit 8 a AND 0xff) OR
     push_bit 8 (drop_bit 16 a AND 0xff) OR (drop_bit 24 a AND 0xff)"

definition Hash32 :: "bytes \<Rightarrow> u32 \<Rightarrow> u32" where
  "Hash32 data n = SwapEndian (id_a (ProcessMessage data n))"

definition MD5Hash32 :: "bytes \<Rightarrow> u32 \<Rightarrow> u32" where
  "MD5Hash32 str len = Hash32 str len"

text \<open>
  How the library hashes a name: \<open>MD5Hash32(name.data(), (uint32_t)name.length())\<close>, the length
  cut to 32 bits.
\<close>

definition hash_name :: "bytes \<Rightarrow> u32" where
  "hash_name name = MD5Hash32 name (of_nat (length name))"

section \<open>The digest of RFC 1321\<close>

definition rfc_F :: "u32 \<Rightarrow> u32 \<Rightarrow> u32 \<Rightarrow> u32" where
  "rfc_F x y z = (x AND y) OR (NOT x AND z)"

definition rfc_G :: "u32 \<Rightarrow> u32 \<Rightarrow> u32 \<Rightarrow> u32" where
  "rfc_G x y z = (x AND z) OR (y AND NOT z)"

definition rfc_H :: "u32 \<Rightarrow> u32 \<Rightarrow> u32 \<Rightarrow> u32" where
  "rfc_H x y z = x XOR y XOR z"

definition rfc_I :: "u32 \<Rightarrow> u32 \<Rightarrow> u32 \<Rightarrow> u32" where
  "rfc_I x y z = y XOR (x OR NOT z)"

definition rfc_aux :: "nat \<Rightarrow> u32 \<Rightarrow> u32 \<Rightarrow> u32 \<Rightarrow> u32" where
  "rfc_aux i = [rfc_F, rfc_G, rfc_H, rfc_I] ! (i div 16)"

definition rfc_word_index :: "nat list" where
  "rfc_word_index =
     [0, 1, 2, 3, 4, 5, 6, 7, 8, 9, 10, 11, 12, 13, 14, 15,
      1, 6, 11, 0, 5, 10, 15, 4, 9, 14, 3, 8, 13, 2, 7, 12,
      5, 8, 11, 14, 1, 4, 7, 10, 13, 0, 3, 6, 9, 12, 15, 2,
      0, 7, 14, 5, 12, 3, 10, 1, 8, 15, 6, 13, 4, 11, 2, 9]"

definition rfc_rotation :: "nat list" where
  "rfc_rotation =
     [7, 12, 17, 22, 7, 12, 17, 22, 7, 12, 17, 22, 7, 12, 17, 22,
      5, 9, 14, 20, 5, 9, 14, 20, 5, 9, 14, 20, 5, 9, 14, 20,
      4, 11, 16, 23, 4, 11, 16, 23, 4, 11, 16, 23, 4, 11, 16, 23,
      6, 10, 15, 21, 6, 10, 15, 21, 6, 10, 15, 21, 6, 10, 15, 21]"

text \<open>
  The table the RFC defines from the sine: element \<open>i\<close> is the integer part of
  \<open>2 ^ 32 * \<bar>sin (i + 1)\<bar>\<close>, with the angle in radians.
\<close>

definition rfc_sine :: "u32 list" where
  "rfc_sine =
     [3614090360, 3905402710, 606105819, 3250441966,
      4118548399, 1200080426, 2821735955, 4249261313,
      1770035416, 2336552879, 4294925233, 2304563134,
      1804603682, 4254626195, 2792965006, 1236535329,
      4129170786, 3225465664, 643717713, 3921069994,
      3593408605, 38016083, 3634488961, 3889429448,
      568446438, 3275163606, 4107603335, 1163531501,
      2850285829, 4243563512, 1735328473, 2368359562,
      4294588738, 2272392833, 1839030562, 4259657740,
      2763975236, 1272893353, 4139469664, 3200236656,
      681279174, 3936430074, 3572445317, 76029189,
      3654602809, 3873151461, 530742520, 3299628645,
      4096336452, 1126891415, 2878612391, 4237533241,
      1700485571, 2399980690, 4293915773, 2240044497,
      1873313359, 4264355552, 2734768916, 1309151649,
      4149444226, 3174756917, 718787259, 3951481745]"

text \<open>The four registers before the first block, as the RFC gives them, low-order byte first.\<close>

definition rfc_registers :: IntermediateData where
  "rfc_registers =
     \<lparr>id_a = of_le_bytes [0x01, 0x23, 0x45, 0x67], id_b = of_le_bytes [0x89, 0xab, 0xcd, 0xef],
      id_c = of_le_bytes [0xfe, 0xdc, 0xba, 0x98], id_d = of_le_bytes [0x76, 0x54, 0x32, 0x10]\<rparr>"

text \<open>One operation \<open>a = b + ((a + f(b,c,d) + X[k] + T[i]) <<< s)\<close>, then the registers move on.\<close>

definition rfc_step :: "u32 list \<Rightarrow> nat \<Rightarrow> IntermediateData \<Rightarrow> IntermediateData" where
  "rfc_step X i st =
     \<lparr>id_a = id_d st,
      id_b = id_b st + word_rotl (rfc_rotation ! i)
               (id_a st + rfc_aux i (id_b st) (id_c st) (id_d st)
                  + X ! (rfc_word_index ! i) + rfc_sine ! i),
      id_c = id_b st,
      id_d = id_c st\<rparr>"

definition rfc_words :: "bytes \<Rightarrow> u32 list" where
  "rfc_words block = map (\<lambda>j. of_le_bytes (take 4 (drop (4 * j) block))) [0..<16]"

definition rfc_compress :: "IntermediateData \<Rightarrow> bytes \<Rightarrow> IntermediateData" where
  "rfc_compress st block = Add st (fold (rfc_step (rfc_words block)) [0..<64] st)"

definition rfc_pad :: "bytes \<Rightarrow> bytes" where
  "rfc_pad msg =
     msg @ 0x80 # replicate ((119 - length msg mod 64) mod 64) 0
       @ le_bytes 8 (of_nat (8 * length msg) :: u64)"

definition rfc_blocks :: "bytes \<Rightarrow> bytes list" where
  "rfc_blocks padded = map (\<lambda>k. take 64 (drop (64 * k) padded)) [0..<length padded div 64]"

definition rfc_md5 :: "bytes \<Rightarrow> IntermediateData" where
  "rfc_md5 msg = foldl rfc_compress rfc_registers (rfc_blocks (rfc_pad msg))"

text \<open>The digest as the byte string that tools print: the registers, low byte first.\<close>

definition rfc_digest :: "bytes \<Rightarrow> bytes" where
  "rfc_digest msg =
     (let st = rfc_md5 msg
      in le_bytes 4 (id_a st) @ le_bytes 4 (id_b st) @ le_bytes 4 (id_c st) @ le_bytes 4 (id_d st))"

section \<open>Steps\<close>

lemma kConstants_length: "length kConstants = 64"
  by (simp add: kConstants_def)

lemma rfc_sine_kConstants: "rfc_sine = kConstants"
  by (simp only: rfc_sine_def kConstants_def)

lemma rfc_registers_initial: "rfc_registers = kInitialIntermediateData"
  by code_simp

lemma unat_of_nat32 [md5_simps]: "i < 2 ^ 32 \<Longrightarrow> unat (of_nat i :: u32) = i"
  by (rule unat_of_nat_small) simp

lemma of_nat32_less [md5_simps]:
  "i < 2 ^ 32 \<Longrightarrow> k < 2 ^ 32 \<Longrightarrow> (of_nat i :: u32) < of_nat k \<longleftrightarrow> i < k"
  by (simp add: word_less_nat_alt unat_of_nat32)

lemma all_less_64: "(\<forall>i < (64::nat). P i) \<longleftrightarrow> list_all P [0..<64]"
  by (auto simp: list_all_iff)

text \<open>The word index and the rotation of every step are those of the RFC's tables.\<close>

lemma CalcG_table: "i < 64 \<Longrightarrow> unat (CalcG (of_nat i)) = rfc_word_index ! i"
proof -
  have "list_all (\<lambda>i. unat (CalcG (of_nat i)) = rfc_word_index ! i) [0..<64]"
    by code_simp
  then show "i < 64 \<Longrightarrow> ?thesis" by (simp add: list_all_iff)
qed

lemma GetShift_table: "i < 64 \<Longrightarrow> GetShift (of_nat i) = of_nat (rfc_rotation ! i)"
proof -
  have "list_all (\<lambda>i. GetShift (of_nat i) = of_nat (rfc_rotation ! i)) [0..<64]"
    by code_simp
  then show "i < 64 \<Longrightarrow> ?thesis" by (simp add: list_all_iff)
qed

lemma rfc_rotation_bounds: "i < 64 \<Longrightarrow> 0 < rfc_rotation ! i \<and> rfc_rotation ! i < 32"
proof -
  have "list_all (\<lambda>i. 0 < rfc_rotation ! i \<and> rfc_rotation ! i < 32) [0..<64]"
    by code_simp
  then show "i < 64 \<Longrightarrow> ?thesis" by (simp add: list_all_iff)
qed

lemma CalcF_aux: "i < 64 \<Longrightarrow> CalcF (of_nat i) b c d = rfc_aux i b c d"
proof -
  assume i: "i < 64"
  have F: "d XOR (b AND (c XOR d)) = rfc_F b c d"
    by (rule bit_word_eqI) (auto simp: rfc_F_def bit_simps)
  have G: "c XOR (d AND (b XOR c)) = rfc_G b c d"
    by (rule bit_word_eqI) (auto simp: rfc_G_def bit_simps)
  have cmp: "(of_nat i :: u32) < 16 \<longleftrightarrow> i < 16" "(of_nat i :: u32) < 32 \<longleftrightarrow> i < 32"
    "(of_nat i :: u32) < 48 \<longleftrightarrow> i < 48"
    using i of_nat32_less [of i 16] of_nat32_less [of i 32] of_nat32_less [of i 48] by simp_all
  consider "i < 16" | "16 \<le> i" "i < 32" | "32 \<le> i" "i < 48" | "48 \<le> i" by linarith
  then show ?thesis
  proof cases
    case 1
    then have "i div 16 = 0" by simp
    with 1 show ?thesis by (simp add: CalcF_def cmp F rfc_aux_def)
  next
    case 2
    then have "i div 16 = 1" by simp
    with 2 show ?thesis by (simp add: CalcF_def cmp G rfc_aux_def)
  next
    case 3
    then have "i div 16 = 2" by simp
    with 3 show ?thesis by (simp add: CalcF_def cmp rfc_aux_def rfc_H_def)
  next
    case 4
    with i have "i div 16 = 3" by simp
    with 4 show ?thesis by (simp add: CalcF_def cmp rfc_aux_def rfc_I_def)
  qed
qed

text \<open>For the rotations in use, shift-or-shift is a rotation.\<close>

lemma LeftRotate_rotl:
  assumes "0 < r" "r < 32"
  shows "LeftRotate w (of_nat r) = word_rotl r w"
proof (rule bit_word_eqI)
  fix n assume n: "n < LENGTH(32)"
  have r1: "unat (of_nat r :: u32) = r" using assms by (simp add: md5_simps)
  have r2: "unat (32 - of_nat r :: u32) = 32 - r"
  proof -
    have "(32 - of_nat r :: u32) = of_nat (32 - r)" using assms by simp
    then show ?thesis by (simp only: unat_of_nat32) (simp add: md5_simps)
  qed
  have "(n + (32 - r)) mod 32 = (if r \<le> n then n - r else n + (32 - r))"
    using assms n by (auto simp: mod_if)
  then show "bit (LeftRotate w (of_nat r)) n = bit (word_rotl r w) n"
    using n assms unfolding LeftRotate_def r1 r2
    by (auto simp: bit_simps word_rotl_eq_word_rotr add.commute [of 32 n] dest: bit_imp_le_length)
qed

lemma ApplyStep_rfc: "i < 64 \<Longrightarrow> ApplyStep (of_nat i) X st = rfc_step X i st"
  using rfc_rotation_bounds [of i]
  by (simp add: ApplyStep_def rfc_step_def rfc_sine_kConstants Let_def CalcF_intermediate_def CalcF_aux CalcG_table
      GetShift_table LeftRotate_rotl unat_of_nat32 ac_simps)

lemma steps_rfc: "fold (\<lambda>i. ApplyStep (of_nat i) X) [0..<64] st = fold (rfc_step X) [0..<64] st"
  by (rule fold_cong) (auto simp: ApplyStep_rfc)

section \<open>Padding\<close>

definition padded_len :: "nat \<Rightarrow> nat" where
  "padded_len L = 64 * ((L + 72) div 64)"

lemma padded_len_bounds: "L + 9 \<le> padded_len L" "padded_len L \<le> L + 72" "64 dvd padded_len L"
  by (simp_all add: padded_len_def)

lemma GetPaddedMessageLength_nat:
  assumes "L + 72 < 2 ^ 32"
  shows "GetPaddedMessageLength (of_nat L) = of_nat (padded_len L)"
proof -
  have sum: "(of_nat L + 1 + 8 + 63 :: u32) = of_nat (L + 72)" by simp
  have "(of_nat (L + 72) div 64 :: u32) = of_nat ((L + 72) div 64)"
    using assms by (simp only: word_arith_nat_div unat_of_nat32) simp
  then show ?thesis
    unfolding GetPaddedMessageLength_def sum padded_len_def by simp
qed

lemma length_rfc_pad: "length (rfc_pad msg) = padded_len (length msg)"
proof -
  define q r where "q = length msg div 64" and "r = length msg mod 64"
  then have L: "length msg = 64 * q + r" and r: "r < 64" by simp_all
  show ?thesis
  proof (cases "r \<le> 55")
    case True
    then have "(119 - r) mod 64 = 55 - r" and "(64 * q + r + 72) div 64 = q + 1"
      using r by (auto simp: mod_if)
    with True show ?thesis
      using L by (simp add: rfc_pad_def padded_len_def flip: r_def)
  next
    case False
    then have "(119 - r) mod 64 = 119 - r" and "(64 * q + r + 72) div 64 = q + 2"
      using r by auto
    with False show ?thesis
      using L r by (simp add: rfc_pad_def padded_len_def flip: r_def)
  qed
qed

lemma ExtractByte_le_bytes:
  assumes "i < 8"
  shows "ExtractByte v (of_nat i) = le_bytes 8 v ! i"
proof -
  have "unat (of_nat i * 8 :: u32) = 8 * i"
    using assms unat_of_nat32 [of "8 * i"] by (simp add: mult.commute)
  then show ?thesis
    using assms by (intro bit_word_eqI)
      (auto simp: ExtractByte_def le_bytes_def byte_mask bit_mask_iff bit_simps bit_unsigned_iff bit_drop_bit_eq ac_simps
        dest: bit_imp_le_length)
qed

text \<open>Byte \<open>i\<close> of the padded message the code reads is byte \<open>i\<close> of the RFC's padding.\<close>

lemma GetPaddedMessageByte_rfc:
  assumes L: "length msg < 2 ^ 29" and i: "i < padded_len (length msg)"
  shows "GetPaddedMessageByte msg (of_nat (length msg)) (of_nat (padded_len (length msg))) (of_nat i)
       = rfc_pad msg ! i"
proof -
  let ?L = "length msg" and ?M = "padded_len (length msg)"
  have M: "?M < 2 ^ 32" "8 \<le> ?M" "?L + 9 \<le> ?M" "i < 2 ^ 32" "?L < 2 ^ 32"
    using L i padded_len_bounds [of ?L] by auto
  have m8: "(of_nat ?M - 8 :: u32) = of_nat (?M - 8)" using M by simp
  have cmp: "(of_nat i :: u32) < of_nat ?L \<longleftrightarrow> i < ?L"
    "(of_nat i :: u32) = of_nat ?L \<longleftrightarrow> i = ?L"
    "(of_nat i :: u32) \<ge> of_nat (?M - 8) \<longleftrightarrow> i \<ge> ?M - 8"
    using M of_nat32_less [of i ?L] of_nat32_less [of i "?M - 8"]
    by (auto simp: not_less [symmetric] dest: arg_cong [where f = unat] simp add: unat_of_nat32)
  have bits: "(ucast (of_nat ?L * 8 :: u32) :: u64) = of_nat (8 * ?L)"
  proof -
    have "unat (of_nat ?L * 8 :: u32) = 8 * ?L"
      using L unat_of_nat32 [of "8 * ?L"] by (simp add: mult.commute)
    then show ?thesis by (metis of_nat_unat)
  qed
  have len: "length (rfc_pad msg) = ?M" by (rule length_rfc_pad)
  consider "i < ?L" | "i = ?L" | "?L < i" "i < ?M - 8" | "?M - 8 \<le> i" by linarith
  then show ?thesis
  proof cases
    case 1
    then show ?thesis
      using M by (simp add: GetPaddedMessageByte_def m8 cmp unat_of_nat32 rfc_pad_def nth_append)
  next
    case 2
    then show ?thesis by (simp add: GetPaddedMessageByte_def rfc_pad_def nth_append)
  next
    case 3
    define z where "z = (119 - ?L mod 64) mod 64"
    have pad: "rfc_pad msg = (msg @ [0x80]) @ replicate z 0 @ le_bytes 8 (of_nat (8 * ?L) :: u64)"
      by (simp add: rfc_pad_def z_def)
    then have "i - (?L + 1) < z" using len 3 by auto
    then have "rfc_pad msg ! i = 0"
      unfolding pad nth_append using 3 by simp
    then show ?thesis
      unfolding GetPaddedMessageByte_def m8 cmp using 3 by auto
  next
    case 4
    define k where "k = i - (?M - 8)"
    have k: "k < 8" using 4 i by (simp add: k_def)
    have "(of_nat i - of_nat (?M - 8) :: u32) = of_nat k" using 4 by (simp add: k_def)
    then have "GetPaddedMessageByte msg (of_nat ?L) (of_nat ?M) (of_nat i)
        = le_bytes 8 (of_nat (8 * ?L) :: u64) ! k"
      unfolding GetPaddedMessageByte_def m8 cmp bits ExtractByte_le_bytes [OF k, symmetric]
      using 4 M by auto
    moreover have "rfc_pad msg ! i = le_bytes 8 (of_nat (8 * ?L) :: u64) ! k"
    proof -
      have "rfc_pad msg = (msg @ 0x80 # replicate ((119 - ?L mod 64) mod 64) 0)
          @ le_bytes 8 (of_nat (8 * ?L) :: u64)"
        by (simp add: rfc_pad_def)
      moreover from this have "length (msg @ 0x80 # replicate ((119 - ?L mod 64) mod 64) (0::u8)) = ?M - 8"
        using len M by simp
      ultimately show ?thesis
        using 4 by (simp only: nth_append k_def) simp
    qed
    ultimately show ?thesis by simp
  qed
qed

lemma of_le_bytes_4:
  "(of_le_bytes [b0, b1, b2, b3] :: u32) =
     ucast b0 OR push_bit 8 (ucast b1) OR push_bit 16 (ucast b2) OR push_bit 24 (ucast b3)"
  by (simp add: push_bit_or push_bit_push_bit ac_simps)

lemma take_4_drop:
  assumes "i + 4 \<le> length xs"
  shows "take 4 (drop i xs) = [xs ! i, xs ! (i + 1), xs ! (i + 2), xs ! (i + 3)]"
  using assms
  by (intro nth_equalityI) (auto simp: less_Suc_eq_0_disj nth_Cons' numeral_eq_Suc)

lemma GetPaddedMessageWord_rfc:
  assumes L: "length msg < 2 ^ 29" and i: "i + 4 \<le> padded_len (length msg)"
  shows "GetPaddedMessageWord msg (of_nat (length msg)) (of_nat (padded_len (length msg))) (of_nat i)
       = of_le_bytes (take 4 (drop i (rfc_pad msg)))"
proof -
  have shift: "(of_nat i + 1 :: u32) = of_nat (i + 1)" "(of_nat i + 2 :: u32) = of_nat (i + 2)"
    "(of_nat i + 3 :: u32) = of_nat (i + 3)"
    by simp_all
  have "take 4 (drop i (rfc_pad msg)) =
      [rfc_pad msg ! i, rfc_pad msg ! (i + 1), rfc_pad msg ! (i + 2), rfc_pad msg ! (i + 3)]"
    using i by (intro take_4_drop) (simp add: length_rfc_pad)
  then show ?thesis
    unfolding GetPaddedMessageWord_def shift
    using i by (simp only: GetPaddedMessageByte_rfc [OF L] of_le_bytes_4)
qed

lemma GetRoundData_map:
  "GetRoundData msg n m i = map (\<lambda>j. GetPaddedMessageWord msg n m (i + of_nat (4 * j))) [0..<16]"
  by (simp add: GetRoundData_def upt_conv_Cons)

lemma GetRoundData_rfc:
  assumes L: "length msg < 2 ^ 29" and k: "64 * k + 64 \<le> padded_len (length msg)"
  shows "GetRoundData msg (of_nat (length msg)) (of_nat (padded_len (length msg))) (of_nat (64 * k))
       = rfc_words (take 64 (drop (64 * k) (rfc_pad msg)))"
proof -
  have word: "GetPaddedMessageWord msg (of_nat (length msg)) (of_nat (padded_len (length msg)))
        (of_nat (64 * k) + of_nat (4 * j))
      = of_le_bytes (take 4 (drop (4 * j) (take 64 (drop (64 * k) (rfc_pad msg)))))"
    if j: "j < 16" for j
  proof -
    have "take 4 (drop (4 * j) (take 64 (drop (64 * k) (rfc_pad msg))))
        = take 4 (drop (64 * k + 4 * j) (rfc_pad msg))"
      using j by (simp add: drop_take take_take add.commute min_def)
    moreover have "64 * k + 4 * j + 4 \<le> padded_len (length msg)" using j k by linarith
    ultimately show ?thesis
      using GetPaddedMessageWord_rfc [OF L, of "64 * k + 4 * j"] by (simp only: of_nat_add)
  qed
  then show ?thesis
    by (simp add: GetRoundData_map rfc_words_def)
qed

section \<open>The loop over the blocks\<close>

lemma ProcessMessage_loop_from:
  assumes "64 * N < 2 ^ 32" "k \<le> N"
  shows "while_option (\<lambda>(offset, _). offset < of_nat (64 * N))
           (\<lambda>(offset, st). (offset + 64, ProcessBlock msg n (of_nat (64 * N)) offset st))
           (of_nat (64 * k), st)
       = Some (of_nat (64 * N),
           foldl (\<lambda>st k. ProcessBlock msg n (of_nat (64 * N)) (of_nat (64 * k)) st) st [k..<N])"
  using assms(2)
proof (induction "N - k" arbitrary: k st)
  case 0
  then show ?case by (subst while_option_unfold) simp
next
  case (Suc d)
  then have k: "k < N" and d: "d = N - Suc k" by simp_all
  have "(of_nat (64 * k) :: u32) < of_nat (64 * N)"
    using k assms(1) of_nat32_less [of "64 * k" "64 * N"] by simp
  moreover have "(of_nat (64 * k) + 64 :: u32) = of_nat (64 * Suc k)" by simp
  ultimately show ?case
    using Suc.hyps(1) [OF d, of "ProcessBlock msg n (of_nat (64 * N)) (of_nat (64 * k)) st"] k
    by (subst while_option_unfold) (simp add: upt_conv_Cons add.commute [of 64])
qed

lemma ProcessMessage_loop_Some:
  assumes "L + 72 < 2 ^ 32"
  shows "ProcessMessage_loop msg (of_nat L) (GetPaddedMessageLength (of_nat L)) =
     Some (of_nat (padded_len L),
       foldl (\<lambda>st k. ProcessBlock msg (of_nat L) (of_nat (padded_len L)) (of_nat (64 * k)) st)
         kInitialIntermediateData [0..<padded_len L div 64])"
proof -
  have "64 * ((L + 72) div 64) < 2 ^ 32" using assms by linarith
  then show ?thesis
    using ProcessMessage_loop_from [of "(L + 72) div 64" 0 msg "of_nat L" kInitialIntermediateData]
    by (simp add: ProcessMessage_loop_def GetPaddedMessageLength_nat [OF assms] padded_len_def)
qed

lemma foldl_map_cong:
  "(\<And>x a. x \<in> set xs \<Longrightarrow> f a x = g a (h x)) \<Longrightarrow> foldl f a xs = foldl g a (map h xs)"
  by (induction xs arbitrary: a) simp_all

lemma ProcessMessage_rfc:
  assumes L: "length msg < 2 ^ 29"
  shows "ProcessMessage msg (of_nat (length msg)) = rfc_md5 msg"
proof -
  let ?L = "length msg" and ?M = "padded_len (length msg)"
  have block: "ProcessBlock msg (of_nat ?L) (of_nat ?M) (of_nat (64 * k)) st
      = rfc_compress st (take 64 (drop (64 * k) (rfc_pad msg)))"
    if "k \<in> set [0..<?M div 64]" for k st
  proof -
    from that have "64 * k + 64 \<le> ?M" by (auto simp: less_eq_div_iff_mult_less_eq)
    from GetRoundData_rfc [OF L this] show ?thesis
      by (simp add: ProcessBlock_def rfc_compress_def steps_rfc)
  qed
  have small: "?L + 72 < 2 ^ 32" using L by simp
  have "ProcessMessage msg (of_nat ?L) =
      foldl (\<lambda>st k. ProcessBlock msg (of_nat ?L) (of_nat ?M) (of_nat (64 * k)) st)
         kInitialIntermediateData [0..<?M div 64]"
    by (simp add: ProcessMessage_def ProcessMessage_loop_Some [OF small])
  also have "\<dots> = rfc_md5 msg"
    unfolding rfc_md5_def rfc_registers_initial rfc_blocks_def length_rfc_pad
    by (rule foldl_map_cong) (rule block)
  finally show ?thesis .
qed

section \<open>The 32-bit key\<close>

lemma SwapEndian_bytes: "SwapEndian a = of_be_bytes (le_bytes 4 a)"
proof -
  have rev4: "rev (le_bytes 4 a) = [ucast (drop_bit 24 a), ucast (drop_bit 16 a),
      ucast (drop_bit 8 a), ucast a]"
    by (simp add: le_bytes_def upt_conv_Cons numeral_eq_Suc)
  have low: "(ucast (ucast w :: u8) :: u32) = w AND 0xff" for w :: u32
    by (rule bit_word_eqI) (auto simp: byte_mask bit_simps bit_mask_iff bit_unsigned_iff)
  show ?thesis
    unfolding of_be_bytes_def rev4 of_le_bytes_4 low SwapEndian_def
    by (simp add: ac_simps)
qed

lemma SwapEndian_involution [simp]: "SwapEndian (SwapEndian a) = a"
proof -
  have "le_bytes 4 (SwapEndian a) = rev (le_bytes 4 a)"
    using be_bytes_of_be_bytes [of "le_bytes 4 a", where 'a = 32]
    by (simp add: SwapEndian_bytes be_bytes_def) (metis rev_rev_ident)
  then show ?thesis
    by (simp add: SwapEndian_bytes [of "SwapEndian a"] of_be_bytes_def)
qed

lemma hash_name_digest:
  assumes "length name < 2 ^ 29"
  shows "hash_name name = of_be_bytes (take 4 (rfc_digest name))"
  using ProcessMessage_rfc [OF assms]
  by (simp add: hash_name_def MD5Hash32_def Hash32_def rfc_digest_def Let_def SwapEndian_bytes)

text \<open>Evaluation of a key, for names that fit in one block.\<close>

definition one_block_key :: "RoundData \<Rightarrow> u32" where
  "one_block_key X =
     SwapEndian (id_a kInitialIntermediateData
       + id_a (fold (rfc_step X) [0..<64] kInitialIntermediateData))"

lemma hash_name_one_block:
  assumes "length name \<le> 55" "rfc_words (rfc_pad name) = X"
  shows "hash_name name = one_block_key X"
proof -
  have "padded_len (length name) = 64"
    using assms(1) by (auto simp: padded_len_def)
  then have "rfc_blocks (rfc_pad name) = [rfc_pad name]"
    by (simp add: rfc_blocks_def length_rfc_pad)
  then have "rfc_md5 name = rfc_compress kInitialIntermediateData (rfc_pad name)"
    by (simp add: rfc_md5_def rfc_registers_initial)
  moreover have "length name < 2 ^ 29" using assms(1) by simp
  ultimately show ?thesis
    using assms(2) ProcessMessage_rfc [of name]
    by (simp add: hash_name_def MD5Hash32_def Hash32_def rfc_compress_def Add_def one_block_key_def)
qed

lemma hash_name_value: "length name \<le> 55 \<Longrightarrow> one_block_key (rfc_words (rfc_pad name)) = k \<Longrightarrow> hash_name name = k"
  using hash_name_one_block by simp

section \<open>\<open>string_literal\<close>\<close>

text \<open>
  A \<open>string_literal<CharType, Size>\<close> is an array of \<open>Size + 1\<close> characters; here the array, with
  \<open>Size\<close> one less than its length. Reading past the array is undefined, as \<open>None\<close>.
\<close>

record string_literal =
  sl_size :: nat
  sl_ar :: bytes

definition sl_wf :: "string_literal \<Rightarrow> bool" where
  "sl_wf s \<longleftrightarrow> length (sl_ar s) = sl_size s + 1"

fun sl_copy :: "bytes \<Rightarrow> bytes \<Rightarrow> nat \<Rightarrow> nat \<Rightarrow> bytes" where
  "sl_copy ar src i 0 = ar"
| "sl_copy ar src i (Suc k) = sl_copy (ar[i := src ! i]) src (Suc i) k"

text \<open>The constructor from a \<open>basic_string_view\<close> of at least \<open>Size\<close> characters.\<close>

definition sl_of_view :: "nat \<Rightarrow> bytes \<Rightarrow> string_literal option" where
  "sl_of_view Size str =
     (if Size \<le> length str
      then Some \<lparr>sl_size = Size,
             sl_ar = (sl_copy (replicate (Size + 1) 0) str 0 Size)[Size := 0]\<rparr>
      else None)"

text \<open>The constructor from an array of \<open>Size + 1\<close> characters, terminator included.\<close>

definition sl_of_array :: "bytes \<Rightarrow> string_literal option" where
  "sl_of_array value =
     (case value of [] \<Rightarrow> None
      | _ \<Rightarrow> Some \<lparr>sl_size = length value - 1,
               sl_ar = sl_copy (replicate (length value) 0) value 0 (length value)\<rparr>)"

definition sl_neq :: "string_literal \<Rightarrow> string_literal \<Rightarrow> bool" where
  "sl_neq x y =
     (if sl_size x = sl_size y
      then (\<exists>i \<in> set [0..<sl_size x]. sl_ar x ! i \<noteq> sl_ar y ! i)
      else True)"

definition sl_eq :: "string_literal \<Rightarrow> string_literal \<Rightarrow> bool" where
  "sl_eq x y = (\<not> sl_neq x y)"

fun sl_copy_at :: "bytes \<Rightarrow> bytes \<Rightarrow> nat \<Rightarrow> nat \<Rightarrow> nat \<Rightarrow> bytes" where
  "sl_copy_at ret src off i 0 = ret"
| "sl_copy_at ret src off i (Suc k) = sl_copy_at (ret[i + off := src ! i]) src off (Suc i) k"

definition sl_plus :: "string_literal \<Rightarrow> string_literal \<Rightarrow> string_literal" where
  "sl_plus x y =
     (let ret = replicate (sl_size x + sl_size y + 1) 0;
          ret = sl_copy_at ret (sl_ar x) 0 0 (sl_size x);
          ret = sl_copy_at ret (sl_ar y) (sl_size x) 0 (sl_size y)
      in \<lparr>sl_size = sl_size x + sl_size y, sl_ar = ret\<rparr>)"

definition sl_view :: "string_literal \<Rightarrow> bytes" where
  "sl_view x = take (sl_size x) (sl_ar x)"

lemma sl_copy_at_append:
  "i + k \<le> length src \<Longrightarrow> length mid = k \<Longrightarrow> length pre = i + off \<Longrightarrow>
   sl_copy_at (pre @ mid @ post) src off i k = pre @ take k (drop i src) @ post"
proof (induction k arbitrary: i pre mid)
  case 0
  then show ?case by simp
next
  case (Suc k)
  then obtain m ms where mid: "mid = m # ms" "length ms = k" by (cases mid) auto
  have "(pre @ mid @ post)[i + off := src ! i] = (pre @ [src ! i]) @ ms @ post"
    using Suc.prems mid by (simp add: list_update_append)
  then have "sl_copy_at (pre @ mid @ post) src off i (Suc k)
      = (pre @ [src ! i]) @ take k (drop (Suc i) src) @ post"
    using Suc.IH [of "Suc i" ms "pre @ [src ! i]"] Suc.prems mid by simp
  moreover have "take (Suc k) (drop i src) = src ! i # take k (drop (Suc i) src)"
    using Suc.prems by (simp add: Cons_nth_drop_Suc [symmetric])
  ultimately show ?case by simp
qed

lemma sl_copy_is_copy_at: "sl_copy ar src i k = sl_copy_at ar src 0 i k"
  by (induction k arbitrary: ar i) simp_all

lemma sl_copy_prefix:
  assumes "k \<le> length src" "k \<le> length ar"
  shows "sl_copy ar src 0 k = take k src @ drop k ar"
  using sl_copy_at_append [of 0 k src "take k ar" "[]" 0 "drop k ar"] assms
  by (simp add: sl_copy_is_copy_at)

lemma sl_plus_view:
  assumes "sl_wf x" "sl_wf y"
  shows "sl_wf (sl_plus x y) \<and> sl_view (sl_plus x y) = sl_view x @ sl_view y
     \<and> last (sl_ar (sl_plus x y)) = 0"
proof -
  let ?n = "sl_size x" and ?k = "sl_size y"
  have n: "?n \<le> length (sl_ar x)" "?k \<le> length (sl_ar y)" using assms by (simp_all add: sl_wf_def)
  have zeros: "replicate (?n + ?k + 1) (0::u8) = [] @ replicate ?n 0 @ (replicate ?k 0 @ [0])"
    by (simp add: replicate_add replicate_append_same)
  have one: "sl_copy_at (replicate (?n + ?k + 1) 0) (sl_ar x) 0 0 ?n
      = take ?n (sl_ar x) @ (replicate ?k 0 @ [0])"
    unfolding zeros using n by (subst sl_copy_at_append) auto
  have "sl_ar (sl_plus x y) = take ?n (sl_ar x) @ take ?k (sl_ar y) @ [0]"
    unfolding sl_plus_def Let_def one using n by (simp add: sl_copy_at_append)
  then show ?thesis
    using n by (simp add: sl_view_def sl_wf_def sl_plus_def Let_def)
qed

section \<open>Properties\<close>

text \<open>C15: The digest is MD5. On every name shorter than \<open>2^29\<close> bytes (so that its bit length fits in
  the \<open>uint32_t\<close> product), the key computed by \<open>MD5Hash32\<close> is the first four bytes, read big-endian,
  of the RFC 1321 digest of the name.\<close>

theorem MD5Hash32_is_rfc1321:
  assumes "length name < 2 ^ 29"
  shows "MD5Hash32 name (of_nat (length name)) = of_be_bytes (take 4 (rfc_digest name))"
  using hash_name_digest [OF assms] by (simp add: hash_name_def)

theorem MD5Hash32_is_rfc1321_witness:
  "MD5Hash32 (str_bytes ''abc'') 3 = of_be_bytes (take 4 (rfc_digest (str_bytes ''abc'')))"
  using MD5Hash32_is_rfc1321 [of "str_bytes ''abc''"] by simp

text \<open>C31: The loop over the message blocks ends for every length argument, also where the padded
  length has wrapped around in 32 bits; it then stops exactly at the padded length.\<close>

theorem ProcessMessage_terminates:
  "\<exists>st. ProcessMessage_loop message n (GetPaddedMessageLength n) = Some (GetPaddedMessageLength n, st)"
proof -
  let ?N = "unat ((n + 1 + 8 + 63) div 64)"
  have "?N \<le> unat (n + 1 + 8 + 63) div 64" by (simp add: unat_div)
  also have "\<dots> < 2 ^ 26"
  proof -
    have "unat (n + 1 + 8 + 63) < 2 ^ LENGTH(32)" by (rule unsigned_less)
    then show ?thesis by (simp only: div_less_iff_less_mult) simp
  qed
  finally have "64 * ?N < 2 ^ 32" by simp
  moreover have "GetPaddedMessageLength n = of_nat (64 * ?N)"
    by (simp add: GetPaddedMessageLength_def)
  ultimately show ?thesis
    using ProcessMessage_loop_from [of ?N 0 message n kInitialIntermediateData]
    by (simp only: ProcessMessage_loop_def) simp
qed

lemma hash_name_a: "hash_name (str_bytes ''a'') = 0x0cc175b9"
proof -
  have w: "rfc_words (rfc_pad (str_bytes ''a'')) = [0x8061, 0, 0, 0, 0, 0, 0, 0, 0, 0, 0, 0, 0, 0, 8, 0]"
    by code_simp
  moreover have "one_block_key [0x8061, 0, 0, 0, 0, 0, 0, 0, 0, 0, 0, 0, 0, 0, 8, 0] = 0x0cc175b9"
    by code_simp
  ultimately show ?thesis using hash_name_one_block by simp
qed

text \<open>The test suite of RFC 1321 on the code: the keys of the empty string, of \<open>a\<close>, of \<open>abc\<close> and
  of \<open>message digest\<close> are the leading 32 bits of the published digests.\<close>

theorem MD5Hash32_test_vectors:
  "hash_name [] = 0xd41d8cd9 \<and>
   hash_name (str_bytes ''a'') = 0x0cc175b9 \<and>
   hash_name (str_bytes ''abc'') = 0x90015098 \<and>
   hash_name (str_bytes ''message digest'') = 0xf96b697d"
proof (intro conjI)
  have w: "rfc_words (rfc_pad []) = [0x80, 0, 0, 0, 0, 0, 0, 0, 0, 0, 0, 0, 0, 0, 0, 0]"
    by code_simp
  moreover have "one_block_key [0x80, 0, 0, 0, 0, 0, 0, 0, 0, 0, 0, 0, 0, 0, 0, 0] = 0xd41d8cd9"
    by code_simp
  ultimately show "hash_name [] = 0xd41d8cd9"
    using hash_name_one_block by simp
next
  show "hash_name (str_bytes ''a'') = 0x0cc175b9" by (rule hash_name_a)
next
  have w: "rfc_words (rfc_pad (str_bytes ''abc'')) =
      [0x80636261, 0, 0, 0, 0, 0, 0, 0, 0, 0, 0, 0, 0, 0, 24, 0]"
    by code_simp
  moreover have "one_block_key [0x80636261, 0, 0, 0, 0, 0, 0, 0, 0, 0, 0, 0, 0, 0, 24, 0] = 0x90015098"
    by code_simp
  ultimately show "hash_name (str_bytes ''abc'') = 0x90015098"
    using hash_name_one_block by simp
next
  have w: "rfc_words (rfc_pad (str_bytes ''message digest'')) =
      [0x7373656d, 0x20656761, 0x65676964, 0x807473, 0, 0, 0, 0, 0, 0, 0, 0, 0, 0, 112, 0]"
    by code_simp
  moreover have "one_block_key [0x7373656d, 0x20656761, 0x65676964, 0x807473, 0, 0, 0, 0, 0, 0, 0, 0, 0, 0, 112, 0] = 0xf96b697d"
    by code_simp
  ultimately show "hash_name (str_bytes ''message digest'') = 0xf96b697d"
    using hash_name_one_block by simp
qed

end
