(* ===== verification/Cpp_Types.thy ===== *)
theory Cpp_Types
  imports Prelude
begin

text \<open>
  The types a remote procedure can mention, as far as the library inspects them at compile time:
  include/rest_rpc/traits.h (\<open>function_traits\<close>, the concepts behind \<open>is_basic_v\<close>) and the
  \<open>return_type\<close> trait of include/rest_rpc/asio_util.hpp. A type is a value of \<open>ctype\<close>, an object of
  it a value of \<open>cval\<close>; \<open>has_type\<close> relates them. A template whose instantiation is ill-formed
  is modelled by \<open>None\<close>. Floating-point types are outside the model.
\<close>

section \<open>Types and values\<close>

datatype width = W8 | W16 | W32 | W64

fun width_bytes :: "width \<Rightarrow> nat" where
  "width_bytes W8 = 1"
| "width_bytes W16 = 2"
| "width_bytes W32 = 4"
| "width_bytes W64 = 8"

text \<open>
  \<open>T_int s w\<close> are the standard integer types, signed when \<open>s\<close>; \<open>T_enum\<close> an enumeration over
  one of them; \<open>T_struct\<close> an aggregate with the given members. \<open>T_array\<close> is \<open>std::array\<close>, \<open>T_set\<close> and \<open>T_map\<close>
  are \<open>std::set\<close> and \<open>std::map\<close> with their \<open>value_type\<close>: for a map a pair, whose members are those of an
  aggregate of two. The values of a set or a map are the elements in the order of iteration; \<open>V_alt\<close> is a
  variant with the index of its alternative.
\<close>

datatype ctype =
    T_void
  | T_bool
  | T_char
  | T_int bool width
  | T_enum bool width
  | T_string
  | T_string_view
  | T_char_array nat
  | T_vector ctype
  | T_optional ctype
  | T_tuple "ctype list"
  | T_struct "ctype list"
  | T_array ctype nat
  | T_set ctype
  | T_map ctype
  | T_unique_ptr ctype
  | T_variant "ctype list"
  | T_awaitable ctype
  | T_const ctype
  | T_lref ctype
  | T_rref ctype

abbreviation T_int32 :: ctype where "T_int32 \<equiv> T_int True W32"
abbreviation T_uint64 :: ctype where "T_uint64 \<equiv> T_int False W64"
abbreviation T_pair :: "ctype \<Rightarrow> ctype \<Rightarrow> ctype" where "T_pair t u \<equiv> T_struct [t, u]"

datatype cval =
    V_unit
  | V_int int
  | V_str bytes
  | V_opt "cval option"
  | V_seq "cval list"
  | V_alt nat cval

definition int_min :: "bool \<Rightarrow> width \<Rightarrow> int" where
  "int_min s w = (if s then - (2 ^ (8 * width_bytes w - 1)) else 0)"

definition int_max :: "bool \<Rightarrow> width \<Rightarrow> int" where
  "int_max s w = (if s then 2 ^ (8 * width_bytes w - 1) - 1 else 2 ^ (8 * width_bytes w) - 1)"

definition in_range :: "bool \<Rightarrow> width \<Rightarrow> int \<Rightarrow> bool" where
  "in_range s w i \<longleftrightarrow> int_min s w \<le> i \<and> i \<le> int_max s w"

text \<open>The largest \<open>size()\<close> of a standard container.\<close>

definition max_container :: nat where
  "max_container = 2 ^ 63 - 1"

fun remove_cv :: "ctype \<Rightarrow> ctype" where
  "remove_cv (T_const t) = t"
| "remove_cv t = t"

fun remove_reference :: "ctype \<Rightarrow> ctype" where
  "remove_reference (T_lref t) = t"
| "remove_reference (T_rref t) = t"
| "remove_reference t = t"

definition remove_cvref :: "ctype \<Rightarrow> ctype" where
  "remove_cvref t = remove_cv (remove_reference t)"

text \<open>
  \<open>std::less\<close> on the keys of ordered containers, integers and strings; strings compare as \<open>char_traits\<close> do, by
  unsigned bytes. The key of an element of a map is the first member.
\<close>

fun cval_less :: "cval \<Rightarrow> cval \<Rightarrow> bool" where
  "cval_less (V_int i) (V_int j) \<longleftrightarrow> i < j"
| "cval_less (V_str a) (V_str b) \<longleftrightarrow> ord_class.lexordp a b"
| "cval_less _ _ \<longleftrightarrow> False"

fun entry_key :: "cval \<Rightarrow> cval" where
  "entry_key (V_seq (a # _)) = a"
| "entry_key v = v"

lemma size_nth_less [termination_simp]: "i < length ts \<Longrightarrow> size (ts ! i) < Suc (size_list size ts)"
  using size_list_estimation' [of "ts ! i" ts "size (ts ! i)" size] nth_mem [of i ts] by fastforce

fun has_type :: "ctype \<Rightarrow> cval \<Rightarrow> bool"
  and has_types :: "ctype list \<Rightarrow> cval list \<Rightarrow> bool"
where
  "has_type T_void v = (v = V_unit)"
| "has_type T_bool v = (v = V_int 0 \<or> v = V_int 1)"
| "has_type T_char v = (case v of V_int i \<Rightarrow> in_range True W8 i | _ \<Rightarrow> False)"
| "has_type (T_int s w) v = (case v of V_int i \<Rightarrow> in_range s w i | _ \<Rightarrow> False)"
| "has_type (T_enum s w) v = (case v of V_int i \<Rightarrow> in_range s w i | _ \<Rightarrow> False)"
| "has_type T_string v = (case v of V_str bs \<Rightarrow> length bs \<le> max_container | _ \<Rightarrow> False)"
| "has_type T_string_view v = (case v of V_str bs \<Rightarrow> length bs \<le> max_container | _ \<Rightarrow> False)"
| "has_type (T_char_array n) v = (case v of V_str bs \<Rightarrow> length bs = n \<and> 0 < n | _ \<Rightarrow> False)"
| "has_type (T_vector t) v =
     (case v of V_seq vs \<Rightarrow> length vs \<le> max_container \<and> (\<forall>x \<in> set vs. has_type t x) | _ \<Rightarrow> False)"
| "has_type (T_optional t) v =
     (case v of V_opt None \<Rightarrow> True | V_opt (Some x) \<Rightarrow> has_type t x | _ \<Rightarrow> False)"
| "has_type (T_tuple ts) v = (case v of V_seq vs \<Rightarrow> has_types ts vs | _ \<Rightarrow> False)"
| "has_type (T_struct ts) v = (case v of V_seq vs \<Rightarrow> has_types ts vs | _ \<Rightarrow> False)"
| "has_type (T_array t n) v =
     (case v of V_seq vs \<Rightarrow> length vs = n \<and> 0 < n \<and> (\<forall>x \<in> set vs. has_type t x) | _ \<Rightarrow> False)"
| "has_type (T_set t) v =
     (case v of V_seq vs \<Rightarrow> length vs \<le> max_container \<and> (\<forall>x \<in> set vs. has_type t x) \<and> sorted_wrt cval_less vs
      | _ \<Rightarrow> False)"
| "has_type (T_map t) v =
     (case v of V_seq vs \<Rightarrow> length vs \<le> max_container \<and> (\<forall>x \<in> set vs. has_type t x)
                             \<and> sorted_wrt cval_less (map entry_key vs)
      | _ \<Rightarrow> False)"
| "has_type (T_unique_ptr t) v =
     (case v of V_opt None \<Rightarrow> True | V_opt (Some x) \<Rightarrow> has_type t x | _ \<Rightarrow> False)"
| "has_type (T_variant ts) v =
     (case v of V_alt i x \<Rightarrow> if i < length ts then has_type (ts ! i) x else False | _ \<Rightarrow> False)"
| "has_type (T_awaitable t) v = has_type t v"
| "has_type (T_const t) v = has_type t v"
| "has_type (T_lref t) v = has_type t v"
| "has_type (T_rref t) v = has_type t v"
| "has_types [] vs = (vs = [])"
| "has_types (t # ts) vs = (case vs of [] \<Rightarrow> False | v # vs' \<Rightarrow> has_type t v \<and> has_types ts vs')"

lemma has_type_remove_cvref [simp]: "has_type (remove_cvref t) v = has_type t v"
  unfolding remove_cvref_def
  by (cases t rule: remove_reference.cases; cases "remove_reference t" rule: remove_cv.cases) auto

lemma has_types_Nil [simp]: "has_types ts [] \<longleftrightarrow> ts = []"
  by (cases ts) simp_all

lemma has_types_length: "has_types ts vs \<Longrightarrow> length vs = length ts"
  by (induction ts arbitrary: vs) (auto split: list.splits)

section \<open>Type traits\<close>

text \<open>\<open>std::is_fundamental_v\<close>: qualified by \<open>const\<close> or not, but never a reference.\<close>

definition is_fundamental :: "ctype \<Rightarrow> bool" where
  "is_fundamental t =
     (case remove_cv t of T_void \<Rightarrow> True | T_bool \<Rightarrow> True | T_char \<Rightarrow> True | T_int _ _ \<Rightarrow> True
      | _ \<Rightarrow> False)"

definition is_void :: "ctype \<Rightarrow> bool" where
  "is_void t \<longleftrightarrow> remove_cv t = T_void"

text \<open>\<open>concept string\<close>: a container of characters with \<open>length()\<close> and \<open>data()\<close>, of any
  value category.\<close>

definition string_concept :: "ctype \<Rightarrow> bool" where
  "string_concept t = (case remove_cvref t of T_string \<Rightarrow> True | T_string_view \<Rightarrow> True | _ \<Rightarrow> False)"

definition CharArray :: "ctype \<Rightarrow> bool" where
  "CharArray t = (case remove_cvref t of T_char_array _ \<Rightarrow> True | _ \<Rightarrow> False)"

definition CharArrayRef :: "ctype \<Rightarrow> bool" where
  "CharArrayRef t = (case remove_cvref t of T_char_array _ \<Rightarrow> True | _ \<Rightarrow> False)"

definition is_basic_v :: "ctype \<Rightarrow> bool" where
  "is_basic_v t \<longleftrightarrow> is_fundamental t \<or> string_concept t \<or> CharArray t \<or> CharArrayRef t"

text \<open>\<open>is_specialization<Test, Ref>\<close>, for the class templates among the types.\<close>

datatype class_template = Tm_awaitable | Tm_vector | Tm_optional | Tm_tuple

fun is_specialization :: "ctype \<Rightarrow> class_template \<Rightarrow> bool" where
  "is_specialization (T_awaitable _) Ref \<longleftrightarrow> Ref = Tm_awaitable"
| "is_specialization (T_vector _) Ref \<longleftrightarrow> Ref = Tm_vector"
| "is_specialization (T_optional _) Ref \<longleftrightarrow> Ref = Tm_optional"
| "is_specialization (T_tuple _) Ref \<longleftrightarrow> Ref = Tm_tuple"
| "is_specialization _ Ref \<longleftrightarrow> False"

text \<open>\<open>is_specialization_v<std::remove_cvref_t<T>, asio::awaitable>\<close> and \<open>return_type_t\<close>.\<close>

definition is_awaitable_v :: "ctype \<Rightarrow> bool" where
  "is_awaitable_v t = is_specialization (remove_cvref t) Tm_awaitable"

definition return_type_t :: "ctype \<Rightarrow> ctype" where
  "return_type_t t = (case remove_cvref t of T_awaitable u \<Rightarrow> u | _ \<Rightarrow> t)"

section \<open>Function types\<close>

text \<open>
  What \<open>function_traits\<close> is specialised on: function pointers, function types, references to
  nullary functions, member function pointers; a class falls back to its \<open>operator()\<close>.
\<close>

datatype fn_form =
    Fn_pointer
  | Fn_plain
  | Fn_reference
  | Fn_member string bool \<comment> \<open>the class; a \<open>const\<close> member function\<close>

record fn_type =
  fn_form :: fn_form
  fn_noexcept :: bool
  fn_args :: "ctype list"
  fn_ret :: ctype

datatype callable =
    C_function fn_type
  | C_functor fn_type \<comment> \<open>the type of \<open>&Function::operator()\<close>\<close>

record fn_traits =
  parameters_type :: "ctype list"
  return_type :: ctype
  class_type :: "string option"

definition traits_of_fn :: "fn_type \<Rightarrow> fn_traits option" where
  "traits_of_fn f =
     (case fn_form f of
        Fn_pointer \<Rightarrow> Some \<lparr>parameters_type = map remove_cvref (fn_args f),
                            return_type = fn_ret f, class_type = None\<rparr>
      | Fn_plain \<Rightarrow> Some \<lparr>parameters_type = map remove_cvref (fn_args f),
                          return_type = fn_ret f, class_type = None\<rparr>
      | Fn_reference \<Rightarrow>
          (if fn_args f = [] then Some \<lparr>parameters_type = [], return_type = fn_ret f, class_type = None\<rparr>
           else None)
      | Fn_member This _ \<Rightarrow> Some \<lparr>parameters_type = map remove_cvref (fn_args f),
                                 return_type = fn_ret f, class_type = Some This\<rparr>)"

definition function_traits :: "callable \<Rightarrow> fn_traits option" where
  "function_traits c =
     (case c of C_function f \<Rightarrow> traits_of_fn f
      | C_functor f \<Rightarrow> (case fn_form f of Fn_member _ _ \<Rightarrow> traits_of_fn f | _ \<Rightarrow> None))"

text \<open>The parts of the traits, for callers that need one of them.\<close>

definition function_parameters_t :: "callable \<Rightarrow> ctype list option" where
  "function_parameters_t c = map_option parameters_type (function_traits c)"

definition function_return_type_t :: "callable \<Rightarrow> ctype option" where
  "function_return_type_t c = map_option return_type (function_traits c)"

definition class_type_t :: "callable \<Rightarrow> string option" where
  "class_type_t c = Option.bind (function_traits c) class_type"

text \<open>\<open>remove_first\<close>, \<open>get_args\<close> and \<open>last_parameters_type_t\<close> on parameter tuples.\<close>

definition remove_first :: "ctype list \<Rightarrow> ctype list" where
  "remove_first ts = (case ts of [] \<Rightarrow> [] | _ # us \<Rightarrow> us)"

definition get_args :: "bool \<Rightarrow> ctype list \<Rightarrow> ctype list" where
  "get_args has_conn ts = (if has_conn then remove_first ts else ts)"

definition last_parameters_type :: "fn_traits \<Rightarrow> ctype option" where
  "last_parameters_type tr =
     (if parameters_type tr = [] then None else Some (last (parameters_type tr)))"

text \<open>
  The aliases outside \<open>util\<close> drop a reference and \<open>const\<close> from the function's type first; the traits
  themselves are specialised on unqualified types only. A reference to a nullary function has traits of its own.
\<close>

record qualified_callable =
  qc_callable :: callable
  qc_const :: bool
  qc_reference :: bool

definition qualified_traits :: "qualified_callable \<Rightarrow> fn_traits option" where
  "qualified_traits q = (if qc_const q \<or> qc_reference q then None else function_traits (qc_callable q))"

definition remove_cvref_callable :: "qualified_callable \<Rightarrow> qualified_callable" where
  "remove_cvref_callable q = q\<lparr>qc_const := False, qc_reference := False\<rparr>"

definition rpc_function_return_type_t :: "qualified_callable \<Rightarrow> ctype option" where
  "rpc_function_return_type_t q = map_option return_type (qualified_traits (remove_cvref_callable q))"

definition rpc_function_parameters_t :: "qualified_callable \<Rightarrow> ctype list option" where
  "rpc_function_parameters_t q = map_option parameters_type (qualified_traits (remove_cvref_callable q))"

text \<open>
  \<open>is_invocable\<close> asks whether a \<open>std::function<void(Args...)>\<close> can be made from a reference to \<open>F\<close>: whether
  \<open>F\<close> can be called with values of the types without their references, the result being dropped. Which
  type converts to which, and which is an object of a class, are questions for the language.
\<close>

definition is_invocable ::
  "(ctype \<Rightarrow> ctype \<Rightarrow> bool) \<Rightarrow> (string \<Rightarrow> bool \<Rightarrow> ctype \<Rightarrow> bool) \<Rightarrow> callable \<Rightarrow> ctype list \<Rightarrow> bool"
where
  "is_invocable convertible object_of c args =
     (let values = map remove_reference args in
      case c of
        C_functor f \<Rightarrow> list_all2 convertible values (fn_args f)
      | C_function f \<Rightarrow>
          (case fn_form f of
             Fn_member This const \<Rightarrow>
               (case values of
                  [] \<Rightarrow> False
                | this # rest \<Rightarrow> object_of This const this \<and> list_all2 convertible rest (fn_args f))
           | _ \<Rightarrow> list_all2 convertible values (fn_args f)))"

section \<open>Lemmas\<close>

lemma remove_cvref_simps [simp]:
  "remove_cvref (T_int s w) = T_int s w" "remove_cvref T_string = T_string"
  "remove_cvref T_string_view = T_string_view" "remove_cvref T_bool = T_bool"
  "remove_cvref T_char = T_char" "remove_cvref T_void = T_void"
  "remove_cvref (T_char_array n) = T_char_array n" "remove_cvref (T_tuple ts) = T_tuple ts"
  "remove_cvref (T_struct ts) = T_struct ts" "remove_cvref (T_vector t) = T_vector t"
  "remove_cvref (T_optional t) = T_optional t" "remove_cvref (T_enum s w) = T_enum s w"
  "remove_cvref (T_awaitable t) = T_awaitable t" "remove_cvref (T_array t n) = T_array t n"
  "remove_cvref (T_set t) = T_set t" "remove_cvref (T_map t) = T_map t"
  "remove_cvref (T_unique_ptr t) = T_unique_ptr t" "remove_cvref (T_variant ts) = T_variant ts"
  by (simp_all add: remove_cvref_def)

lemma in_range_bool: "in_range s w 0" "in_range s w 1"
  by (cases w; simp add: in_range_def int_min_def int_max_def)+

text \<open>The bounds of the integer types.\<close>

lemma in_range_signed: "in_range True w i \<longleftrightarrow> - (2 ^ (8 * width_bytes w - 1)) \<le> i \<and> i < 2 ^ (8 * width_bytes w - 1)"
  by (auto simp: in_range_def int_min_def int_max_def)

lemma in_range_unsigned: "in_range False w i \<longleftrightarrow> 0 \<le> i \<and> i < 2 ^ (8 * width_bytes w)"
  by (auto simp: in_range_def int_min_def int_max_def)

text \<open>The two branches of \<open>return_type\<close>: what a coroutine returns, and any other type as it is.\<close>

lemma return_type_t_awaitable:
  "is_awaitable_v t \<Longrightarrow> remove_cvref t = T_awaitable (return_type_t t)"
  "\<not> is_awaitable_v t \<Longrightarrow> return_type_t t = t"
  by (cases "remove_cvref t"; simp add: is_awaitable_v_def return_type_t_def)+

text \<open>The parameters of a remote procedure are objects: references and qualifiers are dropped.\<close>

lemma function_parameters_decayed:
  "function_parameters_t c = Some ps \<Longrightarrow> \<exists>args. ps = map remove_cvref args"
  unfolding function_parameters_t_def function_traits_def traits_of_fn_def
  by (auto split: callable.splits fn_form.splits if_splits intro: exI [of _ "[]"])

text \<open>Qualified or not, a function has the result and the parameters of its traits.\<close>

lemma rpc_function_types:
  "rpc_function_return_type_t q = function_return_type_t (qc_callable q)"
  "rpc_function_parameters_t q = function_parameters_t (qc_callable q)"
  by (simp_all add: rpc_function_return_type_t_def rpc_function_parameters_t_def function_return_type_t_def
      function_parameters_t_def qualified_traits_def remove_cvref_callable_def)

text \<open>A function can be invoked with its own parameters, but not with more or fewer arguments.\<close>

lemma is_invocable_parameters:
  assumes "fn_form f \<in> {Fn_pointer, Fn_plain, Fn_reference}" "\<And>t. t \<in> set (fn_args f) \<Longrightarrow> convertible (remove_reference t) t"
  shows "is_invocable convertible object_of (C_function f) (fn_args f)"
    "is_invocable convertible object_of (C_function f) args \<Longrightarrow> length args = length (fn_args f)"
  using assms by (auto simp: is_invocable_def list_all2_conv_all_nth Let_def dest: list_all2_lengthD)

lemma function_traits_noexcept:
  "function_traits (C_function (f\<lparr>fn_noexcept := b\<rparr>)) = function_traits (C_function f)"
  by (simp add: function_traits_def traits_of_fn_def split: fn_form.split)

end
