(* ===== verification/Ordered_Containers.thy ===== *)
theory Ordered_Containers
  imports Cpp_Types
begin

text \<open>
  What the serialiser uses of the ordered containers of the standard library, and of moving: \<open>emplace\<close> of
  \<open>std::set\<close> and \<open>std::map\<close> on the elements in the order of iteration, and the object that is left when a
  value is moved from. The moved-from string and containers are empty, as in the three standard libraries,
  an optional stays engaged, as the standard says.
\<close>

section \<open>Emplace\<close>

text \<open>An element with the key of another one is dropped.\<close>

fun tree_emplace :: "(cval \<Rightarrow> cval) \<Rightarrow> cval \<Rightarrow> cval list \<Rightarrow> cval list" where
  "tree_emplace key v [] = [v]"
| "tree_emplace key v (x # xs) =
     (if cval_less (key v) (key x) then v # x # xs
      else if cval_less (key x) (key v) then x # tree_emplace key v xs
      else x # xs)"

lemma cval_less_irrefl [simp]: "\<not> cval_less a a"
  by (cases "(a, a)" rule: cval_less.cases) (auto simp: lexordp_irreflexive')

lemma cval_less_trans: "cval_less a b \<Longrightarrow> cval_less b c \<Longrightarrow> cval_less a c"
  by (elim cval_less.elims) (auto intro: lexordp_trans)

lemma cval_less_asym: "cval_less a b \<Longrightarrow> \<not> cval_less b a"
  using cval_less_trans [of a b a] by auto

lemma set_tree_emplace: "set (tree_emplace key v xs) \<subseteq> insert v (set xs)"
  by (induction xs) auto

lemma length_tree_emplace: "length (tree_emplace key v xs) \<le> Suc (length xs)"
  by (induction xs) auto

lemma sorted_tree_emplace:
  "sorted_wrt cval_less (map key xs) \<Longrightarrow> sorted_wrt cval_less (map key (tree_emplace key v xs))"
proof (induction xs)
  case (Cons x xs)
  have "\<forall>y \<in> set xs. cval_less (key v) (key x) \<longrightarrow> cval_less (key v) (key y)"
    using Cons.prems cval_less_trans [of "key v" "key x"] by simp
  then show ?case
    using Cons set_tree_emplace [of key v xs] by (simp split del: if_split split: if_split) blast
qed simp

lemma tree_emplace_last:
  "\<forall>x \<in> set xs. cval_less (key x) (key v) \<Longrightarrow> tree_emplace key v xs = xs @ [v]"
  by (induction xs) (auto dest: cval_less_asym)

section \<open>Moved-from objects\<close>

fun moved_from :: "ctype \<Rightarrow> cval \<Rightarrow> cval"
  and moved_from_all :: "ctype list \<Rightarrow> cval list \<Rightarrow> cval list"
where
  "moved_from T_string v = V_str []"
| "moved_from (T_vector t) v = V_seq []"
| "moved_from (T_set t) v = V_seq []"
| "moved_from (T_map t) v = V_seq []"
| "moved_from (T_unique_ptr t) v = V_opt None"
| "moved_from (T_optional t) v = (case v of V_opt (Some x) \<Rightarrow> V_opt (Some (moved_from t x)) | _ \<Rightarrow> v)"
| "moved_from (T_array t n) v = (case v of V_seq vs \<Rightarrow> V_seq (map (moved_from t) vs) | _ \<Rightarrow> v)"
| "moved_from (T_tuple ts) v = (case v of V_seq vs \<Rightarrow> V_seq (moved_from_all ts vs) | _ \<Rightarrow> v)"
| "moved_from (T_struct ts) v = (case v of V_seq vs \<Rightarrow> V_seq (moved_from_all ts vs) | _ \<Rightarrow> v)"
| "moved_from (T_variant ts) v =
     (case v of V_alt i x \<Rightarrow> if i < length ts then V_alt i (moved_from (ts ! i) x) else v | _ \<Rightarrow> v)"
| "moved_from t v = v"
| "moved_from_all (t # ts) (v # vs) = moved_from t v # moved_from_all ts vs"
| "moved_from_all _ _ = []"

lemma moved_from_has_type:
  "has_type t v \<Longrightarrow> has_type t (moved_from t v)"
  "has_types ts vs \<Longrightarrow> has_types ts (moved_from_all ts vs)"
  by (induction t v and ts vs rule: moved_from_moved_from_all.induct)
     (auto split: cval.splits option.splits if_splits)

end
