(* ===== verification/Struct_Pack_Layout.thy ===== *)
theory Struct_Pack_Layout
  imports Md5 Ordered_Containers
begin

text \<open>
  What struct_pack (thirdparty/ylt/struct_pack) computes from types alone: its error codes, the layout of the
  aggregates it copies as objects (alignment.hpp, \<open>is_trivial_serializable\<close> of reflection.hpp), the type
  literals and their hash (type_calculate.hpp, type_id.hpp), and which types the development models.
\<close>

section \<open>Errors\<close>

datatype sp_errc =
    sp_ok
  | no_buffer_space
  | invalid_buffer
  | hash_conflict
  | invalid_width_of_container_length

fun make_error_message :: "sp_errc \<Rightarrow> string" where
  "make_error_message sp_ok = ''ok''"
| "make_error_message no_buffer_space = ''no buffer space''"
| "make_error_message invalid_buffer = ''invalid argument''"
| "make_error_message hash_conflict = ''hash conflict''"
| "make_error_message invalid_width_of_container_length = ''invalid width of container length''"

section \<open>The layout of aggregates\<close>

text \<open>\<open>is_trivial_serializable\<close>\<close>

fun is_trivial_serializable :: "ctype \<Rightarrow> bool"
  and all_trivial :: "ctype list \<Rightarrow> bool"
where
  "is_trivial_serializable T_void = True"
| "is_trivial_serializable T_bool = True"
| "is_trivial_serializable T_char = True"
| "is_trivial_serializable (T_int _ _) = True"
| "is_trivial_serializable (T_enum _ _) = True"
| "is_trivial_serializable (T_char_array _) = True"
| "is_trivial_serializable (T_struct ts) = all_trivial ts"
| "is_trivial_serializable (T_array t n) = is_trivial_serializable t"
| "is_trivial_serializable (T_const t) = is_trivial_serializable t"
| "is_trivial_serializable _ = False"
| "all_trivial [] = True"
| "all_trivial (t # ts) = (is_trivial_serializable t \<and> all_trivial ts)"

text \<open>
  \<open>alignment_v\<close> of a type and \<open>pack_alignment_v\<close> of the members of an aggregate, without \<open>#pragma pack\<close>
  and \<open>alignas\<close>: the largest alignment of a member. \<open>std::alignment_of\<close> of an integer is its size, as on the
  64-bit hosts.
\<close>

fun alignment_v :: "ctype \<Rightarrow> nat"
  and pack_alignment_v :: "ctype list \<Rightarrow> nat"
where
  "alignment_v (T_int _ w) = width_bytes w"
| "alignment_v (T_enum _ w) = width_bytes w"
| "alignment_v (T_struct ts) = pack_alignment_v ts"
| "alignment_v (T_array t n) = alignment_v t"
| "alignment_v (T_const t) = alignment_v t"
| "alignment_v _ = 1"
| "pack_alignment_v [] = 1"
| "pack_alignment_v (t # ts) = max (alignment_v t) (pack_alignment_v ts)"

text \<open>\<open>sizeof\<close> of the fundamental types and enumerations, and of what is made of them, by the rules of the language.\<close>

fun scalar_size :: "ctype \<Rightarrow> nat" where
  "scalar_size (T_int _ w) = width_bytes w"
| "scalar_size (T_enum _ w) = width_bytes w"
| "scalar_size T_void = 0"
| "scalar_size _ = 1"

definition round_up :: "nat \<Rightarrow> nat \<Rightarrow> nat" where
  "round_up a n = (n + a - 1) div a * a"

fun object_size :: "ctype \<Rightarrow> nat"
  and members_end :: "ctype list \<Rightarrow> nat \<Rightarrow> nat"
where
  "object_size (T_char_array n) = n"
| "object_size (T_struct ts) = round_up (pack_alignment_v ts) (members_end ts 0)"
| "object_size (T_array t n) = n * object_size t"
| "object_size (T_const t) = object_size t"
| "object_size t = scalar_size t"
| "members_end [] offset = offset"
| "members_end (t # ts) offset = members_end ts (round_up (alignment_v t) offset + object_size t)"

text \<open>\<open>calculate_padding_size\<close>: the padding before each member, and the one at the end.\<close>

fun member_paddings :: "nat \<Rightarrow> ctype list \<Rightarrow> nat \<Rightarrow> nat list \<times> nat" where
  "member_paddings pack [] offset = ([], offset)"
| "member_paddings pack (t # ts) offset =
     (let padding = (if offset mod alignment_v t \<noteq> 0
                     then min (pack - 1) (alignment_v t - offset mod alignment_v t) else 0)
      in case member_paddings pack ts (offset + padding + object_size t) of (ps, e) \<Rightarrow> (padding # ps, e))"

definition calculate_padding_size :: "ctype list \<Rightarrow> nat list" where
  "calculate_padding_size ts =
     (case member_paddings (pack_alignment_v ts) ts 0 of (ps, offset) \<Rightarrow>
        ps @ [if offset mod pack_alignment_v ts \<noteq> 0
              then pack_alignment_v ts - offset mod pack_alignment_v ts else 0])"

definition total_padding_size :: "ctype list \<Rightarrow> nat" where
  "total_padding_size ts = sum_list (calculate_padding_size ts)"

section \<open>Type literals and the type hash\<close>

fun get_integral_type :: "bool \<Rightarrow> width \<Rightarrow> u8" where
  "get_integral_type True W32 = 1"
| "get_integral_type False W32 = 2"
| "get_integral_type True W64 = 3"
| "get_integral_type False W64 = 4"
| "get_integral_type True W8 = 5"
| "get_integral_type False W8 = 6"
| "get_integral_type True W16 = 7"
| "get_integral_type False W16 = 8"

text \<open>Digits to the base 127, each plus one, the last one marked by adding 129.\<close>

fun get_size_literal :: "nat \<Rightarrow> bytes" where
  "get_size_literal sz =
     (if sz < 127 then [of_nat (sz + 129)]
      else of_nat (sz mod 127 + 1) # get_size_literal (sz div 127))"

declare get_size_literal.simps [simp del]

fun get_type_literal :: "ctype \<Rightarrow> bytes"
  and get_type_literals :: "ctype list \<Rightarrow> bytes"
where
  "get_type_literal T_void = [250]"
| "get_type_literal T_bool = [11]"
| "get_type_literal T_char = [12]"
| "get_type_literal (T_int s w) = [get_integral_type s w]"
| "get_type_literal (T_enum s w) = [get_integral_type s w]"
| "get_type_literal T_string = [128, 12]"
| "get_type_literal T_string_view = [128, 12]"
| "get_type_literal (T_char_array n) = 129 # 12 # get_size_literal n"
| "get_type_literal (T_vector t) = 132 # get_type_literal t"
| "get_type_literal (T_optional t) = 133 # get_type_literal t"
| "get_type_literal (T_tuple ts) = 253 # get_type_literals ts @ [255]"
| "get_type_literal (T_struct ts) = 253 # get_type_literals ts
     @ (if all_trivial ts
        then get_size_literal (pack_alignment_v ts) @ get_size_literal (alignment_v (T_struct ts)) else [])
     @ [255]"
| "get_type_literal (T_array t n) = 129 # get_type_literal t @ get_size_literal n"
| "get_type_literal (T_map t) =
     130 # (case t of T_struct [k, m] \<Rightarrow> get_type_literal k @ get_type_literal m | _ \<Rightarrow> [])"
| "get_type_literal (T_set t) = 131 # get_type_literal t"
| "get_type_literal (T_unique_ptr t) = 133 # get_type_literal t"
| "get_type_literal (T_variant ts) = 134 # get_type_literals ts @ [255]"
| "get_type_literal (T_awaitable t) = []"
| "get_type_literal (T_const t) = get_type_literal t"
| "get_type_literal (T_lref t) = get_type_literal t"
| "get_type_literal (T_rref t) = get_type_literal t"
| "get_type_literals [] = []"
| "get_type_literals (t # ts) = get_type_literal t @ get_type_literals ts"

definition get_types_code :: "ctype \<Rightarrow> u32" where
  "get_types_code t =
     MD5Hash32 (get_type_literal t) (of_nat (length (get_type_literal t))) AND 0xFFFFFFFE"

text \<open>
  An object that is read into again after it was moved from: what its type must not contain for the
  value read to depend on the bytes alone. An optional that is empty on the wire leaves the object as it is.
\<close>

fun reusable :: "ctype \<Rightarrow> bool"
  and all_reusable :: "ctype list \<Rightarrow> bool"
where
  "reusable (T_optional _) = False"
| "reusable T_string_view = False"
| "reusable (T_array t _) = reusable t"
| "reusable (T_tuple ts) = all_reusable ts"
| "reusable (T_struct ts) = all_reusable ts"
| "reusable (T_const _) = False"
| "reusable (T_lref _) = False"
| "reusable (T_rref _) = False"
| "reusable _ = True"
| "all_reusable [] = True"
| "all_reusable (t # ts) = (reusable t \<and> all_reusable ts)"

text \<open>The keys of ordered containers are the types that \<open>cval_less\<close> orders.\<close>

fun key_type :: "ctype \<Rightarrow> bool" where
  "key_type T_bool = True"
| "key_type T_char = True"
| "key_type (T_int _ _) = True"
| "key_type (T_enum _ _) = True"
| "key_type T_string = True"
| "key_type _ = False"

definition map_entry_type :: "ctype \<Rightarrow> bool" where
  "map_entry_type t = (case t of T_struct [k, m] \<Rightarrow> key_type k \<and> reusable m | _ \<Rightarrow> False)"

text \<open>
  The types of the model: the supported ones; what is copied as an object has no padding, and the entries of
  a map can be read one into the other. The references to the elements of \<open>std::vector<bool>\<close> do not bind to
  the parameter of \<open>deserialize_one\<close>.
\<close>

fun sp_type :: "ctype \<Rightarrow> bool"
  and sp_types :: "ctype list \<Rightarrow> bool"
where
  "sp_type (T_vector t) = (sp_type t \<and> t \<noteq> T_bool)"
| "sp_type (T_optional t) = sp_type t"
| "sp_type (T_tuple ts) = (ts \<noteq> [] \<and> sp_types ts)"
| "sp_type (T_struct ts) = (ts \<noteq> [] \<and> sp_types ts \<and> (all_trivial ts \<longrightarrow> total_padding_size ts = 0))"
| "sp_type (T_array t n) = (sp_type t \<and> 0 < n)"
| "sp_type (T_set t) = key_type t"
| "sp_type (T_map t) = (sp_type t \<and> map_entry_type t)"
| "sp_type (T_unique_ptr t) = sp_type t"
| "sp_type (T_variant ts) = (ts \<noteq> [] \<and> length ts < 256 \<and> sp_types ts)"
| "sp_type (T_awaitable _) = False"
| "sp_type T_void = False"
| "sp_type (T_char_array n) = (0 < n)"
| "sp_type (T_const t) = sp_type t"
| "sp_type (T_lref t) = sp_type t"
| "sp_type (T_rref t) = sp_type t"
| "sp_type _ = True"
| "sp_types [] = True"
| "sp_types (t # ts) = (sp_type t \<and> sp_types ts)"

fun check_if_has_container :: "ctype \<Rightarrow> bool"
  and any_has_container :: "ctype list \<Rightarrow> bool"
where
  "check_if_has_container T_string = True"
| "check_if_has_container T_string_view = True"
| "check_if_has_container (T_vector _) = True"
| "check_if_has_container (T_set _) = True"
| "check_if_has_container (T_map _) = True"
| "check_if_has_container (T_array t _) = check_if_has_container t"
| "check_if_has_container (T_optional t) = check_if_has_container t"
| "check_if_has_container (T_unique_ptr t) = check_if_has_container t"
| "check_if_has_container (T_variant ts) = any_has_container ts"
| "check_if_has_container (T_tuple ts) = any_has_container ts"
| "check_if_has_container (T_struct ts) = any_has_container ts"
| "check_if_has_container (T_const t) = check_if_has_container t"
| "check_if_has_container (T_lref t) = check_if_has_container t"
| "check_if_has_container (T_rref t) = check_if_has_container t"
| "check_if_has_container _ = False"
| "any_has_container [] = False"
| "any_has_container (t # ts) = (check_if_has_container t \<or> any_has_container ts)"

section \<open>The computed padding is the padding of the layout\<close>

lemma width_bytes_bounds [simp]: "0 < width_bytes w" "width_bytes w \<le> 8"
  by (cases w; simp)+

lemma alignment_v_pos [simp]: "0 < alignment_v t" "0 < pack_alignment_v ts"
  by (induction t and ts rule: alignment_v_pack_alignment_v.induct) simp_all

lemma alignment_v_le: "t \<in> set ts \<Longrightarrow> alignment_v t \<le> pack_alignment_v ts"
  by (induction ts) auto

lemma round_up_padding:
  assumes "0 < a"
  shows "round_up a n = n + (if n mod a \<noteq> 0 then a - n mod a else 0)"
proof -
  have "(n + a - 1) div a = n div a + (n mod a + a - 1) div a"
  proof -
    have "n + a - 1 = n div a * a + (n mod a + a - 1)" using assms by simp
    then show ?thesis using assms by (simp only: div_mult_self3)
  qed
  moreover have "(n mod a + a - 1) div a = (if n mod a \<noteq> 0 then 1 else 0)"
  proof (cases "n mod a = 0")
    case False
    then have m: "n mod a + a - 1 = a + (n mod a - 1)" "(n mod a - 1) div a = 0"
      using mod_less_divisor [OF assms, of n] by simp_all
    have "(a + (n mod a - 1)) div a = (n mod a - 1) div a + 1" using assms by (intro div_add_self1) simp
    then show ?thesis using False by (simp only: m) simp
  qed (use assms in simp)
  ultimately have "round_up a n = n - n mod a + (if n mod a \<noteq> 0 then a else 0)"
    by (simp add: round_up_def distrib_right minus_mod_eq_div_mult)
  then show ?thesis using mod_less_divisor [OF assms, of n] mod_less_eq_dividend [of n a] by auto
qed

lemma member_paddings_end:
  assumes "\<And>t. t \<in> set ts \<Longrightarrow> alignment_v t \<le> pack" "member_paddings pack ts offset = (ps, e)"
  shows "e = members_end ts offset \<and> e = offset + sum_list (map object_size ts) + sum_list ps"
  using assms
proof (induction ts arbitrary: offset ps)
  case (Cons t ts)
  let ?p = "if offset mod alignment_v t \<noteq> 0 then min (pack - 1) (alignment_v t - offset mod alignment_v t) else 0"
  have p: "offset + ?p = round_up (alignment_v t) offset"
    using Cons.prems(1) [of t] by (auto simp: round_up_padding min_def)
  obtain qs where q: "member_paddings pack ts (offset + ?p + object_size t) = (qs, e)" "ps = ?p # qs"
    using Cons.prems(2) by (auto simp: Let_def split: prod.splits)
  then show ?case using Cons.IH [OF _ q(1)] Cons.prems(1) p by auto
qed simp

text \<open>
  An object is as large as its members and the padding that \<open>calculate_padding_size\<close> finds together.
\<close>

lemma object_size_padding:
  "object_size (T_struct ts) = sum_list (map object_size ts) + total_padding_size ts"
proof -
  obtain ps e where m: "member_paddings (pack_alignment_v ts) ts 0 = (ps, e)" by fastforce
  show ?thesis
    using member_paddings_end [OF alignment_v_le m] m
    by (auto simp: total_padding_size_def calculate_padding_size_def round_up_padding)
qed

end
