(* ===== verification/Struct_Pack.thy ===== *)
theory Struct_Pack
  imports Struct_Pack_Layout
begin

text \<open>
  The default serialiser of the library, struct_pack (thirdparty/ylt/struct_pack), on the types
  of this development: integers, characters, booleans, enumerations, strings, arrays, vectors, ordered sets
  and maps, optionals, unique pointers, variants, tuples and aggregates. An aggregate of trivially serialisable
  members is copied as the object it is, with the layout of Struct_Pack_Layout; one that has padding is not a
  type of the model, since the bytes of the padding, which go on the wire, have no value. A map whose mapped
  type has an optional is not one either: reading it back does not give what was written
  (\<open>map_entry_keeps_optional\<close>). The wire image is little-endian on every host (the wrappers of
  endian_wrapper.hpp swap on a big-endian one).
  \<open>serialize\<close> writes a type hash, optional meta information and the payload into a buffer whose
  size is computed beforehand; \<open>deserialize\<close> checks the hash and reads the payload back. The flag
  \<open>dbg\<close> is the absence of \<open>NDEBUG\<close>, which adds the type literal to the image. Configurations,
  compatible members, variable-length integers, unordered containers, polymorphic pointers and user-defined
  serialisation of struct_pack are not modelled.
\<close>

section \<open>Sizes\<close>

record size_info =
  si_total :: nat
  si_size_cnt :: nat
  si_max_size :: nat

definition size_info_zero :: size_info where
  "size_info_zero = \<lparr>si_total = 0, si_size_cnt = 0, si_max_size = 0\<rparr>"

definition size_info_plus :: "size_info \<Rightarrow> size_info \<Rightarrow> size_info" where
  "size_info_plus x y =
     \<lparr>si_total = si_total x + si_total y, si_size_cnt = si_size_cnt x + si_size_cnt y,
      si_max_size = max (si_max_size x) (si_max_size y)\<rparr>"

fun calculate_one_size :: "ctype \<Rightarrow> cval \<Rightarrow> size_info"
  and calculate_payload_size :: "ctype list \<Rightarrow> cval list \<Rightarrow> size_info"
where
  "calculate_one_size (T_vector t) v =
     (case v of V_seq vs \<Rightarrow>
        foldl size_info_plus (size_info_zero\<lparr>si_size_cnt := 1, si_max_size := length vs\<rparr>)
          (map (calculate_one_size t) vs)
      | _ \<Rightarrow> size_info_zero)"
| "calculate_one_size (T_optional t) v =
     (case v of V_opt (Some x) \<Rightarrow> size_info_plus (size_info_zero\<lparr>si_total := 1\<rparr>) (calculate_one_size t x)
      | _ \<Rightarrow> size_info_zero\<lparr>si_total := 1\<rparr>)"
| "calculate_one_size (T_tuple ts) v =
     (case v of V_seq vs \<Rightarrow> calculate_payload_size ts vs | _ \<Rightarrow> size_info_zero)"
| "calculate_one_size (T_struct ts) v =
     (if all_trivial ts then size_info_zero\<lparr>si_total := object_size (T_struct ts)\<rparr>
      else case v of V_seq vs \<Rightarrow> calculate_payload_size ts vs | _ \<Rightarrow> size_info_zero)"
| "calculate_one_size (T_array t n) v =
     (if is_trivial_serializable t then size_info_zero\<lparr>si_total := object_size (T_array t n)\<rparr>
      else case v of V_seq vs \<Rightarrow> foldl size_info_plus size_info_zero (map (calculate_one_size t) vs)
           | _ \<Rightarrow> size_info_zero)"
| "calculate_one_size (T_set t) v =
     (case v of V_seq vs \<Rightarrow>
        foldl size_info_plus (size_info_zero\<lparr>si_size_cnt := 1, si_max_size := length vs\<rparr>)
          (map (calculate_one_size t) vs)
      | _ \<Rightarrow> size_info_zero)"
| "calculate_one_size (T_map t) v =
     (case v of V_seq vs \<Rightarrow>
        foldl size_info_plus (size_info_zero\<lparr>si_size_cnt := 1, si_max_size := length vs\<rparr>)
          (map (calculate_one_size t) vs)
      | _ \<Rightarrow> size_info_zero)"
| "calculate_one_size (T_unique_ptr t) v =
     (case v of V_opt (Some x) \<Rightarrow> size_info_plus (size_info_zero\<lparr>si_total := 1\<rparr>) (calculate_one_size t x)
      | _ \<Rightarrow> size_info_zero\<lparr>si_total := 1\<rparr>)"
| "calculate_one_size (T_variant ts) v =
     (case v of V_alt i x \<Rightarrow>
        if i < length ts
        then size_info_plus (size_info_zero\<lparr>si_total := 1\<rparr>) (calculate_one_size (ts ! i) x)
        else size_info_zero
      | _ \<Rightarrow> size_info_zero)"
| "calculate_one_size T_string v =
     (case v of V_str bs \<Rightarrow> \<lparr>si_total = length bs, si_size_cnt = 1, si_max_size = length bs\<rparr>
      | _ \<Rightarrow> size_info_zero)"
| "calculate_one_size T_string_view v =
     (case v of V_str bs \<Rightarrow> \<lparr>si_total = length bs, si_size_cnt = 1, si_max_size = length bs\<rparr>
      | _ \<Rightarrow> size_info_zero)"
| "calculate_one_size (T_char_array n) v = size_info_zero\<lparr>si_total := n\<rparr>"
| "calculate_one_size (T_const t) v = calculate_one_size t v"
| "calculate_one_size (T_lref t) v = calculate_one_size t v"
| "calculate_one_size (T_rref t) v = calculate_one_size t v"
| "calculate_one_size (T_awaitable t) v = size_info_zero"
| "calculate_one_size t v = size_info_zero\<lparr>si_total := scalar_size t\<rparr>"
| "calculate_payload_size (t # ts) (v # vs) =
     size_info_plus (calculate_one_size t v) (calculate_payload_size ts vs)"
| "calculate_payload_size _ _ = size_info_zero"

text \<open>The width code of container lengths, the two bits \<open>metainfo & 0b11000\<close>.\<close>

definition size_code :: "nat \<Rightarrow> nat" where
  "size_code max_size =
     (if max_size < 2 ^ 8 then 0 else if max_size < 2 ^ 16 then 1
      else if max_size < 2 ^ 32 then 2 else 3)"

definition code_width :: "nat \<Rightarrow> nat" where
  "code_width c = 2 ^ c"

record serialize_buffer_size =
  bs_len :: nat
  bs_code :: nat
  bs_metainfo :: u8

definition get_serialize_runtime_info :: "bool \<Rightarrow> ctype \<Rightarrow> cval \<Rightarrow> serialize_buffer_size" where
  "get_serialize_runtime_info dbg t v =
     (let sz = calculate_one_size t v;
          code = (if check_if_has_container t then size_code (si_max_size sz) else 0);
          len = (if dbg then 1 else 0);
          len = len + si_total sz
                  + (if check_if_has_container t then si_size_cnt sz * code_width code else 0);
          len = len + (if code \<noteq> 0 \<and> \<not> dbg then 1 else 0);
          len = len + 4;
          len = len + (if dbg then length (get_type_literal t) + 1 else 0)
      in \<lparr>bs_len = len, bs_code = code,
          bs_metainfo = push_bit 3 (of_nat code) OR (if dbg then 4 else 0)\<rparr>)"

section \<open>Serialisation\<close>

definition write_size :: "nat \<Rightarrow> nat \<Rightarrow> bytes" where
  "write_size code n = le_bytes (code_width code) (of_nat n :: u64)"

text \<open>
  A trivially copyable aggregate is written as its \<open>sizeof\<close> bytes; without padding these are the bytes of its
  members one after the other.
\<close>

fun serialize_one :: "nat \<Rightarrow> ctype \<Rightarrow> cval \<Rightarrow> bytes"
  and serialize_many :: "nat \<Rightarrow> ctype list \<Rightarrow> cval list \<Rightarrow> bytes"
where
  "serialize_one code (T_vector t) v =
     (case v of V_seq vs \<Rightarrow> write_size code (length vs) @ concat (map (serialize_one code t) vs)
      | _ \<Rightarrow> [])"
| "serialize_one code (T_optional t) v =
     (case v of V_opt (Some x) \<Rightarrow> 1 # serialize_one code t x | _ \<Rightarrow> [0])"
| "serialize_one code (T_tuple ts) v = (case v of V_seq vs \<Rightarrow> serialize_many code ts vs | _ \<Rightarrow> [])"
| "serialize_one code (T_struct ts) v = (case v of V_seq vs \<Rightarrow> serialize_many code ts vs | _ \<Rightarrow> [])"
| "serialize_one code (T_array t n) v =
     (case v of V_seq vs \<Rightarrow> concat (map (serialize_one code t) vs) | _ \<Rightarrow> [])"
| "serialize_one code (T_set t) v =
     (case v of V_seq vs \<Rightarrow> write_size code (length vs) @ concat (map (serialize_one code t) vs)
      | _ \<Rightarrow> [])"
| "serialize_one code (T_map t) v =
     (case v of V_seq vs \<Rightarrow> write_size code (length vs) @ concat (map (serialize_one code t) vs)
      | _ \<Rightarrow> [])"
| "serialize_one code (T_unique_ptr t) v =
     (case v of V_opt (Some x) \<Rightarrow> 1 # serialize_one code t x | _ \<Rightarrow> [0])"
| "serialize_one code (T_variant ts) v =
     (case v of V_alt i x \<Rightarrow> if i < length ts then of_nat i # serialize_one code (ts ! i) x else []
      | _ \<Rightarrow> [])"
| "serialize_one code T_string v = (case v of V_str bs \<Rightarrow> write_size code (length bs) @ bs | _ \<Rightarrow> [])"
| "serialize_one code T_string_view v =
     (case v of V_str bs \<Rightarrow> write_size code (length bs) @ bs | _ \<Rightarrow> [])"
| "serialize_one code (T_char_array n) v = (case v of V_str bs \<Rightarrow> bs | _ \<Rightarrow> [])"
| "serialize_one code (T_const t) v = serialize_one code t v"
| "serialize_one code (T_lref t) v = serialize_one code t v"
| "serialize_one code (T_rref t) v = serialize_one code t v"
| "serialize_one code (T_awaitable t) v = []"
| "serialize_one code t v =
     (case v of V_int i \<Rightarrow> le_bytes (scalar_size t) (word_of_int i :: u64) | _ \<Rightarrow> [])"
| "serialize_many code (t # ts) (v # vs) = serialize_one code t v @ serialize_many code ts vs"
| "serialize_many code _ _ = []"

definition serialize_metainfo :: "bool \<Rightarrow> serialize_buffer_size \<Rightarrow> ctype \<Rightarrow> bytes" where
  "serialize_metainfo dbg info t =
     (let hash_head = (get_types_code t + (if dbg then 1 else 0))
                        OR (if bs_code info = 0 then 0 else 1)
      in le_bytes 4 hash_head
           @ (if hash_head mod 2 = 1
              then bs_metainfo info # (if dbg then get_type_literal t @ [0] else [])
              else []))"

definition sp_serialize :: "bool \<Rightarrow> ctype \<Rightarrow> cval \<Rightarrow> bytes" where
  "sp_serialize dbg t v =
     (let info = get_serialize_runtime_info dbg t v
      in serialize_metainfo dbg info t @ serialize_one (bs_code info) t v)"

section \<open>Deserialisation\<close>

text \<open>
  \<open>memory_reader\<close> is the rest of the buffer; a failed read leaves it where it was. A reader is given the item
  as it is before, and returns the error code, the item as far as it was read, and the buffer that is left.
  What \<open>deserialize\<close> and the elements of a vector read into is default-constructed; an ordered container reads
  all its elements into one object and moves each from there.
\<close>

type_synonym sp_read = "sp_errc \<times> cval \<times> bytes"

definition reader_read :: "nat \<Rightarrow> bytes \<Rightarrow> (bytes \<times> bytes) option" where
  "reader_read n bs = (if length bs < n then None else Some (take n bs, drop n bs))"

fun default_val :: "ctype \<Rightarrow> cval"
  and default_vals :: "ctype list \<Rightarrow> cval list"
where
  "default_val T_void = V_unit"
| "default_val T_string = V_str []"
| "default_val T_string_view = V_str []"
| "default_val (T_char_array n) = V_str (replicate n 0)"
| "default_val (T_vector _) = V_seq []"
| "default_val (T_optional _) = V_opt None"
| "default_val (T_tuple ts) = V_seq (default_vals ts)"
| "default_val (T_struct ts) = V_seq (default_vals ts)"
| "default_val (T_array t n) = V_seq (replicate n (default_val t))"
| "default_val (T_set _) = V_seq []"
| "default_val (T_map _) = V_seq []"
| "default_val (T_unique_ptr _) = V_opt None"
| "default_val (T_variant ts) = (case ts of [] \<Rightarrow> V_unit | t # _ \<Rightarrow> V_alt 0 (default_val t))"
| "default_val (T_awaitable t) = default_val t"
| "default_val (T_const t) = default_val t"
| "default_val (T_lref t) = default_val t"
| "default_val (T_rref t) = default_val t"
| "default_val _ = V_int 0"
| "default_vals [] = []"
| "default_vals (t # ts) = default_val t # default_vals ts"

text \<open>The value of the object representation of an integer.\<close>

definition int_of_bytes :: "bool \<Rightarrow> bytes \<Rightarrow> int" where
  "int_of_bytes s bs =
     (let u = uint (of_le_bytes bs :: u64); k = 8 * length bs
      in if s \<and> 2 ^ (k - 1) \<le> u then u - 2 ^ k else u)"

fun scalar_signed :: "ctype \<Rightarrow> bool" where
  "scalar_signed (T_int s _) = s"
| "scalar_signed (T_enum s _) = s"
| "scalar_signed T_char = True"
| "scalar_signed _ = False"

definition read_scalar :: "ctype \<Rightarrow> cval \<Rightarrow> bytes \<Rightarrow> sp_read" where
  "read_scalar t old r =
     (case reader_read (scalar_size t) r of
        None \<Rightarrow> (no_buffer_space, old, r)
      | Some (bs, r') \<Rightarrow> (sp_ok, V_int (int_of_bytes (scalar_signed t) bs), r'))"

definition read_size :: "nat \<Rightarrow> bytes \<Rightarrow> (nat \<times> bytes) option" where
  "read_size code r =
     (case reader_read (code_width code) r of None \<Rightarrow> None
      | Some (bs, r') \<Rightarrow> Some (unat (of_le_bytes bs :: u64), r'))"

text \<open>The length 0 leaves the string as it is.\<close>

definition read_string :: "nat \<Rightarrow> cval \<Rightarrow> bytes \<Rightarrow> sp_read" where
  "read_string code old r =
     (case read_size code r of None \<Rightarrow> (no_buffer_space, old, r)
      | Some (sz, r1) \<Rightarrow>
          if sz = 0 then (sp_ok, old, r1)
          else (case reader_read sz r1 of None \<Rightarrow> (no_buffer_space, old, r1)
                | Some (bs, r2) \<Rightarrow> (sp_ok, V_str bs, r2)))"

text \<open>The element loop of a container: stop at the first error.\<close>

primrec read_seq :: "(bytes \<Rightarrow> sp_read) \<Rightarrow> nat \<Rightarrow> bytes \<Rightarrow> sp_errc \<times> cval list \<times> bytes" where
  "read_seq d 0 r = (sp_ok, [], r)"
| "read_seq d (Suc n) r =
     (case d r of (c, v, r1) \<Rightarrow>
        if c \<noteq> sp_ok then (c, [v], r1)
        else (case read_seq d n r1 of (c', vs, r2) \<Rightarrow> (c', v # vs, r2)))"

lemma read_seq_cong [fundef_cong]:
  "n = n' \<Longrightarrow> r = r' \<Longrightarrow> (\<And>x. d x = d' x) \<Longrightarrow> read_seq d n r = read_seq d' n' r'"
proof -
  assume "n = n'" "r = r'" "\<And>x. d x = d' x"
  moreover from \<open>\<And>x. d x = d' x\<close> have "d = d'" by blast
  ultimately show ?thesis by simp
qed

text \<open>
  The loop of an ordered container: the element is read into \<open>value\<close> and moved into the tree, \<open>mv\<close> being what
  the move leaves. The loop over the elements of an array reads into the elements that are there.
\<close>

primrec read_tree ::
  "(cval \<Rightarrow> bytes \<Rightarrow> sp_read) \<Rightarrow> (cval \<Rightarrow> cval) \<Rightarrow> (cval \<Rightarrow> cval) \<Rightarrow> nat \<Rightarrow> cval \<Rightarrow> cval list \<Rightarrow> bytes
     \<Rightarrow> sp_errc \<times> cval list \<times> bytes"
where
  "read_tree d mv key 0 value items r = (sp_ok, items, r)"
| "read_tree d mv key (Suc n) value items r =
     (case d value r of (c, v, r1) \<Rightarrow>
        if c \<noteq> sp_ok then (c, items, r1)
        else read_tree d mv key n (mv v) (tree_emplace key v items) r1)"

primrec read_into :: "(cval \<Rightarrow> bytes \<Rightarrow> sp_read) \<Rightarrow> cval list \<Rightarrow> bytes \<Rightarrow> sp_errc \<times> cval list \<times> bytes" where
  "read_into d [] r = (sp_ok, [], r)"
| "read_into d (old # olds) r =
     (case d old r of (c, v, r1) \<Rightarrow>
        if c \<noteq> sp_ok then (c, v # olds, r1)
        else (case read_into d olds r1 of (c', vs, r2) \<Rightarrow> (c', v # vs, r2)))"

lemma read_tree_cong [fundef_cong]:
  "mv = mv' \<Longrightarrow> key = key' \<Longrightarrow> n = n' \<Longrightarrow> v = v' \<Longrightarrow> items = items' \<Longrightarrow> r = r' \<Longrightarrow> (\<And>w x. d w x = d' w x) \<Longrightarrow>
     read_tree d mv key n v items r = read_tree d' mv' key' n' v' items' r'"
  and read_into_cong [fundef_cong]:
  "items = items' \<Longrightarrow> r = r' \<Longrightarrow> (\<And>w x. d w x = d' w x) \<Longrightarrow> read_into d items r = read_into d' items' r'"
  by presburger+

definition elements :: "cval \<Rightarrow> cval list" where
  "elements v = (case v of V_seq vs \<Rightarrow> vs | _ \<Rightarrow> [])"

text \<open>\<open>trivially_copyable_container\<close> on vectors: contiguous, of trivially serialisable elements.\<close>

fun bulk_element :: "ctype \<Rightarrow> bool" where
  "bulk_element T_char = True"
| "bulk_element (T_int _ _) = True"
| "bulk_element (T_enum _ _) = True"
| "bulk_element (T_struct ts) = all_trivial ts"
| "bulk_element (T_array t _) = is_trivial_serializable t"
| "bulk_element _ = False"

fun deserialize_one :: "nat \<Rightarrow> ctype \<Rightarrow> cval \<Rightarrow> bytes \<Rightarrow> sp_read"
  and deserialize_many :: "nat \<Rightarrow> ctype list \<Rightarrow> cval list \<Rightarrow> bytes \<Rightarrow> sp_errc \<times> cval list \<times> bytes"
where
  "deserialize_one code (T_vector t) old r =
     (case read_size code r of None \<Rightarrow> (no_buffer_space, old, r)
      | Some (sz, r1) \<Rightarrow>
          if sz = 0 then (sp_ok, old, r1)
          else if bulk_element t \<and> length r1 < sz * object_size t then (no_buffer_space, old, r1)
          else (case read_seq (deserialize_one code t (default_val t)) sz r1 of
                  (c, vs, r2) \<Rightarrow> (c, V_seq vs, r2)))"
| "deserialize_one code (T_set t) old r =
     (case read_size code r of None \<Rightarrow> (no_buffer_space, old, r)
      | Some (sz, r1) \<Rightarrow>
          if sz = 0 then (sp_ok, old, r1)
          else (case read_tree (deserialize_one code t) (moved_from t) (\<lambda>v. v) sz (default_val t) [] r1 of
                  (c, vs, r2) \<Rightarrow> (c, V_seq vs, r2)))"
| "deserialize_one code (T_map t) old r =
     (case read_size code r of None \<Rightarrow> (no_buffer_space, old, r)
      | Some (sz, r1) \<Rightarrow>
          if sz = 0 then (sp_ok, old, r1)
          else (case read_tree (deserialize_one code t) (moved_from t) entry_key sz (default_val t) (elements old) r1 of
                  (c, vs, r2) \<Rightarrow> (c, V_seq vs, r2)))"
| "deserialize_one code (T_array t n) old r =
     (if is_trivial_serializable t \<and> length r < object_size (T_array t n) then (no_buffer_space, old, r)
      else case read_into (deserialize_one code t) (elements old) r of (c, vs, r1) \<Rightarrow> (c, V_seq vs, r1))"
| "deserialize_one code (T_optional t) old r =
     (case reader_read 1 r of None \<Rightarrow> (no_buffer_space, old, r)
      | Some (bs, r1) \<Rightarrow>
          if hd bs = 0 then (sp_ok, old, r1)
          else (case deserialize_one code t (default_val t) r1 of (_, v, r2) \<Rightarrow> (sp_ok, V_opt (Some v), r2)))"
| "deserialize_one code (T_unique_ptr t) old r =
     (case reader_read 1 r of None \<Rightarrow> (no_buffer_space, old, r)
      | Some (bs, r1) \<Rightarrow>
          if hd bs = 0 then (sp_ok, old, r1)
          else (case deserialize_one code t (default_val t) r1 of (_, v, r2) \<Rightarrow> (sp_ok, V_opt (Some v), r2)))"
| "deserialize_one code (T_variant ts) old r =
     (case reader_read 1 r of None \<Rightarrow> (no_buffer_space, old, r)
      | Some (bs, r1) \<Rightarrow>
          let index = unat (hd bs) in
          if index < length ts
          then (case deserialize_one code (ts ! index) (default_val (ts ! index)) r1 of
                  (_, v, r2) \<Rightarrow> (sp_ok, V_alt index v, r2))
          else (invalid_buffer, old, r1))"
| "deserialize_one code (T_tuple ts) old r =
     (case deserialize_many code ts (elements old) r of (c, vs, r1) \<Rightarrow> (c, V_seq vs, r1))"
| "deserialize_one code (T_struct ts) old r =
     (if all_trivial ts \<and> length r < object_size (T_struct ts) then (no_buffer_space, old, r)
      else case deserialize_many code ts (elements old) r of (c, vs, r1) \<Rightarrow> (c, V_seq vs, r1))"
| "deserialize_one code T_string old r = read_string code old r"
| "deserialize_one code T_string_view old r = read_string code old r"
| "deserialize_one code (T_char_array n) old r =
     (case reader_read n r of None \<Rightarrow> (no_buffer_space, old, r)
      | Some (bs, r1) \<Rightarrow> (sp_ok, V_str bs, r1))"
| "deserialize_one code (T_const t) old r = deserialize_one code t old r"
| "deserialize_one code (T_lref t) old r = deserialize_one code t old r"
| "deserialize_one code (T_rref t) old r = deserialize_one code t old r"
| "deserialize_one code (T_awaitable t) old r = (sp_ok, old, r)"
| "deserialize_one code t old r = read_scalar t old r"
| "deserialize_many code (t # ts) (old # olds) r =
     (case deserialize_one code t old r of (c, v, r1) \<Rightarrow>
        if c \<noteq> sp_ok then (c, v # olds, r1)
        else (case deserialize_many code ts olds r1 of (c', vs, r2) \<Rightarrow> (c', v # vs, r2)))"
| "deserialize_many code _ _ r = (sp_ok, [], r)"

text \<open>\<open>deserialize_metainfo\<close>: the container width code, or the error.\<close>

definition deserialize_metainfo :: "ctype \<Rightarrow> bytes \<Rightarrow> sp_errc + nat \<times> bytes" where
  "deserialize_metainfo t r =
     (case reader_read 4 r of None \<Rightarrow> Inl no_buffer_space
      | Some (hb, r1) \<Rightarrow>
          let current = (of_le_bytes hb :: u32) in
          if current div 2 \<noteq> get_types_code t div 2 then Inl invalid_buffer
          else if current mod 2 = 0 then Inr (0, r1)
          else (case reader_read 1 r1 of None \<Rightarrow> Inl no_buffer_space
                | Some (mb, r2) \<Rightarrow>
                    let metainfo = hd mb;
                        compatible_sz_len = unat (metainfo AND 3);
                        code = unat (drop_bit 3 (metainfo AND 24)) in
                    (case (if compatible_sz_len = 0 then Some r2
                           else map_option snd (reader_read (2 ^ compatible_sz_len) r2)) of
                       None \<Rightarrow> Inl no_buffer_space
                     | Some r3 \<Rightarrow>
                         if metainfo AND 4 \<noteq> 0
                         then (case reader_read (length (get_type_literal t) + 1) r3 of
                                 None \<Rightarrow> Inl no_buffer_space
                               | Some (lit, r4) \<Rightarrow>
                                   if lit \<noteq> get_type_literal t @ [0] then Inl hash_conflict
                                   else Inr (code, r4))
                         else Inr (code, r3))))"

definition sp_deserialize :: "ctype \<Rightarrow> bytes \<Rightarrow> sp_errc + cval" where
  "sp_deserialize t data =
     (case deserialize_metainfo t data of
        Inl e \<Rightarrow> Inl e
      | Inr (code, r) \<Rightarrow>
          (case deserialize_one code t (default_val t) r of (c, v, _) \<Rightarrow> if c \<noteq> sp_ok then Inl c else Inr v))"

section \<open>Padding on the wire\<close>

text \<open>
  An aggregate with padding is written with it: \<open>write_wrapper<sizeof(type)>\<close> copies these bytes, which no
  member sets, where \<open>write_padding\<close> puts zeros on a big-endian host.
\<close>

lemma padding_on_wire:
  "all_trivial ts \<Longrightarrow>
     si_total (calculate_one_size (T_struct ts) v) = sum_list (map object_size ts) + total_padding_size ts"
  by (simp add: object_size_padding del: object_size.simps)

lemma padding_on_wire_example:
  "si_total (calculate_one_size (T_struct [T_int True W8, T_int True W64]) v) = 9 + 7"
  by (simp add: round_up_def)

section \<open>The computed size is the written size\<close>

lemma size_info_plus_sel [simp]:
  "si_total (size_info_plus x y) = si_total x + si_total y"
  "si_size_cnt (size_info_plus x y) = si_size_cnt x + si_size_cnt y"
  "si_max_size (size_info_plus x y) = max (si_max_size x) (si_max_size y)"
  by (simp_all add: size_info_plus_def)

lemma size_info_zero_sel [simp]:
  "si_total size_info_zero = 0" "si_size_cnt size_info_zero = 0" "si_max_size size_info_zero = 0"
  by (simp_all add: size_info_zero_def)

lemma size_info_foldl [simp]:
  "si_total (foldl size_info_plus a xs) = si_total a + sum_list (map si_total xs)"
  "si_size_cnt (foldl size_info_plus a xs) = si_size_cnt a + sum_list (map si_size_cnt xs)"
  by (induction xs arbitrary: a) simp_all

lemma size_info_foldl_max:
  "si_max_size (foldl size_info_plus a xs) < k \<longleftrightarrow>
     si_max_size a < k \<and> (\<forall>x \<in> set xs. si_max_size x < k)"
  by (induction xs arbitrary: a) auto

lemma size_info_foldl_max_0:
  "si_max_size (foldl size_info_plus a xs) = 0 \<longleftrightarrow> si_max_size a = 0 \<and> (\<forall>x \<in> set xs. si_max_size x = 0)"
  using size_info_foldl_max [of a xs 1] by simp

lemma sp_types_nth: "sp_types ts \<Longrightarrow> i < length ts \<Longrightarrow> sp_type (ts ! i)"
  by (induction ts arbitrary: i) (auto simp: nth_Cons split: nat.splits)

lemma any_has_container_nth: "\<not> any_has_container ts \<Longrightarrow> i < length ts \<Longrightarrow> \<not> check_if_has_container (ts ! i)"
  by (induction ts arbitrary: i) (auto simp: nth_Cons split: nat.splits)

lemma key_type_sp_type: "key_type t \<Longrightarrow> sp_type t \<and> reusable t"
  by (cases t rule: key_type.cases) simp_all

lemma length_write_size [simp, wire_simps]: "length (write_size code n) = code_width code"
  by (simp add: write_size_def)

lemma concat_serialized_length:
  assumes "\<And>v. v \<in> set vs \<Longrightarrow>
      length (serialize_one code t v) =
        si_total (calculate_one_size t v) + si_size_cnt (calculate_one_size t v) * code_width code"
  shows "length (concat (map (serialize_one code t) vs)) =
      sum_list (map (si_total \<circ> calculate_one_size t) vs)
        + sum_list (map (si_size_cnt \<circ> calculate_one_size t) vs) * code_width code"
  using assms by (induction vs) (simp_all add: algebra_simps)

text \<open>What is copied as an object has a size of its own and no containers.\<close>

lemma trivial_size:
  "is_trivial_serializable t \<Longrightarrow> sp_type t \<Longrightarrow> has_type t v \<Longrightarrow>
     calculate_one_size t v = size_info_zero\<lparr>si_total := object_size t\<rparr>"
  "all_trivial ts \<Longrightarrow> sp_types ts \<Longrightarrow> has_types ts vs \<Longrightarrow>
     calculate_payload_size ts vs = size_info_zero\<lparr>si_total := sum_list (map object_size ts)\<rparr>"
proof (induction t v and ts vs rule: calculate_one_size_calculate_payload_size.induct)
qed (auto simp: size_info_plus_def size_info_zero_def dest: has_types_length)

lemma length_serialize_one:
  "sp_type t \<Longrightarrow> has_type t v \<Longrightarrow>
     length (serialize_one code t v) =
       si_total (calculate_one_size t v) + si_size_cnt (calculate_one_size t v) * code_width code"
  "sp_types ts \<Longrightarrow> has_types ts vs \<Longrightarrow>
     length (serialize_many code ts vs) =
       si_total (calculate_payload_size ts vs) + si_size_cnt (calculate_payload_size ts vs) * code_width code"
proof (induction code t v and code ts vs rule: serialize_one_serialize_many.induct)
  case (1 code t v)
  then show ?case by (auto split: cval.splits simp: concat_serialized_length algebra_simps)
next
  case (4 code ts v)
  then obtain vs where v: "v = V_seq vs" "has_types ts vs" by (auto split: cval.splits)
  show ?case
  proof (cases "all_trivial ts")
    case True
    then have "calculate_payload_size ts vs = size_info_zero\<lparr>si_total := object_size (T_struct ts)\<rparr>"
      using 4(2) v(2) trivial_size(2) [of ts vs] by (simp add: object_size_padding del: object_size.simps)
    then show ?thesis using 4 v True by (simp del: object_size.simps)
  qed (use 4 v in simp)
next
  case (5 code t n v)
  then obtain vs where v: "v = V_seq vs" "\<forall>x \<in> set vs. has_type t x" "length vs = n" by (auto split: cval.splits)
  have l: "length (concat (map (serialize_one code t) vs)) =
      sum_list (map (si_total \<circ> calculate_one_size t) vs)
        + sum_list (map (si_size_cnt \<circ> calculate_one_size t) vs) * code_width code"
    using 5(1) [OF v(1)] 5(2) v(2) by (intro concat_serialized_length) auto
  show ?case
  proof (cases "is_trivial_serializable t")
    case True
    then have "map (si_total \<circ> calculate_one_size t) vs = replicate n (object_size t)"
      "map (si_size_cnt \<circ> calculate_one_size t) vs = replicate n 0"
      using v 5(2) by (auto simp: trivial_size(1) intro!: nth_equalityI)
    then show ?thesis using l v True by (simp add: sum_list_replicate del: length_concat)
  qed (use l v in \<open>simp del: length_concat\<close>)
next
  case (6 code t v)
  then show ?case
    by (auto split: cval.splits simp: concat_serialized_length key_type_sp_type algebra_simps simp del: length_concat)
next
  case (7 code t v)
  then show ?case
    by (auto split: cval.splits simp: concat_serialized_length algebra_simps simp del: length_concat)
next
  case (9 code ts v)
  then show ?case by (auto split: cval.splits if_splits simp: algebra_simps sp_types_nth)
qed (auto split: cval.splits option.splits list.splits simp: algebra_simps)

lemma no_container_no_sizes:
  "\<not> check_if_has_container t \<Longrightarrow> si_size_cnt (calculate_one_size t v) = 0"
  "\<not> any_has_container ts \<Longrightarrow> si_size_cnt (calculate_payload_size ts vs) = 0"
  by (induction t v and ts vs rule: calculate_one_size_calculate_payload_size.induct)
     (auto split: cval.splits option.splits dest: any_has_container_nth)

lemma no_container_max_size:
  "\<not> check_if_has_container t \<Longrightarrow> si_max_size (calculate_one_size t v) = 0"
  "\<not> any_has_container ts \<Longrightarrow> si_max_size (calculate_payload_size ts vs) = 0"
  by (induction t v and ts vs rule: calculate_one_size_calculate_payload_size.induct)
     (auto split: cval.splits option.splits simp: size_info_foldl_max_0 dest: any_has_container_nth)

text \<open>The hash is even; its lowest bit on the wire says whether meta information follows.\<close>

lemma get_types_code_even: "\<not> bit (get_types_code t) 0"
  by (simp add: get_types_code_def bit_and_iff)

definition hash_head :: "bool \<Rightarrow> nat \<Rightarrow> ctype \<Rightarrow> u32" where
  "hash_head dbg code t = (get_types_code t + (if dbg then 1 else 0)) OR (if code = 0 then 0 else 1)"

lemma hash_head_or: "hash_head dbg code t = get_types_code t OR (if dbg \<or> code \<noteq> 0 then 1 else 0)"
proof -
  have "get_types_code t AND 1 = 0"
    using get_types_code_even [of t] by (simp add: and_one_eq even_iff_mod_2_eq_zero bit_0 odd_iff_mod_2_eq_one)
  then have "get_types_code t + 1 = get_types_code t OR 1"
    by (rule disjunctive_add_eq_or)
  then show ?thesis
    unfolding hash_head_def by (simp add: or.assoc)
qed

lemma hash_head_half: "hash_head dbg code t div 2 = get_types_code t div 2"
proof -
  have "drop_bit 1 (hash_head dbg code t) = drop_bit 1 (get_types_code t)"
    by (rule bit_word_eqI) (auto simp: hash_head_or bit_simps)
  then show ?thesis by (simp add: drop_bit_eq_div)
qed

lemma hash_head_odd: "hash_head dbg code t mod 2 = (if dbg \<or> code \<noteq> 0 then 1 else 0)"
proof -
  have "hash_head dbg code t mod 2 = of_bool (bit (hash_head dbg code t) 0)"
    by (simp add: bit_0 mod_2_eq_odd)
  also have "bit (hash_head dbg code t) 0 = (dbg \<or> code \<noteq> 0)"
    by (simp add: hash_head_or bit_or_iff get_types_code_even)
  finally show ?thesis by simp
qed

lemma serialize_metainfo_hash_head:
  "serialize_metainfo dbg info t =
     le_bytes 4 (hash_head dbg (bs_code info) t)
       @ (if dbg \<or> bs_code info \<noteq> 0
          then bs_metainfo info # (if dbg then get_type_literal t @ [0] else []) else [])"
  by (simp add: serialize_metainfo_def Let_def hash_head_def [symmetric] hash_head_odd)

lemma bs_code_simp: "bs_code (get_serialize_runtime_info dbg t v) =
    (if check_if_has_container t then size_code (si_max_size (calculate_one_size t v)) else 0)"
  and bs_metainfo_simp: "bs_metainfo (get_serialize_runtime_info dbg t v) =
    push_bit 3 (of_nat (bs_code (get_serialize_runtime_info dbg t v))) OR (if dbg then 4 else 0)"
  by (simp_all add: get_serialize_runtime_info_def Let_def)

lemma length_sp_serialize:
  assumes "sp_type t" "has_type t v"
  shows "length (sp_serialize dbg t v) = bs_len (get_serialize_runtime_info dbg t v)"
proof -
  let ?info = "get_serialize_runtime_info dbg t v"
  have "length (serialize_one (bs_code ?info) t v) = si_total (calculate_one_size t v)
      + (if check_if_has_container t then si_size_cnt (calculate_one_size t v) * code_width (bs_code ?info) else 0)"
    using length_serialize_one(1) [OF assms] no_container_no_sizes(1) [of t v] by simp
  then show ?thesis
    by (simp add: sp_serialize_def Let_def serialize_metainfo_hash_head)
       (simp add: get_serialize_runtime_info_def Let_def)
qed

text \<open>
  C27: the number of bytes that serialisation writes is the number of bytes that
  \<open>get_serialize_runtime_info\<close> computes beforehand: the buffer that \<open>serialize\<close> allocates is
  filled exactly, in debug and in release builds, for every value of every supported type.
\<close>

theorem sp_serialize_fills_buffer:
  assumes "sp_type t" "has_type t v"
  shows "length (sp_serialize dbg t v) = bs_len (get_serialize_runtime_info dbg t v)"
  by (rule length_sp_serialize [OF assms])

theorem sp_serialize_fills_buffer_witness:
  "length (sp_serialize True (T_tuple [T_int32, T_string]) (V_seq [V_int 7, V_str [104, 105]]))
     = bs_len (get_serialize_runtime_info True (T_tuple [T_int32, T_string]) (V_seq [V_int 7, V_str [104, 105]]))"
  by (rule sp_serialize_fills_buffer)
     (simp_all add: in_range_def int_min_def int_max_def max_container_def)

section \<open>Round trip\<close>

lemma reader_read_append [simp]: "reader_read n (xs @ ys) = Some (xs, ys)" if "n = length xs"
  using that by (simp add: reader_read_def)

lemma reader_read_Cons [simp]: "reader_read (Suc 0) (x # xs) = Some ([x], xs)"
  by (simp add: reader_read_def)

lemma max_size_bound:
  "has_type t v \<Longrightarrow> si_max_size (calculate_one_size t v) < 2 ^ 63"
  "has_types ts vs \<Longrightarrow> si_max_size (calculate_payload_size ts vs) < 2 ^ 63"
proof (induction t v and ts vs rule: calculate_one_size_calculate_payload_size.induct)
  case (1 t v)
  then show ?case by (auto split: cval.splits simp: size_info_foldl_max max_container_def)
qed (auto split: cval.splits option.splits list.splits simp: size_info_foldl_max max_container_def)

lemma size_code_wide: "n < 2 ^ 63 \<Longrightarrow> n < 2 ^ (8 * code_width (size_code n))"
  by (auto simp: size_code_def code_width_def)

lemma size_code_less: "size_code n < 4"
  by (simp add: size_code_def)

lemma read_size_write_size [simp]:
  assumes "n < 2 ^ (8 * code_width code)" "n < 2 ^ 64"
  shows "read_size code (write_size code n @ r) = Some (n, r)"
proof -
  have "take_bit (8 * code_width code) (of_nat n :: u64) = of_nat n"
    using assms(1) by (simp add: take_bit_of_nat take_bit_nat_eq_self)
  then have "(of_le_bytes (write_size code n) :: u64) = of_nat n"
    by (simp add: write_size_def of_le_bytes_take_bit)
  then show ?thesis using assms(2)
    by (simp add: read_size_def unat_of_nat_small)
qed

text \<open>Two's complement: the object representation determines the value.\<close>

lemma int_of_bytes_le_bytes:
  assumes "0 < k" "k \<le> 8"
    and "if s then - (2 ^ (8 * k - 1)) \<le> i \<and> i < 2 ^ (8 * k - 1) else 0 \<le> i \<and> i < 2 ^ (8 * k)"
  shows "int_of_bytes s (le_bytes k (word_of_int i :: u64)) = i"
proof -
  have k: "8 * k \<le> 64" and k2: "(2 :: int) ^ (8 * k) = 2 * 2 ^ (8 * k - 1)"
    using assms by (simp_all flip: power_Suc)
  have u: "uint (of_le_bytes (le_bytes k (word_of_int i :: u64)) :: u64) = i mod 2 ^ (8 * k)"
  proof -
    have "min (8 * k) LENGTH(64) = 8 * k" using k by simp
    then show ?thesis
      unfolding of_le_bytes_take_bit unsigned_take_bit_eq uint_word_of_int_eq take_bit_take_bit
      by (simp add: take_bit_eq_mod)
  qed
  show ?thesis
  proof (cases "0 \<le> i")
    case True
    then have "i mod 2 ^ (8 * k) = i" using assms(3) k2 by (auto intro!: mod_pos_pos_trivial split: if_splits)
    then show ?thesis using u assms True by (auto simp: int_of_bytes_def Let_def)
  next
    case False
    then have s: "s" and lo: "- (2 ^ (8 * k - 1)) \<le> i" using assms(3) by (auto split: if_splits)
    have "i mod 2 ^ (8 * k) = (i + 2 ^ (8 * k)) mod 2 ^ (8 * k)" by simp
    also have "\<dots> = i + 2 ^ (8 * k)"
      using False lo k2 by (intro mod_pos_pos_trivial) auto
    finally show ?thesis using u s lo k2 by (auto simp: int_of_bytes_def Let_def)
  qed
qed

lemma read_scalar_write:
  assumes "0 < scalar_size t" "scalar_size t \<le> 8"
    and "if scalar_signed t then - (2 ^ (8 * scalar_size t - 1)) \<le> i \<and> i < 2 ^ (8 * scalar_size t - 1)
         else 0 \<le> i \<and> i < 2 ^ (8 * scalar_size t)"
  shows "read_scalar t old (le_bytes (scalar_size t) (word_of_int i :: u64) @ r) = (sp_ok, V_int i, r)"
  using int_of_bytes_le_bytes [OF assms] by (simp add: read_scalar_def)

lemma read_scalar_int [simp]:
  "in_range s w i \<Longrightarrow>
     read_scalar (T_int s w) old (le_bytes (width_bytes w) (word_of_int i :: u64) @ r) = (sp_ok, V_int i, r)"
  "in_range s w i \<Longrightarrow>
     read_scalar (T_enum s w) old (le_bytes (width_bytes w) (word_of_int i :: u64) @ r) = (sp_ok, V_int i, r)"
  "in_range True W8 i \<Longrightarrow>
     read_scalar T_char old (le_bytes (Suc 0) (word_of_int i :: u64) @ r) = (sp_ok, V_int i, r)"
  "i = 0 \<or> i = 1 \<Longrightarrow>
     read_scalar T_bool old (le_bytes (Suc 0) (word_of_int i :: u64) @ r) = (sp_ok, V_int i, r)"
  using read_scalar_write [of "T_int s w" i old r] read_scalar_write [of "T_enum s w" i old r]
    read_scalar_write [of "T_char" i old r] read_scalar_write [of "T_bool" i old r]
  by (cases s; auto simp: in_range_signed in_range_unsigned)+

lemmas read_scalar_int_01 =
  read_scalar_int(4) [of 0, simplified] read_scalar_int(4) [of 1, simplified]

lemma read_seq_concat:
  assumes "\<And>v r. v \<in> set vs \<Longrightarrow> d (f v @ r) = (sp_ok, v, r)"
  shows "read_seq d (length vs) (concat (map f vs) @ r) = (sp_ok, vs, r)"
  using assms by (induction vs) auto

lemma length_serialize_trivial:
  assumes "is_trivial_serializable t" "sp_type t" "has_type t v"
  shows "length (serialize_one code t v) = object_size t"
  using length_serialize_one(1) [OF assms(2, 3)] trivial_size(1) [OF assms] by simp

lemma bulk_element_trivial: "bulk_element t \<Longrightarrow> is_trivial_serializable t"
  by (cases t rule: bulk_element.cases) simp_all

lemma trivial_elements_length:
  assumes "is_trivial_serializable t" "sp_type t" "\<forall>v \<in> set vs. has_type t v"
  shows "length (concat (map (serialize_one code t) vs)) = length vs * object_size t"
  using assms(3) by (induction vs) (simp_all add: length_serialize_trivial assms(1, 2))

lemmas bulk_element_length = trivial_elements_length [OF bulk_element_trivial]

text \<open>
  What an object must be for a value to be read into it from its image: the types that keep what they have
  when the image says empty must be empty.
\<close>

fun fresh :: "ctype \<Rightarrow> cval \<Rightarrow> bool"
  and all_fresh :: "ctype list \<Rightarrow> cval list \<Rightarrow> bool"
where
  "fresh T_string v = (v = V_str [])"
| "fresh T_string_view v = (v = V_str [])"
| "fresh (T_vector _) v = (v = V_seq [])"
| "fresh (T_set _) v = (v = V_seq [])"
| "fresh (T_map _) v = (v = V_seq [])"
| "fresh (T_optional _) v = (v = V_opt None)"
| "fresh (T_unique_ptr _) v = (v = V_opt None)"
| "fresh (T_array t n) v = (case v of V_seq vs \<Rightarrow> length vs = n \<and> (\<forall>x \<in> set vs. fresh t x) | _ \<Rightarrow> False)"
| "fresh (T_tuple ts) v = (case v of V_seq vs \<Rightarrow> all_fresh ts vs | _ \<Rightarrow> False)"
| "fresh (T_struct ts) v = (case v of V_seq vs \<Rightarrow> all_fresh ts vs | _ \<Rightarrow> False)"
| "fresh (T_const t) v = fresh t v"
| "fresh (T_lref t) v = fresh t v"
| "fresh (T_rref t) v = fresh t v"
| "fresh _ v = True"
| "all_fresh [] vs = (vs = [])"
| "all_fresh (t # ts) vs = (case vs of [] \<Rightarrow> False | v # vs' \<Rightarrow> fresh t v \<and> all_fresh ts vs')"

lemma fresh_default_val:
  "fresh t (default_val t) \<or> \<not> sp_type t" "all_fresh ts (default_vals ts) \<or> \<not> sp_types ts"
  by (induction t and ts rule: sp_type_sp_types.induct) auto

lemma fresh_moved_from:
  "has_type t v \<Longrightarrow> reusable t \<Longrightarrow> fresh t (moved_from t v)"
  "has_types ts vs \<Longrightarrow> all_reusable ts \<Longrightarrow> all_fresh ts (moved_from_all ts vs)"
  by (induction t v and ts vs rule: moved_from_moved_from_all.induct) (auto split: cval.splits list.splits)

lemma map_entry_reusable: "map_entry_type t \<Longrightarrow> reusable t"
  by (auto simp: map_entry_type_def key_type_sp_type split: ctype.splits list.splits)

lemma elements_simp [simp]: "elements (V_seq vs) = vs"
  by (simp add: elements_def)

text \<open>Reading the elements in their order builds the tree that was written.\<close>

lemma read_tree_concat:
  assumes "\<And>v old r. v \<in> set vs \<Longrightarrow> fresh t old \<Longrightarrow> d old (f v @ r) = (sp_ok, v, r)"
    and "\<And>v. v \<in> set vs \<Longrightarrow> fresh t (mv v)" "fresh t old"
    and "sorted_wrt cval_less (map key (items @ vs))"
  shows "read_tree d mv key (length vs) old items (concat (map f vs) @ r) = (sp_ok, items @ vs, r)"
  using assms
proof (induction vs arbitrary: items old)
  case (Cons v vs)
  have "tree_emplace key v items = items @ [v]"
    using Cons.prems(4) by (intro tree_emplace_last) (auto simp: sorted_wrt_append)
  then show ?case
    using Cons.prems by (simp add: Cons.IH)
qed simp

lemma read_into_concat:
  assumes "\<And>v old r. v \<in> set vs \<Longrightarrow> fresh t old \<Longrightarrow> d old (f v @ r) = (sp_ok, v, r)"
    and "length olds = length vs" "\<forall>x \<in> set olds. fresh t x"
  shows "read_into d olds (concat (map f vs) @ r) = (sp_ok, vs, r)"
  using assms(2, 1, 3) by (induction olds vs rule: list_induct2) auto

lemma deserialize_one_serialize_one:
  "sp_type t \<Longrightarrow> has_type t v \<Longrightarrow> si_max_size (calculate_one_size t v) < 2 ^ (8 * code_width code) \<Longrightarrow> fresh t old \<Longrightarrow>
     deserialize_one code t old (serialize_one code t v @ r) = (sp_ok, v, r)"
  "sp_types ts \<Longrightarrow> has_types ts vs \<Longrightarrow>
     si_max_size (calculate_payload_size ts vs) < 2 ^ (8 * code_width code) \<Longrightarrow> all_fresh ts olds \<Longrightarrow>
     deserialize_many code ts olds (serialize_many code ts vs @ r) = (sp_ok, vs, r)"
proof (induction code t v and code ts vs arbitrary: old r and olds r rule: serialize_one_serialize_many.induct)
  case (1 code t v)
  then obtain vs where v: "v = V_seq vs" "\<forall>x \<in> set vs. has_type t x" "length vs \<le> max_container"
    by (auto split: cval.splits)
  have small: "length vs < 2 ^ (8 * code_width code)" "length vs < 2 ^ 64"
    and elems: "\<forall>x \<in> set vs. si_max_size (calculate_one_size t x) < 2 ^ (8 * code_width code)"
    using 1 v by (auto simp: size_info_foldl_max max_container_def)
  have seq: "read_seq (deserialize_one code t (default_val t)) (length vs) (concat (map (serialize_one code t) vs) @ r)
      = (sp_ok, vs, r)"
    by (rule read_seq_concat) (use 1 v elems fresh_default_val(1) [of t] in auto)
  have "bulk_element t \<Longrightarrow> length (concat (map (serialize_one code t) vs)) = length vs * object_size t"
    using bulk_element_length [of t vs code] v 1(2) by simp
  then show ?case
    using v small seq 1(5) by (auto simp: append_assoc simp del: length_concat)
next
  case (4 code ts v)
  then obtain vs where v: "v = V_seq vs" "has_types ts vs" by (auto split: cval.splits)
  have len: "all_trivial ts \<Longrightarrow> length (serialize_many code ts vs) = object_size (T_struct ts)"
    using length_serialize_trivial [of "T_struct ts" v code] 4(2, 3) v(1) by (simp del: object_size.simps)
  have "deserialize_many code ts (elements old) (serialize_many code ts vs @ r) = (sp_ok, vs, r)"
  proof (rule 4(1) [OF v(1)])
    show "sp_types ts" "has_types ts vs" using 4(2) v(2) by simp_all
    show "si_max_size (calculate_payload_size ts vs) < 2 ^ (8 * code_width code)"
      using 4(4) v trivial_size(2) [of ts vs] 4(2) by (cases "all_trivial ts") simp_all
    show "all_fresh ts (elements old)" using 4(5) by (auto split: cval.splits)
  qed
  then show ?case using len v(1) by (simp del: object_size.simps)
next
  case (5 code t n v)
  then obtain vs where v: "v = V_seq vs" "\<forall>x \<in> set vs. has_type t x" "length vs = n" by (auto split: cval.splits)
  have elems: "\<forall>x \<in> set vs. si_max_size (calculate_one_size t x) < 2 ^ (8 * code_width code)"
    using 5 v by (cases "is_trivial_serializable t") (auto simp: size_info_foldl_max trivial_size(1))
  have "read_into (deserialize_one code t) (elements old) (concat (map (serialize_one code t) vs) @ r) = (sp_ok, vs, r)"
    by (rule read_into_concat [where t = t]) (use 5 v elems in \<open>auto split: cval.splits\<close>)
  moreover have "is_trivial_serializable t \<Longrightarrow> length (concat (map (serialize_one code t) vs)) = length vs * object_size t"
    using trivial_elements_length [of t vs code] v 5(2) by simp
  ultimately show ?case using v by (auto simp del: length_concat)
next
  case (6 code t v)
  then obtain vs where v: "v = V_seq vs" "\<forall>x \<in> set vs. has_type t x" "length vs \<le> max_container" "sorted_wrt cval_less vs"
    by (auto split: cval.splits)
  have small: "length vs < 2 ^ (8 * code_width code)" "length vs < 2 ^ 64"
    and elems: "\<forall>x \<in> set vs. si_max_size (calculate_one_size t x) < 2 ^ (8 * code_width code)"
    using 6 v by (auto simp: size_info_foldl_max max_container_def)
  have k: "sp_type t" "reusable t" using key_type_sp_type [of t] 6(2) by simp_all
  have "read_tree (deserialize_one code t) (moved_from t) (\<lambda>v. v) (length vs) (default_val t) []
      (concat (map (serialize_one code t) vs) @ r) = (sp_ok, [] @ vs, r)"
    by (rule read_tree_concat [where t = t])
       (use 6(1, 5) v elems k fresh_default_val(1) [of t] in \<open>auto intro: fresh_moved_from\<close>)
  then show ?case using v small 6(5) by (cases vs) auto
next
  case (7 code t v)
  then obtain vs where v: "v = V_seq vs" "\<forall>x \<in> set vs. has_type t x" "length vs \<le> max_container"
      "sorted_wrt cval_less (map entry_key vs)"
    by (auto split: cval.splits)
  have small: "length vs < 2 ^ (8 * code_width code)" "length vs < 2 ^ 64"
    and elems: "\<forall>x \<in> set vs. si_max_size (calculate_one_size t x) < 2 ^ (8 * code_width code)"
    using 7 v by (auto simp: size_info_foldl_max max_container_def)
  have k: "sp_type t" "reusable t" using map_entry_reusable [of t] 7(2) by simp_all
  have "read_tree (deserialize_one code t) (moved_from t) entry_key (length vs) (default_val t) []
      (concat (map (serialize_one code t) vs) @ r) = (sp_ok, [] @ vs, r)"
    by (rule read_tree_concat [where t = t])
       (use 7(1, 5) v elems k fresh_default_val(1) [of t] in \<open>auto intro: fresh_moved_from\<close>)
  then show ?case using v small 7(5) by (cases vs) auto
next
  case (8 code t v)
  then show ?case using fresh_default_val(1) [of t] by (auto split: cval.splits option.splits)
next
  case (2 code t v)
  then show ?case using fresh_default_val(1) [of t] by (auto split: cval.splits option.splits)
next
  case (9 code ts v)
  then obtain i x where v: "v = V_alt i x" "i < length ts" "has_type (ts ! i) x"
    by (auto split: cval.splits if_splits)
  have t: "sp_type (ts ! i)" using sp_types_nth [of ts i] 9(2) v(2) by simp
  have "unat (of_nat i :: u8) = i" using 9(2) v(2) by (intro unat_of_nat_small) simp
  moreover have "deserialize_one code (ts ! i) (default_val (ts ! i)) (serialize_one code (ts ! i) x @ r) = (sp_ok, x, r)"
    using 9(1) [OF v(1, 2) t v(3)] 9(4) v(1, 2) t fresh_default_val(1) [of "ts ! i"] by simp
  ultimately show ?case using v by (simp add: Let_def)
qed (auto split: cval.splits option.splits list.splits
       simp: read_string_def max_container_def read_scalar_int_01 dest: has_types_length)

text \<open>Meta information that was written is read back as the width code.\<close>

lemma metainfo_bits:
  assumes "c < 4"
  shows "(push_bit 3 (of_nat c) OR (if dbg then 4 else 0) :: u8) AND 3 = 0"
    and "unat (drop_bit 3 ((push_bit 3 (of_nat c) OR (if dbg then 4 else 0) :: u8) AND 24)) = c"
    and "(push_bit 3 (of_nat c) OR (if dbg then 4 else 0) :: u8) AND 4 = (if dbg then 4 else 0)"
proof -
  have "c = 0 \<or> c = 1 \<or> c = 2 \<or> c = 3" using assms by linarith
  then show "(push_bit 3 (of_nat c) OR (if dbg then 4 else 0) :: u8) AND 3 = 0"
    and "unat (drop_bit 3 ((push_bit 3 (of_nat c) OR (if dbg then 4 else 0) :: u8) AND 24)) = c"
    and "(push_bit 3 (of_nat c) OR (if dbg then 4 else 0) :: u8) AND 4 = (if dbg then 4 else 0)"
    by (auto split: if_splits)
qed

lemma deserialize_metainfo_serialize:
  assumes "bs_code info < 4"
    and "bs_metainfo info = push_bit 3 (of_nat (bs_code info)) OR (if dbg then 4 else 0)"
  shows "deserialize_metainfo t (serialize_metainfo dbg info t @ r) = Inr (bs_code info, r)"
proof -
  have hd: "(of_le_bytes (le_bytes 4 (hash_head dbg (bs_code info) t)) :: u32) = hash_head dbg (bs_code info) t"
    by simp
  have [simp]: "reader_read (Suc (length (get_type_literal t))) (get_type_literal t @ 0 # r)
      = Some (get_type_literal t @ [0], r)"
    using reader_read_append [of "Suc (length (get_type_literal t))" "get_type_literal t @ [0]" r] by simp
  show ?thesis
    using metainfo_bits [OF assms(1), of True] metainfo_bits [OF assms(1), of False]
    by (cases dbg; simp add: deserialize_metainfo_def serialize_metainfo_hash_head Let_def hd hash_head_half
        hash_head_odd assms(2))
qed

lemma sp_deserialize_sp_serialize:
  assumes "sp_type t" "has_type t v"
  shows "sp_deserialize t (sp_serialize dbg t v @ r) = Inr v"
proof -
  let ?info = "get_serialize_runtime_info dbg t v"
  let ?max = "si_max_size (calculate_one_size t v)"
  have code: "bs_code ?info < 4" by (simp add: bs_code_simp size_code_less)
  have "?max < 2 ^ (8 * code_width (bs_code ?info))"
    using size_code_wide [OF max_size_bound(1) [OF assms(2)]] no_container_max_size(1) [of t v]
    by (auto simp: bs_code_simp)
  then show ?thesis
    using deserialize_one_serialize_one(1) [OF assms] deserialize_metainfo_serialize [OF code]
      fresh_default_val(1) [of t] assms(1)
    by (simp add: sp_deserialize_def sp_serialize_def Let_def bs_metainfo_simp)
qed

text \<open>An image of another type is refused, unless the hashes of the two types collide.\<close>

lemma get_types_code_half: "get_types_code t div 2 = get_types_code t' div 2 \<Longrightarrow> get_types_code t = get_types_code t'"
  using hash_head_half [of False 0 t] get_types_code_even [of t] get_types_code_even [of t']
  by (metis (no_types, lifting) bit_0 even_iff_mod_2_eq_zero mult_div_mod_eq)

lemma sp_deserialize_other_type:
  assumes "get_types_code t \<noteq> get_types_code t'"
  shows "sp_deserialize t (sp_serialize dbg t' v @ r) = Inl invalid_buffer"
proof -
  let ?info = "get_serialize_runtime_info dbg t' v"
  obtain rest where "sp_serialize dbg t' v @ r = le_bytes 4 (hash_head dbg (bs_code ?info) t') @ rest"
    by (simp add: sp_serialize_def serialize_metainfo_hash_head Let_def)
  moreover have "reader_read 4 (le_bytes 4 (hash_head dbg (bs_code ?info) t') @ rest)
      = Some (le_bytes 4 (hash_head dbg (bs_code ?info) t'), rest)"
    by (rule reader_read_append) simp
  ultimately show ?thesis using assms get_types_code_half [of t' t]
    by (simp add: sp_deserialize_def deserialize_metainfo_def Let_def hash_head_half) metis
qed

interpretation sp: self_delimiting_codec "\<lambda>t v. sp_type t \<and> has_type t v" "sp_serialize dbg" sp_deserialize
  for dbg
  by unfold_locales (simp add: sp_deserialize_sp_serialize)

text \<open>
  C14: deserialising what serialisation wrote gives back the value, whatever follows it in the
  buffer, in debug and in release builds, for every value of every supported type.
\<close>

theorem struct_pack_roundtrip:
  assumes "sp_type t" "has_type t v"
  shows "sp_deserialize t (sp_serialize dbg t v @ r) = Inr v"
  using assms by (intro sp.unpack_pack_append) simp

theorem struct_pack_roundtrip_witness:
  "sp_deserialize (T_tuple [T_int32, T_optional (T_vector T_int32), T_struct [T_int32, T_int32], T_array T_string 2,
       T_map (T_pair T_int32 T_string), T_variant [T_string, T_unique_ptr T_int32]])
     (sp_serialize False (T_tuple [T_int32, T_optional (T_vector T_int32), T_struct [T_int32, T_int32], T_array T_string 2,
         T_map (T_pair T_int32 T_string), T_variant [T_string, T_unique_ptr T_int32]])
        (V_seq [V_int (- 7), V_opt (Some (V_seq [V_int 1, V_int 2])), V_seq [V_int 3, V_int 4],
           V_seq [V_str [104], V_str []], V_seq [V_seq [V_int (- 1), V_str [105]], V_seq [V_int 6, V_str []]],
           V_alt 1 (V_opt (Some (V_int 9)))]) @ [])
   = Inr (V_seq [V_int (- 7), V_opt (Some (V_seq [V_int 1, V_int 2])), V_seq [V_int 3, V_int 4],
       V_seq [V_str [104], V_str []], V_seq [V_seq [V_int (- 1), V_str [105]], V_seq [V_int 6, V_str []]],
       V_alt 1 (V_opt (Some (V_int 9)))])"
  by (rule struct_pack_roundtrip)
     (simp_all add: in_range_def int_min_def int_max_def max_container_def total_padding_size_def calculate_padding_size_def
        map_entry_type_def)

text \<open>
  The error of reading the value inside an optional is dropped: an image of an engaged
  optional integer that was cut off after the flag byte deserialises successfully, to the
  value-initialised integer.
\<close>

theorem optional_drops_inner_error:
  "sp_deserialize (T_optional (T_int s w)) (le_bytes 4 (get_types_code (T_optional (T_int s w))) @ [1])
     = Inr (V_opt (Some (V_int 0)))"
proof -
  have "get_types_code (T_optional (T_int s w)) mod 2 = 0"
    using hash_head_odd [of False 0 "T_optional (T_int s w)"] by (simp add: hash_head_or)
  then show ?thesis
    by (simp add: sp_deserialize_def deserialize_metainfo_def Let_def reader_read_def
        read_scalar_def deserialize_one.simps)
qed

text \<open>The same for the value inside a variant; an index without an alternative is refused.\<close>

lemma deserialize_variant:
  "deserialize_one code (T_variant [T_int s w]) old [0] = (sp_ok, V_alt 0 (V_int 0), [])"
  "length ts \<le> unat b \<Longrightarrow> deserialize_one code (T_variant ts) old (b # r) = (invalid_buffer, old, r)"
  by (simp_all add: read_scalar_def reader_read_def Let_def split: option.splits)

text \<open>
  The entries of a map are read into one object, which is moved into the tree after each. An optional that is
  empty on the wire leaves the object as the move left it, and an optional that was moved from is engaged: the
  second entry of this map comes back with the value of the first.
\<close>

definition stale_map :: "cval option \<Rightarrow> cval" where
  "stale_map second = V_seq [V_seq [V_int 1, V_opt (Some (V_int 5))], V_seq [V_int 2, V_opt second]]"

theorem map_entry_keeps_optional:
  "has_type (T_map (T_pair T_int32 (T_optional T_int32))) (stale_map None)"
  "sp_deserialize (T_map (T_pair T_int32 (T_optional T_int32)))
     (sp_serialize dbg (T_map (T_pair T_int32 (T_optional T_int32))) (stale_map None) @ r)
   = Inr (stale_map (Some (V_int 5)))"
proof -
  let ?t = "T_map (T_pair T_int32 (T_optional T_int32))"
  let ?info = "get_serialize_runtime_info dbg ?t (stale_map None)"
  show "has_type ?t (stale_map None)"
    by (simp add: stale_map_def in_range_def int_min_def int_max_def max_container_def)
  have code: "bs_code ?info = 0"
    by (simp add: bs_code_simp stale_map_def size_code_def size_info_plus_def size_info_zero_def)
  have m: "deserialize_metainfo ?t (serialize_metainfo dbg ?info ?t @ x) = Inr (0, x)" for x
    using deserialize_metainfo_serialize [of ?info dbg ?t x] code bs_metainfo_simp [of dbg ?t "stale_map None"] by simp
  have scalar: "read_scalar T_int32 old (le_bytes 4 (word_of_int i :: u64) @ x) = (sp_ok, V_int i, x)"
    if "i = 1 \<or> i = 2 \<or> i = 5" for i old x
    using read_scalar_int(1) [of True W32 i old x] that by (auto simp: in_range_def int_min_def int_max_def)
  have "deserialize_one 0 ?t (V_seq []) (serialize_one 0 ?t (stale_map None) @ r) = (sp_ok, stale_map (Some (V_int 5)), r)"
    using scalar [of 1] scalar [of 2] scalar [of 5]
    by (simp add: stale_map_def code_width_def)
  then show "sp_deserialize ?t (sp_serialize dbg ?t (stale_map None) @ r) = Inr (stale_map (Some (V_int 5)))"
    by (simp add: sp_deserialize_def sp_serialize_def Let_def code m del: deserialize_one.simps serialize_one.simps)
qed

end
