(* ===== verification/Struct_Pack_Typed.thy ===== *)
theory Struct_Pack_Typed
  imports Struct_Pack
begin

text \<open>
  What \<open>deserialize\<close> of struct_pack guarantees of bytes that anyone may have sent: the value it yields is a value
  of the expected type. The proof follows the readers, one lemma for each, from the bounds of integers to the
  loops over vectors, arrays and ordered containers.
\<close>

section \<open>What an accepted image guarantees\<close>

text \<open>A byte other than 0 and 1 read into a \<open>bool\<close> is not a value of the type.\<close>

fun no_bool :: "ctype \<Rightarrow> bool"
  and no_bools :: "ctype list \<Rightarrow> bool"
where
  "no_bool T_bool = False"
| "no_bool (T_vector t) = no_bool t"
| "no_bool (T_optional t) = no_bool t"
| "no_bool (T_array t _) = no_bool t"
| "no_bool (T_set t) = no_bool t"
| "no_bool (T_map t) = no_bool t"
| "no_bool (T_unique_ptr t) = no_bool t"
| "no_bool (T_variant ts) = no_bools ts"
| "no_bool (T_tuple ts) = no_bools ts"
| "no_bool (T_struct ts) = no_bools ts"
| "no_bool (T_const t) = no_bool t"
| "no_bool (T_lref t) = no_bool t"
| "no_bool (T_rref t) = no_bool t"
| "no_bool (T_awaitable t) = no_bool t"
| "no_bool _ = True"
| "no_bools [] = True"
| "no_bools (t # ts) = (no_bool t \<and> no_bools ts)"

lemma reader_read_Some:
  "reader_read n r = Some (bs, r') \<longleftrightarrow> n \<le> length r \<and> bs = take n r \<and> r' = drop n r"
  by (auto simp: reader_read_def)

lemma uint_of_le_bytes_bound:
  assumes "length bs \<le> 8"
  shows "uint (of_le_bytes bs :: u64) < 2 ^ (8 * length bs)"
proof -
  have "(of_le_bytes bs :: u64) = take_bit (8 * length bs) (of_le_bytes bs)"
    using of_le_bytes_take_bit [of "length bs" "of_le_bytes bs :: u64"] le_bytes_of_le_bytes [of bs, where 'a = 64]
      assms by simp
  then have "uint (of_le_bytes bs :: u64) = take_bit (8 * length bs) (uint (of_le_bytes bs :: u64))"
    by (metis unsigned_take_bit_eq)
  then show ?thesis by (metis take_bit_int_less_exp)
qed

lemma int_of_bytes_range:
  assumes "0 < length bs" "length bs \<le> 8"
  shows "if s then - (2 ^ (8 * length bs - 1)) \<le> int_of_bytes s bs \<and> int_of_bytes s bs < 2 ^ (8 * length bs - 1)
         else 0 \<le> int_of_bytes s bs \<and> int_of_bytes s bs < 2 ^ (8 * length bs)"
proof -
  define h u where "h = (2 :: int) ^ (8 * length bs - 1)" and "u = uint (of_le_bytes bs :: u64)"
  have full: "(2 :: int) ^ (8 * length bs) = 2 * h"
    using assms unfolding h_def by (simp flip: power_Suc)
  have "0 \<le> h" "0 \<le> u" "u < 2 * h"
    using uint_of_le_bytes_bound [OF assms(2)] full by (simp_all add: h_def u_def)
  then show ?thesis
    unfolding int_of_bytes_def Let_def full h_def [symmetric] u_def [symmetric] by auto
qed

lemma int_of_bytes_in_range:
  "length bs = width_bytes w \<Longrightarrow> in_range s w (int_of_bytes s bs)"
  using int_of_bytes_range [of bs s] by (cases s) (auto simp: in_range_signed in_range_unsigned)

lemma default_val_has_type:
  "sp_type t \<Longrightarrow> has_type t (default_val t)"
  "sp_types ts \<Longrightarrow> has_types ts (default_vals ts)"
  by (induction t and ts rule: sp_type_sp_types.induct)
     (auto simp: in_range_bool neq_Nil_conv)

text \<open>
  A read gives a value of the type even when it fails, never moves the reader backwards, and
  consumes at least one byte when it succeeds.
\<close>

text \<open>Objects that are read into.\<close>

definition blank :: "ctype \<Rightarrow> cval \<Rightarrow> bool" where
  "blank t v \<longleftrightarrow> has_type t v \<and> fresh t v"

definition blanks :: "ctype list \<Rightarrow> cval list \<Rightarrow> bool" where
  "blanks ts vs \<longleftrightarrow> has_types ts vs \<and> all_fresh ts vs"

lemma blank_default: "sp_type t \<Longrightarrow> blank t (default_val t)"
  using default_val_has_type(1) fresh_default_val(1) by (auto simp: blank_def)

lemma blank_moved_from: "has_type t v \<Longrightarrow> reusable t \<Longrightarrow> blank t (moved_from t v)"
  by (simp add: blank_def moved_from_has_type fresh_moved_from)

definition sound_read :: "ctype \<Rightarrow> (cval \<Rightarrow> bytes \<Rightarrow> sp_read) \<Rightarrow> bool" where
  "sound_read t d \<longleftrightarrow> (\<forall>old r. blank t old \<longrightarrow> length r < max_container \<longrightarrow>
     (case d old r of (c, v, r') \<Rightarrow>
        has_type t v \<and> length r' \<le> length r \<and> (c = sp_ok \<longrightarrow> length r' < length r)))"

lemma sound_readD:
  assumes "sound_read t d" "d old r = (c, v, r')" "blank t old" "length r < max_container"
  shows "has_type t v" "length r' \<le> length r" "c = sp_ok \<Longrightarrow> length r' < length r"
  using assms by (auto simp: sound_read_def dest!: spec [where x = old] spec [where x = r])

lemma sound_readI:
  assumes "\<And>old r c v r'. d old r = (c, v, r') \<Longrightarrow> blank t old \<Longrightarrow> length r < max_container \<Longrightarrow>
      has_type t v \<and> length r' \<le> length r \<and> (c = sp_ok \<longrightarrow> length r' < length r)"
  shows "sound_read t d"
  using assms by (auto simp: sound_read_def)

lemma sound_read_scalar:
  assumes "0 < scalar_size t"
    and "\<And>bs. length bs = scalar_size t \<Longrightarrow> has_type t (V_int (int_of_bytes (scalar_signed t) bs))"
  shows "sound_read t (read_scalar t)"
  using assms by (auto simp: sound_read_def blank_def read_scalar_def reader_read_def split: option.splits)

text \<open>The three loops: over the elements of a vector, of an ordered container and of an array.\<close>

lemma sound_read_seq:
  assumes "sound_read t d" "blank t old" "read_seq (d old) n r = (c, vs, r')" "length r < max_container"
  shows "(\<forall>v \<in> set vs. has_type t v) \<and> length r' + length vs \<le> Suc (length r)
         \<and> (c = sp_ok \<longrightarrow> length r' + n \<le> length r \<and> length vs = n)"
  using assms(3, 4)
proof (induction n arbitrary: c vs r r')
  case (Suc n)
  obtain c1 v r1 where d: "d old r = (c1, v, r1)" by (cases "d old r") auto
  note s = sound_readD [OF assms(1) d assms(2) Suc.prems(2)]
  show ?case
  proof (cases "c1 = sp_ok")
    case False
    then show ?thesis using Suc.prems d s by auto
  next
    case True
    obtain c2 vs2 r2 where q: "read_seq (d old) n r1 = (c2, vs2, r2)" by (cases "read_seq (d old) n r1") auto
    then show ?thesis using Suc.IH [OF q] Suc.prems d s True by auto
  qed
qed simp

lemma sound_read_tree:
  assumes "sound_read t d" "read_tree d mv key n old items r = (c, vs, r')"
    and "blank t old" "length r < max_container" "\<And>v. has_type t v \<Longrightarrow> blank t (mv v)"
    and "\<forall>x \<in> set items. has_type t x" "sorted_wrt cval_less (map key items)"
  shows "(\<forall>v \<in> set vs. has_type t v) \<and> sorted_wrt cval_less (map key vs)
         \<and> length r' + length vs \<le> length r + length items \<and> length r' \<le> length r"
  using assms(2 - 4, 6, 7)
proof (induction n arbitrary: old items r)
  case (Suc n)
  obtain c1 v r1 where d: "d old r = (c1, v, r1)" by (cases "d old r") auto
  note s = sound_readD [OF assms(1) d Suc.prems(2, 3)]
  show ?case
  proof (cases "c1 = sp_ok")
    case True
    have "\<forall>x \<in> set (tree_emplace key v items). has_type t x"
      using set_tree_emplace [of key v items] s(1) Suc.prems(4) by auto
    moreover have "read_tree d mv key n (mv v) (tree_emplace key v items) r1 = (c, vs, r')"
      using Suc.prems(1) d True by simp
    ultimately show ?thesis
      using Suc.IH [of "mv v" "tree_emplace key v items" r1] s True Suc.prems(3, 5) assms(5)
        sorted_tree_emplace [of key items v] length_tree_emplace [of key v items] by fastforce
  qed (use Suc.prems d s in auto)
qed auto

lemma sound_read_into:
  assumes "sound_read t d" "read_into d olds r = (c, vs, r')"
    and "\<forall>x \<in> set olds. blank t x" "length r < max_container"
  shows "(\<forall>v \<in> set vs. has_type t v) \<and> length vs = length olds \<and> length r' \<le> length r
         \<and> (c = sp_ok \<longrightarrow> olds \<noteq> [] \<longrightarrow> length r' < length r)"
  using assms(2 - 4)
proof (induction olds arbitrary: c vs r r')
  case (Cons old olds)
  obtain c1 v r1 where d: "d old r = (c1, v, r1)" by (cases "d old r") auto
  have s: "has_type t v" "length r1 \<le> length r" "c1 = sp_ok \<Longrightarrow> length r1 < length r"
    using sound_readD [OF assms(1) d] Cons.prems(2, 3) by auto
  obtain c2 vs2 r2 where q: "read_into d olds r1 = (c2, vs2, r2)" by (cases "read_into d olds r1") auto
  have "length r1 < max_container" using s(2) Cons.prems(3) by simp
  then show ?case
    using Cons.IH [OF q] Cons.prems d q s by (auto simp: blank_def split: if_splits)
qed simp

lemma read_size_consumes: "read_size code r = Some (n, r') \<Longrightarrow> length r' < length r"
proof -
  have "0 < code_width code" by (simp add: code_width_def)
  then show "read_size code r = Some (n, r') \<Longrightarrow> length r' < length r"
    by (auto simp: read_size_def reader_read_Some split: option.splits)
qed

lemma sound_read_vector:
  assumes "sound_read t (deserialize_one code t)" "blank t (default_val t)"
  shows "sound_read (T_vector t) (deserialize_one code (T_vector t))"
proof (rule sound_readI)
  fix old r c v r'
  assume d: "deserialize_one code (T_vector t) old r = (c, v, r')" and o: "blank (T_vector t) old"
    and r: "length r < max_container"
  show "has_type (T_vector t) v \<and> length r' \<le> length r \<and> (c = sp_ok \<longrightarrow> length r' < length r)"
  proof (cases "read_size code r")
    case (Some p)
    obtain sz r1 where p: "p = (sz, r1)" by fastforce
    have r1: "length r1 < length r" "length r1 < max_container"
      using read_size_consumes [of code r sz r1] Some p r by auto
    obtain c2 vs r2 where q: "read_seq (deserialize_one code t (default_val t)) sz r1 = (c2, vs, r2)"
      by (cases "read_seq (deserialize_one code t (default_val t)) sz r1") auto
    show ?thesis
      using sound_read_seq [OF assms q r1(2)] d o Some p r1 q
      by (auto simp: blank_def split: if_splits)
  qed (use d o in \<open>auto simp: blank_def\<close>)
qed

lemma sound_read_ordered:
  assumes "sound_read t (deserialize_one code t)" "blank t (default_val t)" "reusable t"
  shows "sound_read (T_set t) (deserialize_one code (T_set t))"
    and "sound_read (T_map t) (deserialize_one code (T_map t))"
proof -
  have loop: "has_type u (V_seq vs) \<and> length r' < length r"
    if "read_size code r = Some (sz, r1)" "length r < max_container"
      and "read_tree (deserialize_one code t) (moved_from t) key sz (default_val t) [] r1 = (c, vs, r')"
      and "u = T_set t \<and> key = (\<lambda>v. v) \<or> u = T_map t \<and> key = entry_key"
    for r sz r1 key c vs r' u
    using sound_read_tree [OF assms(1) that(3) assms(2) _ blank_moved_from [OF _ assms(3)]]
      read_size_consumes [OF that(1)] that(2, 4) by auto
  have "sound_read u (deserialize_one code u)" if u: "u = T_set t \<or> u = T_map t" for u
  proof (rule sound_readI)
    fix old r c v r'
    assume d: "deserialize_one code u old r = (c, v, r')" and o: "blank u old" and r: "length r < max_container"
    show "has_type u v \<and> length r' \<le> length r \<and> (c = sp_ok \<longrightarrow> length r' < length r)"
    proof (cases "read_size code r")
      case (Some p)
      obtain sz r1 where p: "p = (sz, r1)" by fastforce
      show ?thesis
      proof (cases "sz = 0")
        case True
        then show ?thesis using d o u Some p read_size_consumes [of code r sz r1] by (auto simp: blank_def)
      next
        case False
        have "elements old = []" "old = V_seq []" using o u by (auto simp: blank_def)
        then have "\<exists>key vs. v = V_seq vs \<and> (u = T_set t \<and> key = (\<lambda>v. v) \<or> u = T_map t \<and> key = entry_key)
            \<and> read_tree (deserialize_one code t) (moved_from t) key sz (default_val t) [] r1 = (c, vs, r')"
          using d u Some p False by (auto split: prod.splits)
        then show ?thesis using loop [of r sz r1] Some p r by fastforce
      qed
    qed (use d o u in \<open>auto simp: blank_def\<close>)
  qed
  then show "sound_read (T_set t) (deserialize_one code (T_set t))"
    and "sound_read (T_map t) (deserialize_one code (T_map t))" by simp_all
qed

lemma sound_read_array:
  assumes "sound_read t (deserialize_one code t)" "0 < n"
  shows "sound_read (T_array t n) (deserialize_one code (T_array t n))"
proof (rule sound_readI)
  fix old r c v r'
  assume d: "deserialize_one code (T_array t n) old r = (c, v, r')" and o: "blank (T_array t n) old"
    and r: "length r < max_container"
  obtain olds where olds: "old = V_seq olds" "\<forall>x \<in> set olds. blank t x" "length olds = n"
    using o by (auto simp: blank_def split: cval.splits)
  obtain c2 vs r2 where q: "read_into (deserialize_one code t) olds r = (c2, vs, r2)"
    by (cases "read_into (deserialize_one code t) olds r") auto
  show "has_type (T_array t n) v \<and> length r' \<le> length r \<and> (c = sp_ok \<longrightarrow> length r' < length r)"
    using sound_read_into [OF assms(1) q olds(2) r] d olds q assms(2) by (auto simp: blank_def split: if_splits)
qed

lemma sound_read_engaged:
  assumes "sound_read t (deserialize_one code t)" "blank t (default_val t)"
  shows "sound_read (T_optional t) (deserialize_one code (T_optional t))"
    and "sound_read (T_unique_ptr t) (deserialize_one code (T_unique_ptr t))"
proof -
  have inner: "has_type t v \<and> length r' \<le> length r"
    if "deserialize_one code t (default_val t) r = (c, v, r')" "length r < max_container" for r c v r'
    using sound_readD [OF assms(1) that(1) assms(2) that(2)] by simp
  have rd: "deserialize_one code u old (b # r) = (if b = 0 then (sp_ok, old, r)
      else case deserialize_one code t (default_val t) r of (_, v, r') \<Rightarrow> (sp_ok, V_opt (Some v), r'))"
    "deserialize_one code u old [] = (no_buffer_space, old, [])"
    if "u = T_optional t \<or> u = T_unique_ptr t" for u old b r
    using that by (auto simp: reader_read_def)
  have "sound_read u (deserialize_one code u)" if u: "u = T_optional t \<or> u = T_unique_ptr t" for u
  proof (rule sound_readI)
    fix old r c v r'
    assume "deserialize_one code u old r = (c, v, r')" "blank u old" "length r < max_container"
    then show "has_type u v \<and> length r' \<le> length r \<and> (c = sp_ok \<longrightarrow> length r' < length r)"
      using u by (cases r) (auto simp: rd [OF u] blank_def le_imp_less_Suc split: if_splits prod.splits dest!: inner)
  qed
  then show "sound_read (T_optional t) (deserialize_one code (T_optional t))"
    and "sound_read (T_unique_ptr t) (deserialize_one code (T_unique_ptr t))" by simp_all
qed

lemma sound_read_variant:
  assumes "\<And>i. i < length ts \<Longrightarrow> sound_read (ts ! i) (deserialize_one code (ts ! i))"
    and "\<And>i. i < length ts \<Longrightarrow> blank (ts ! i) (default_val (ts ! i))"
  shows "sound_read (T_variant ts) (deserialize_one code (T_variant ts))"
proof (rule sound_readI)
  fix old r c v r'
  assume d: "deserialize_one code (T_variant ts) old r = (c, v, r')" and o: "blank (T_variant ts) old"
    and r: "length r < max_container"
  show "has_type (T_variant ts) v \<and> length r' \<le> length r \<and> (c = sp_ok \<longrightarrow> length r' < length r)"
  proof (cases r)
    case (Cons b r1)
    show ?thesis
    proof (cases "unat b < length ts")
      case True
      obtain c2 v2 r2 where q: "deserialize_one code (ts ! unat b) (default_val (ts ! unat b)) r1 = (c2, v2, r2)"
        by (cases "deserialize_one code (ts ! unat b) (default_val (ts ! unat b)) r1") auto
      show ?thesis
        using sound_readD [OF assms(1) [OF True] q assms(2) [OF True]] d q True Cons r
        by (simp add: Let_def) fastforce
    qed (use d o Cons in \<open>auto simp: Let_def blank_def\<close>)
  qed (use d o in \<open>auto simp: reader_read_def blank_def\<close>)
qed

lemma sound_read_string:
  "t = T_string \<or> t = T_string_view \<Longrightarrow> sound_read t (read_string code)"
  by (rule sound_readI)
     (auto simp: read_string_def reader_read_def blank_def split: option.splits if_splits dest!: read_size_consumes)

lemma sound_read_char_array:
  "0 < n \<Longrightarrow> sound_read (T_char_array n) (deserialize_one code (T_char_array n))"
  by (rule sound_readI) (auto simp: reader_read_def blank_def split: option.splits if_splits)

lemma sound_read_fundamental:
  "sound_read T_char (read_scalar T_char)" "sound_read (T_int s w) (read_scalar (T_int s w))"
  "sound_read (T_enum s w) (read_scalar (T_enum s w))"
  by (rule sound_read_scalar; simp add: int_of_bytes_in_range)+

lemma sound_read_tuple:
  assumes "ts \<noteq> []"
    and "\<And>olds r. blanks ts olds \<Longrightarrow> length r < max_container \<Longrightarrow>
      (case deserialize_many code ts olds r of (c, vs, r') \<Rightarrow>
        has_types ts vs \<and> length r' \<le> length r \<and> (c = sp_ok \<longrightarrow> ts \<noteq> [] \<longrightarrow> length r' < length r))"
  shows "sound_read (T_tuple ts) (deserialize_one code (T_tuple ts))"
    and "sound_read (T_struct ts) (deserialize_one code (T_struct ts))"
proof -
  have many: "has_types ts vs \<and> length r' \<le> length r \<and> (c = sp_ok \<longrightarrow> length r' < length r)"
    if "deserialize_many code ts olds r = (c, vs, r')" "blanks ts olds" "length r < max_container"
    for olds r c vs r'
    using assms(2) [OF that(2, 3)] assms(1) that(1) by simp
  show "sound_read (T_tuple ts) (deserialize_one code (T_tuple ts))"
    by (rule sound_readI) (auto simp: blank_def blanks_def split: prod.splits cval.splits dest!: many)
  show "sound_read (T_struct ts) (deserialize_one code (T_struct ts))"
    by (rule sound_readI)
       (auto simp: blank_def blanks_def split: prod.splits cval.splits if_splits simp del: object_size.simps dest!: many)
qed

lemma deserialize_one_fun:
  "deserialize_one code T_char = read_scalar T_char"
  "deserialize_one code (T_int s w) = read_scalar (T_int s w)"
  "deserialize_one code (T_enum s w) = read_scalar (T_enum s w)"
  "deserialize_one code T_string = read_string code"
  "deserialize_one code T_string_view = read_string code"
  "deserialize_one code (T_const t) = deserialize_one code t"
  "deserialize_one code (T_lref t) = deserialize_one code t"
  "deserialize_one code (T_rref t) = deserialize_one code t"
  by (intro ext; simp)+

lemma sound_read_cvref:
  "sound_read (T_const t) d = sound_read t d" "sound_read (T_lref t) d = sound_read t d"
  "sound_read (T_rref t) d = sound_read t d"
  by (simp_all add: sound_read_def blank_def)

lemma sound_read_many:
  assumes "\<forall>t \<in> set ts. sound_read t (deserialize_one code t)" "blanks ts olds" "length r < max_container"
  shows "case deserialize_many code ts olds r of (c, vs, r') \<Rightarrow>
    has_types ts vs \<and> length r' \<le> length r \<and> (c = sp_ok \<longrightarrow> ts \<noteq> [] \<longrightarrow> length r' < length r)"
  using assms
proof (induction ts arbitrary: olds r)
  case (Cons t ts)
  obtain old os where o: "olds = old # os" "blank t old" "blanks ts os" "has_types ts os"
    using Cons.prems(2) by (cases olds) (auto simp: blank_def blanks_def)
  obtain c v r1 where d: "deserialize_one code t old r = (c, v, r1)" by (cases "deserialize_one code t old r") auto
  have t: "sound_read t (deserialize_one code t)" using Cons.prems(1) by simp
  note s = sound_readD [OF t d o(2) Cons.prems(3)]
  obtain c2 vs2 r2 where m: "deserialize_many code ts os r1 = (c2, vs2, r2)"
    by (cases "deserialize_many code ts os r1") auto
  have "length r1 < max_container" using s(2) Cons.prems(3) by simp
  then show ?case
    using Cons.IH [OF _ o(3), of r1] Cons.prems(1) s d m o(1, 4) by auto
qed (simp add: blanks_def)

lemma sound_read_key: "key_type t \<Longrightarrow> no_bool t \<Longrightarrow> sound_read t (deserialize_one code t)"
  by (cases t rule: key_type.cases) (auto simp: deserialize_one_fun sound_read_string sound_read_fundamental)

lemma sp_types_set: "sp_types ts \<Longrightarrow> t \<in> set ts \<Longrightarrow> sp_type t"
  by (induction ts) auto

lemma deserialize_sound:
  "sp_type t \<Longrightarrow> no_bool t \<Longrightarrow> sound_read t (deserialize_one code t)"
  "sp_types ts \<Longrightarrow> no_bools ts \<Longrightarrow> \<forall>t \<in> set ts. sound_read t (deserialize_one code t)"
proof (induction t and ts rule: sp_type_sp_types.induct)
  case (1 t)
  then show ?case by (intro sound_read_vector blank_default) simp_all
next
  case (2 t)
  then show ?case by (intro sound_read_engaged blank_default) simp_all
next
  case (3 ts)
  then show ?case by (intro sound_read_tuple sound_read_many) simp_all
next
  case (4 ts)
  then show ?case by (intro sound_read_tuple sound_read_many) simp_all
next
  case (5 t n)
  then show ?case by (intro sound_read_array) simp_all
next
  case (6 t)
  then show ?case by (intro sound_read_ordered blank_default) (simp_all add: sound_read_key key_type_sp_type)
next
  case (7 t)
  then show ?case by (intro sound_read_ordered blank_default) (simp_all add: map_entry_reusable)
next
  case (8 t)
  then show ?case by (intro sound_read_engaged blank_default) simp_all
next
  case (9 ts)
  then show ?case by (intro sound_read_variant blank_default) (simp_all add: sp_types_nth)
qed (auto simp: deserialize_one_fun sound_read_cvref sound_read_string sound_read_fundamental sound_read_char_array)

lemma sp_deserialize_typed:
  assumes "sp_type t" "no_bool t" "length data < max_container" "sp_deserialize t data = Inr v"
  shows "has_type t v"
proof -
  obtain code r r' where m: "deserialize_metainfo t data = Inr (code, r)"
    and d: "deserialize_one code t (default_val t) r = (sp_ok, v, r')"
    using assms(4) by (auto simp: sp_deserialize_def split: sum.splits prod.splits if_splits)
  have "length r \<le> length data"
    using m by (auto simp: deserialize_metainfo_def reader_read_def Let_def split: option.splits if_splits)
  then show ?thesis
    using sound_readD(1) [OF deserialize_sound(1) [OF assms(1, 2)] d blank_default [OF assms(1)]] assms(3) by simp
qed

text \<open>
  C26: whatever a peer sends, an image that \<open>deserialize\<close> accepts starts with the type hash of
  the expected type, and the value it yields is a value of that type: integers are in range,
  containers hold values of their element type, aggregates have all their members. This is for
  types without \<open>bool\<close>, whose object representation is copied unchecked.
\<close>

theorem struct_pack_accepts_typed:
  assumes "sp_type t" "no_bool t" "length data < max_container" "sp_deserialize t data = Inr v"
  shows "4 \<le> length data \<and> (of_le_bytes (take 4 data) :: u32) div 2 = get_types_code t div 2 \<and> has_type t v"
proof -
  obtain code r where m: "deserialize_metainfo t data = Inr (code, r)"
    using assms(4) by (auto simp: sp_deserialize_def split: sum.splits prod.splits if_splits)
  then have "4 \<le> length data \<and> (of_le_bytes (take 4 data) :: u32) div 2 = get_types_code t div 2"
    by (auto simp: deserialize_metainfo_def reader_read_def Let_def split: option.splits if_splits)
  then show ?thesis using sp_deserialize_typed [OF assms] by simp
qed

theorem struct_pack_accepts_typed_witness:
  "(let t = T_tuple [T_int32, T_optional T_string]; v = V_seq [V_int (- 7), V_opt (Some (V_str [104, 105]))];
        data = sp_serialize True t v @ [255]
    in sp_deserialize t data = Inr v \<and> (of_le_bytes (take 4 data) :: u32) div 2 = get_types_code t div 2 \<and> has_type t v)
   \<and> (let t = T_optional T_int32; data = le_bytes 4 (get_types_code t) @ [1]
      in sp_deserialize t data = Inr (V_opt (Some (V_int 0))) \<and> has_type t (V_opt (Some (V_int 0))))"
proof -
  let ?t = "T_tuple [T_int32, T_optional T_string]" and ?v = "V_seq [V_int (- 7), V_opt (Some (V_str [104, 105]))]"
  let ?o = "T_optional T_int32"
  have v: "sp_type ?t" "has_type ?t ?v" by (simp_all add: in_range_def int_min_def int_max_def max_container_def)
  have d: "sp_deserialize ?t (sp_serialize True ?t ?v @ [255]) = Inr ?v"
    by (rule sp_deserialize_sp_serialize [OF v])
  have len: "length (sp_serialize True ?t ?v @ [255]) < max_container"
    by (simp add: length_sp_serialize [OF v] get_serialize_runtime_info_def Let_def size_code_def code_width_def max_container_def)
  have o: "sp_deserialize ?o (le_bytes 4 (get_types_code ?o) @ [1]) = Inr (V_opt (Some (V_int 0)))"
    by (rule optional_drops_inner_error)
  show ?thesis
    using struct_pack_accepts_typed [OF v(1) _ len d] d o struct_pack_accepts_typed [OF _ _ _ o]
    by (simp add: Let_def max_container_def)
qed

end
