(* ===== verification/Codec.thy ===== *)
theory Codec
  imports Struct_Pack_Typed
begin

text \<open>
  The argument codec, include/rest_rpc/codec.h, and \<open>rpc_client::get_buffer\<close>, which decides how the
  arguments of a call are handed to it. A single fundamental argument is sent as decimal text, a
  single string as it is, everything else through the user's codec, if there is one for the types,
  or through struct_pack. The user's codec is a parameter: a record with the types it is found for
  and its two functions. \<open>ce_debug\<close> is the build type, which struct_pack's image depends on.
\<close>

section \<open>Exceptions and the environment\<close>

text \<open>What a \<open>catch\<close> clause distinguishes: \<open>std::exception\<close> with its \<open>what()\<close>, and the rest.\<close>

datatype exn = Std_exception string | Unknown_exception

record codec_env =
  ce_debug :: bool
  has_user_pack :: "ctype list \<Rightarrow> bool"
  user_serialize :: "ctype list \<Rightarrow> cval list \<Rightarrow> bytes"
  user_deserialize :: "ctype \<Rightarrow> bytes \<Rightarrow> exn + cval"

text \<open>A program that defines no codec of its own.\<close>

definition default_env :: "bool \<Rightarrow> codec_env" where
  "default_env dbg = \<lparr>ce_debug = dbg, has_user_pack = (\<lambda>_. False), user_serialize = (\<lambda>_ _. []),
     user_deserialize = (\<lambda>_ _. Inl Unknown_exception)\<rparr>"

section \<open>Decimal text\<close>

text \<open>\<open>std::to_string\<close> on integers, after promotion.\<close>

fun dec_digits :: "nat \<Rightarrow> bytes" where
  "dec_digits n = (if n < 10 then [48 + of_nat n] else dec_digits (n div 10) @ [48 + of_nat (n mod 10)])"

declare dec_digits.simps [simp del]

definition to_string :: "int \<Rightarrow> bytes" where
  "to_string i = (if i < 0 then 45 # dec_digits (nat (- i)) else dec_digits (nat i))"

definition is_digit :: "u8 \<Rightarrow> bool" where
  "is_digit b \<longleftrightarrow> 48 \<le> unat b \<and> unat b \<le> 57"

definition dec_value :: "bytes \<Rightarrow> nat" where
  "dec_value ds = foldl (\<lambda>acc b. 10 * acc + (unat b - 48)) 0 ds"

text \<open>
  \<open>std::from_chars\<close> to the base 10: a minus sign for signed types only, at least one digit, the
  value in the range of the type; what follows the digits is not looked at. \<open>None\<close> is an error code.
\<close>

definition from_chars :: "bool \<Rightarrow> width \<Rightarrow> bytes \<Rightarrow> int option" where
  "from_chars s w data =
     (let neg = (s \<and> data \<noteq> [] \<and> hd data = 45);
          ds = takeWhile is_digit (if neg then tl data else data);
          i = (if neg then - int (dec_value ds) else int (dec_value ds))
      in if ds = [] \<or> \<not> in_range s w i then None else Some i)"

section \<open>pack_args, unpack\<close>

text \<open>\<open>std::string_view(const char *)\<close> stops at the terminating zero of a character array.\<close>

definition pack_one :: "ctype \<Rightarrow> cval \<Rightarrow> bytes" where
  "pack_one t v =
     (case v of
        V_str bs \<Rightarrow> if CharArrayRef t \<or> CharArray t then takeWhile (\<lambda>b. b \<noteq> 0) bs else bs
      | V_int i \<Rightarrow> to_string i
      | _ \<Rightarrow> [])"

text \<open>The type of \<open>std::forward<Arg>(arg)\<close> for a deduced \<open>Arg\<close>.\<close>

definition fwd_ref :: "ctype \<Rightarrow> ctype" where
  "fwd_ref t = (case t of T_lref _ \<Rightarrow> t | T_rref _ \<Rightarrow> t | _ \<Rightarrow> T_rref t)"

definition pack_args :: "codec_env \<Rightarrow> (ctype \<times> cval) list \<Rightarrow> bytes" where
  "pack_args env args =
     (case args of
        [] \<Rightarrow> []
      | [(t, v)] \<Rightarrow>
          if is_basic_v t then pack_one t v
          else if has_user_pack env [t] then user_serialize env [t] [v]
          else sp_serialize (ce_debug env) t v
      | _ \<Rightarrow>
          if has_user_pack env (map fst args) then user_serialize env (map fst args) (map snd args)
          else sp_serialize (ce_debug env) (T_tuple (map (fwd_ref \<circ> fst) args)) (V_seq (map snd args)))"

text \<open>
  \<open>unpack<T>\<close> instantiates for the fundamental types with a \<open>from_chars\<close> overload (there is none
  for \<open>bool\<close> and \<open>void\<close>), the string types, and what a codec supports.
\<close>

fun from_chars_type :: "ctype \<Rightarrow> (bool \<times> width) option" where
  "from_chars_type (T_int s w) = Some (s, w)"
| "from_chars_type T_char = Some (True, W8)"
| "from_chars_type _ = None"

definition unpack_compiles :: "codec_env \<Rightarrow> ctype \<Rightarrow> bool" where
  "unpack_compiles env t \<longleftrightarrow>
     (if is_fundamental t then from_chars_type t \<noteq> None
      else t = T_string \<or> t = T_string_view \<or> has_user_pack env [t] \<or> sp_type t)"

definition unpack :: "codec_env \<Rightarrow> ctype \<Rightarrow> bytes \<Rightarrow> exn + cval" where
  "unpack env t data =
     (if is_fundamental t
      then (case from_chars_type t of
              Some (s, w) \<Rightarrow>
                (case from_chars s w data of
                   None \<Rightarrow> Inl (Std_exception ''unpack failed: Args not match!'')
                 | Some i \<Rightarrow> Inr (V_int i))
            | None \<Rightarrow> Inl Unknown_exception \<comment> \<open>not instantiable\<close>)
      else if t = T_string then Inr (V_str data)
      else if t = T_string_view then Inr (V_str data)
      else if has_user_pack env [t] then user_deserialize env t data
      else (case sp_deserialize t data of
              Inl e \<Rightarrow> Inl (Std_exception (''unpack failed: '' @ make_error_message e))
            | Inr v \<Rightarrow> Inr v))"

text \<open>\<open>rpc_client::get_buffer\<close>: a single argument that is not basic is sent as a tuple of one.\<close>

definition get_buffer :: "codec_env \<Rightarrow> (ctype \<times> cval) list \<Rightarrow> bytes" where
  "get_buffer env args =
     (case args of
        [] \<Rightarrow> pack_args env []
      | [(t, v)] \<Rightarrow>
          if is_basic_v t then pack_args env [(t, v)]
          else pack_args env [(T_tuple [fwd_ref t], V_seq [v])]
      | _ \<Rightarrow> pack_args env [(T_tuple (map (fwd_ref \<circ> fst) args), V_seq (map snd args))])"

section \<open>The decimal text of an integer is read back\<close>

lemma is_digit_dec: "n < 10 \<Longrightarrow> is_digit (48 + of_nat n) \<and> unat (48 + of_nat n :: u8) - 48 = n"
proof -
  assume n: "n < 10"
  have "unat (48 + of_nat n :: u8) = 48 + n"
    using n unat_of_nat_small [of "48 + n", where 'a = 8] by simp
  then show ?thesis using n by (simp add: is_digit_def)
qed

lemma dec_digits_digits: "b \<in> set (dec_digits n) \<Longrightarrow> is_digit b"
proof (induction n rule: dec_digits.induct)
  case (1 n)
  show ?case
  proof (cases "n < 10")
    case True
    then show ?thesis using 1(2) is_digit_dec by (simp add: dec_digits.simps [of n])
  next
    case False
    then show ?thesis using 1 is_digit_dec [of "n mod 10"] by (auto simp: dec_digits.simps [of n])
  qed
qed

lemma dec_digits_nonempty [simp]: "dec_digits n \<noteq> []"
  by (simp add: dec_digits.simps [of n])

lemma dec_value_digits: "dec_value (dec_digits n) = n"
proof (induction n rule: dec_digits.induct)
  case (1 n)
  then show ?case
    using is_digit_dec [of n] is_digit_dec [of "n mod 10"]
    by (simp add: dec_digits.simps [of n] dec_value_def)
qed

lemma minus_not_digit: "\<not> is_digit 45"
  by (simp add: is_digit_def)

lemma takeWhile_digits:
  assumes "r = [] \<or> \<not> is_digit (hd r)"
  shows "takeWhile is_digit (dec_digits n @ r) = dec_digits n"
  using assms dec_digits_digits [of _ n]
  by (cases r) (auto simp: takeWhile_append1 takeWhile_append2)

lemma hd_dec_digits: "hd (dec_digits n @ r) \<noteq> 45"
  using dec_digits_digits [of "hd (dec_digits n)" n] minus_not_digit
  by (cases "dec_digits n") auto

lemma from_chars_to_string:
  assumes "in_range s w i" "r = [] \<or> \<not> is_digit (hd r)"
  shows "from_chars s w (to_string i @ r) = Some i"
proof (cases "i < 0")
  case True
  then have "s" using assms(1) by (cases s) (auto simp: in_range_unsigned)
  then show ?thesis
    using True assms takeWhile_digits [of r "nat (- i)"]
    by (simp add: from_chars_def to_string_def Let_def dec_value_digits)
next
  case False
  then show ?thesis
    using assms takeWhile_digits [of r "nat i"] hd_dec_digits [of "nat i" r]
    by (simp add: from_chars_def to_string_def Let_def dec_value_digits)
qed

section \<open>References and qualifiers do not change the image\<close>

lemma cvref_invariant:
  "get_type_literal (remove_cvref t) = get_type_literal t"
  "check_if_has_container (remove_cvref t) = check_if_has_container t"
  "calculate_one_size (remove_cvref t) v = calculate_one_size t v"
  "serialize_one code (remove_cvref t) v = serialize_one code t v"
  unfolding remove_cvref_def
  by (cases t rule: remove_reference.cases; cases "remove_reference t" rule: remove_cv.cases; simp)+

lemma fwd_ref_invariant [simp]:
  "get_type_literal (fwd_ref t) = get_type_literal t"
  "check_if_has_container (fwd_ref t) = check_if_has_container t"
  "calculate_one_size (fwd_ref t) v = calculate_one_size t v"
  "serialize_one code (fwd_ref t) v = serialize_one code t v"
  by (simp_all add: fwd_ref_def split: ctype.split)

lemma map_invariant:
  assumes "\<And>t. get_type_literal (f t) = get_type_literal t"
    and "\<And>t. check_if_has_container (f t) = check_if_has_container t"
    and "\<And>t v. calculate_one_size (f t) v = calculate_one_size t v"
    and "\<And>code t v. serialize_one code (f t) v = serialize_one code t v"
  shows "get_type_literals (map f ts) = get_type_literals ts"
    and "any_has_container (map f ts) = any_has_container ts"
    and "calculate_payload_size (map f ts) vs = calculate_payload_size ts vs"
    and "serialize_many code (map f ts) vs = serialize_many code ts vs"
proof -
  show "get_type_literals (map f ts) = get_type_literals ts"
    and "any_has_container (map f ts) = any_has_container ts"
    using assms by (induction ts) simp_all
  show "calculate_payload_size (map f ts) vs = calculate_payload_size ts vs"
    and "serialize_many code (map f ts) vs = serialize_many code ts vs"
    using assms by (induction ts arbitrary: vs; case_tac vs; simp)+
qed

lemma sp_serialize_tuple_map:
  assumes "\<And>t. get_type_literal (f t) = get_type_literal t"
    and "\<And>t. check_if_has_container (f t) = check_if_has_container t"
    and "\<And>t v. calculate_one_size (f t) v = calculate_one_size t v"
    and "\<And>code t v. serialize_one code (f t) v = serialize_one code t v"
  shows "sp_serialize dbg (T_tuple (map f ts)) (V_seq vs) = sp_serialize dbg (T_tuple ts) (V_seq vs)"
proof -
  note m = map_invariant [OF assms]
  show ?thesis
    by (simp add: sp_serialize_def get_serialize_runtime_info_def serialize_metainfo_def
        get_types_code_def Let_def m)
qed

text \<open>The image of forwarded arguments is the image of the tuple of decayed types.\<close>

lemma sp_serialize_forwarded:
  "sp_serialize dbg (T_tuple (map (fwd_ref \<circ> fst) args)) (V_seq vs)
     = sp_serialize dbg (T_tuple (map (remove_cvref \<circ> fst) args)) (V_seq vs)"
  using sp_serialize_tuple_map [of fwd_ref dbg "map fst args" vs]
    sp_serialize_tuple_map [of remove_cvref dbg "map fst args" vs]
  by (simp add: cvref_invariant)

text \<open>Several arguments, or one that is not basic, travel as the tuple of their decayed types.\<close>

lemma get_buffer_tuple:
  assumes "\<not> (case args of [(t, v)] \<Rightarrow> is_basic_v t | _ \<Rightarrow> args = [])"
  shows "get_buffer (default_env d) args = sp_serialize d (T_tuple (map (remove_cvref \<circ> fst) args)) (V_seq (map snd args))"
  unfolding sp_serialize_forwarded [symmetric] using assms
  by (auto simp: get_buffer_def pack_args_def default_env_def is_basic_v_def is_fundamental_def string_concept_def
      CharArray_def CharArrayRef_def split: list.splits)

section \<open>The codec keeps the contract\<close>

text \<open>The types an object of which can be returned or stored: no references, arrays, \<open>void\<close>.\<close>

fun object_type :: "ctype \<Rightarrow> bool" where
  "object_type T_void = False"
| "object_type (T_char_array _) = False"
| "object_type (T_awaitable _) = False"
| "object_type (T_const _) = False"
| "object_type (T_lref _) = False"
| "object_type (T_rref _) = False"
| "object_type _ = True"

text \<open>The user's codec, where there is one, is found on both sides and inverts itself.\<close>

definition user_codec_ok :: "codec_env \<Rightarrow> ctype \<Rightarrow> codec_env \<Rightarrow> ctype \<Rightarrow> cval \<Rightarrow> bool" where
  "user_codec_ok env1 t1 env2 t2 v \<longleftrightarrow>
     has_user_pack env1 [t1] = has_user_pack env2 [t2]
     \<and> (has_user_pack env1 [t1] \<longrightarrow> user_deserialize env2 t2 (user_serialize env1 [t1] [v]) = Inr v)"

lemma user_codec_ok_default [simp]: "user_codec_ok (default_env d) t1 (default_env d') t2 v"
  by (simp add: user_codec_ok_def default_env_def)

lemma pack_one_string:
  "has_type t v \<Longrightarrow> string_concept t \<Longrightarrow> pack_one t v = (case v of V_str bs \<Rightarrow> bs | _ \<Rightarrow> [])"
  using has_type_remove_cvref [of t v]
  by (cases "remove_cvref t"; cases v) (auto simp: pack_one_def string_concept_def CharArray_def CharArrayRef_def)

lemma unpack_text:
  assumes "has_type t (V_int i)" "from_chars_type t \<noteq> None" "r = [] \<or> \<not> is_digit (hd r)"
  shows "unpack env t (to_string i @ r) = Inr (V_int i)"
  using assms by (cases t rule: from_chars_type.cases)
    (auto simp: unpack_def is_fundamental_def from_chars_to_string)

text \<open>The types for which the value contract holds between two programs.\<close>

definition codec_ok :: "codec_env \<Rightarrow> codec_env \<Rightarrow> ctype \<Rightarrow> cval \<Rightarrow> bool" where
  "codec_ok env1 env2 t v \<longleftrightarrow>
     object_type t \<and> unpack_compiles env2 t \<and> has_type t v \<and> user_codec_ok env1 t env2 t v"

lemma unpack_pack_value:
  assumes "codec_ok env1 env2 t v"
  shows "unpack env2 t (pack_args env1 [(t, v)]) = Inr v"
proof (cases "is_fundamental t")
  case True
  then have f: "from_chars_type t \<noteq> None" using assms by (simp add: codec_ok_def unpack_compiles_def)
  then obtain i where "v = V_int i" "pack_args env1 [(t, v)] = to_string i"
    using assms True by (cases t rule: from_chars_type.cases; cases v)
      (auto simp: codec_ok_def pack_args_def is_basic_v_def pack_one_def)
  then show ?thesis using unpack_text [of t i "[]" env2] f assms by (simp add: codec_ok_def)
next
  case False
  show ?thesis
  proof (cases "t = T_string \<or> t = T_string_view")
    case True
    then show ?thesis
      using assms by (cases v) (auto simp: codec_ok_def pack_args_def is_basic_v_def string_concept_def
          pack_one_def CharArray_def CharArrayRef_def unpack_def is_fundamental_def)
  next
    case no_string: False
    have nb: "\<not> is_basic_v t"
      using False no_string assms
      by (cases t) (auto simp: codec_ok_def is_basic_v_def string_concept_def CharArray_def CharArrayRef_def)
    show ?thesis
      using nb False no_string assms sp.unpack_pack [of t v]
      by (auto simp: codec_ok_def unpack_compiles_def user_codec_ok_def pack_args_def unpack_def)
  qed
qed

text \<open>What is unpacked has the type it was unpacked as, whatever the bytes are.\<close>

lemma from_chars_range: "from_chars s w data = Some i \<Longrightarrow> in_range s w i"
  by (auto simp: from_chars_def Let_def split: if_splits)

lemma unpack_typed:
  assumes "unpack_compiles env t" "no_bool t" "length data < max_container" "unpack env t data = Inr v"
    and "has_user_pack env [t] \<Longrightarrow> user_deserialize env t data = Inr v \<Longrightarrow> has_type t v"
  shows "has_type t v"
proof (cases "is_fundamental t")
  case True
  then show ?thesis using assms(1, 4) from_chars_range
    by (cases t rule: from_chars_type.cases) (auto simp: unpack_def unpack_compiles_def split: option.splits)
next
  case False
  show ?thesis
  proof (cases "t = T_string \<or> t = T_string_view \<or> has_user_pack env [t]")
    case True
    then show ?thesis using assms(3 - 5) False by (auto simp: unpack_def split: if_splits)
  next
    case no: False
    then have "sp_type t" "sp_deserialize t data = Inr v"
      using assms(1, 4) False by (auto simp: unpack_def unpack_compiles_def split: sum.splits)
    then show ?thesis using sp_deserialize_typed assms(2, 3) by blast
  qed
qed

interpretation rpc: value_codec "codec_ok env1 env2" "\<lambda>t v. pack_args env1 [(t, v)]" "unpack env2"
  for env1 env2
  by unfold_locales (rule unpack_pack_value)

text \<open>
  C16: a single value that one program packs is unpacked to the same value by another, whether it
  travels as decimal text, as a verbatim string, through struct_pack or through a user's codec that
  inverts itself, and whichever of the two programs is a debug build.
\<close>

theorem rpc_codec_roundtrip:
  assumes "object_type t" "unpack_compiles env2 t" "has_type t v" "user_codec_ok env1 t env2 t v"
  shows "unpack env2 t (pack_args env1 [(t, v)]) = Inr v"
  by (rule rpc.unpack_pack) (use assms in \<open>simp add: codec_ok_def\<close>)

theorem rpc_codec_roundtrip_witness:
  "unpack (default_env False) T_int32 (pack_args (default_env True) [(T_int32, V_int (- 42))]) = Inr (V_int (- 42))"
  by (rule rpc_codec_roundtrip)
     (simp_all add: unpack_compiles_def is_fundamental_def in_range_def int_min_def int_max_def)

end
