(* ===== verification/Function_Name.thy ===== *)
theory Function_Name
  imports Md5
begin

text \<open>
  Names of remote procedures that are given as template arguments,
  include/rest_rpc/function_name.h: the name is cut out of the text the compiler makes of the
  signature of \<open>qualified_name_of_impl<Func>\<close>. That text is a parameter of the model, since it is
  produced by the compiler. Positions are 64-bit and wrap, as \<open>std::size_t\<close> does; an out-of-range
  access in a constant expression makes the program ill-formed, which is the result \<open>None\<close>.
\<close>

section \<open>String views\<close>

definition npos :: size_t where
  "npos = - 1"

fun find_index :: "string \<Rightarrow> string \<Rightarrow> nat option" where
  "find_index [] pat = (if pat = [] then Some 0 else None)"
| "find_index (c # s) pat =
     (if take (length pat) (c # s) = pat then Some 0 else map_option Suc (find_index s pat))"

fun rfind_index :: "string \<Rightarrow> string \<Rightarrow> nat option" where
  "rfind_index [] pat = (if pat = [] then Some 0 else None)"
| "rfind_index (c # s) pat =
     (case rfind_index s pat of Some i \<Rightarrow> Some (Suc i)
      | None \<Rightarrow> if take (length pat) (c # s) = pat then Some 0 else None)"

definition position :: "nat option \<Rightarrow> size_t" where
  "position r = (case r of None \<Rightarrow> npos | Some i \<Rightarrow> of_nat i)"

definition sv_size :: "string \<Rightarrow> size_t" where
  "sv_size s = of_nat (length s)"

definition sv_find :: "string \<Rightarrow> string \<Rightarrow> size_t" where
  "sv_find s pat = position (find_index s pat)"

definition sv_rfind :: "string \<Rightarrow> string \<Rightarrow> size_t" where
  "sv_rfind s pat = position (rfind_index s pat)"

definition sv_substr :: "string \<Rightarrow> size_t \<Rightarrow> size_t \<Rightarrow> string option" where
  "sv_substr s pos n =
     (if length s < unat pos then None else Some (take (unat n) (drop (unat pos) s)))"

definition sv_at :: "string \<Rightarrow> size_t \<Rightarrow> char option" where
  "sv_at s pos = (if unat pos < length s then Some (s ! unat pos) else None)"

section \<open>Cutting out the name\<close>

datatype compiler = MSVC | Clang | GCC

fun suffix_size :: "compiler \<Rightarrow> size_t" where
  "suffix_size MSVC = 16"
| "suffix_size Clang = 1"
| "suffix_size GCC = 1"

fun keyword :: "compiler \<Rightarrow> string" where
  "keyword MSVC = ''rest_rpc::detail::qualified_name_of_impl<''"
| "keyword Clang = ''[Func = ''"
| "keyword GCC = ''Func = ''"

fun anonymous_namespace :: "compiler \<Rightarrow> string" where
  "anonymous_namespace MSVC = ''`anonymous-namespace'::''"
| "anonymous_namespace Clang = ''(anonymous namespace)::''"
| "anonymous_namespace GCC = ''{anonymous}::''"

definition intermediate :: "compiler \<Rightarrow> string \<Rightarrow> string option" where
  "intermediate c signature =
     (let prefix_size = sv_find signature (keyword c) + sv_size (keyword c)
      in case sv_at signature prefix_size of None \<Rightarrow> None
         | Some ch \<Rightarrow>
             let additional_size = (if ch = CHR ''&'' then 1 else 0)
             in sv_substr signature (prefix_size + additional_size)
                  (sv_size signature - prefix_size - additional_size - suffix_size c))"

definition qualified_name_of_impl :: "compiler \<Rightarrow> string \<Rightarrow> string option" where
  "qualified_name_of_impl c signature =
     (case intermediate c signature of None \<Rightarrow> None
      | Some result \<Rightarrow>
          let rpos = sv_rfind result (anonymous_namespace c) in
          if rpos \<noteq> npos
          then (case sv_substr result (rpos + sv_size (anonymous_namespace c)) npos of None \<Rightarrow> None
                | Some str \<Rightarrow>
                    let right = sv_find str ''('' in
                    if right \<noteq> npos then sv_substr str 0 right else Some str)
          else let left = sv_find result ''l '' + 2;
                   right = sv_find result ''('' in
               if left \<noteq> npos
               then (if right \<noteq> npos then sv_substr result left (right - left) else Some result)
               else Some result)"

fun string_view_array_has :: "string list \<Rightarrow> string \<Rightarrow> string" where
  "string_view_array_has [] val = ''''"
| "string_view_array_has (v # vs) val = (if sv_find val v = 0 then v else string_view_array_has vs val)"

definition func_style_array :: "string list" where
  "func_style_array =
     [''__cdecl '', ''__clrcall '', ''__stdcall '', ''__fastcall '', ''__thiscall '', ''__vectorcall '']"

definition get_func_name :: "compiler \<Rightarrow> string \<Rightarrow> string option" where
  "get_func_name c signature =
     (case qualified_name_of_impl c signature of None \<Rightarrow> None
      | Some qualified_name \<Rightarrow>
          let func_style = string_view_array_has func_style_array qualified_name in
          if 0 < length func_style then Some (drop (length func_style) qualified_name)
          else Some qualified_name)"

section \<open>Searching\<close>

lemma find_index_None: "find_index s pat = None" if "c \<in> set pat" "c \<notin> set s"
  using that
proof (induction s)
  case (Cons a s)
  have "take (length pat) (a # s) \<noteq> pat"
    using Cons.prems by (metis in_set_takeD)
  then show ?case using Cons by auto
qed auto

lemma rfind_index_None: "rfind_index s pat = None" if "c \<in> set pat" "c \<notin> set s"
  using that
proof (induction s)
  case (Cons a s)
  have "take (length pat) (a # s) \<noteq> pat"
    using Cons.prems by (metis in_set_takeD)
  then show ?case using Cons by auto
qed auto

lemma find_index_here: "find_index (pat @ s) pat = Some 0"
  by (cases pat; cases s) auto

lemma find_index_char:
  "c \<notin> set s \<Longrightarrow> find_index (s @ c # r) [c] = Some (length s)"
  by (induction s) auto

text \<open>The first occurrence does not move when text without the first character is put in front.\<close>

lemma find_index_skip:
  assumes "\<forall>i < length s. take (length pat) (drop i (s @ pat)) \<noteq> pat"
  shows "find_index (s @ pat @ r) pat = Some (length s)"
  using assms
proof (induction s)
  case Nil
  then show ?case by (simp add: find_index_here)
next
  case (Cons a s)
  have "take (length pat) (a # s @ pat @ r) = take (length pat) (a # s @ pat)"
    using take_append [of "length pat" "a # s @ pat" r] by simp
  moreover have "take (length pat) (a # s @ pat) \<noteq> pat" using Cons.prems by fastforce
  moreover have "find_index (s @ pat @ r) pat = Some (length s)"
    by (rule Cons.IH) (use Cons.prems in fastforce)
  ultimately show ?case by simp
qed

lemma position_small:
  assumes "i < 2 ^ 64 - 1"
  shows "position (Some i) \<noteq> npos" "unat (position (Some i)) = i"
proof -
  show u: "unat (position (Some i)) = i"
    using assms by (simp add: position_def unat_of_nat_small)
  have "unat npos = 2 ^ 64 - 1" by (simp add: npos_def unsigned_minus_1_eq_mask mask_eq_exp_minus_1)
  with u assms show "position (Some i) \<noteq> npos" by fastforce
qed

lemma substr_nat:
  assumes "i \<le> length s" "length s < 2 ^ 64"
  shows "sv_substr s (of_nat i) (of_nat n) = Some (take (unat (of_nat n :: size_t)) (drop i s))"
  using assms by (simp add: sv_substr_def unat_of_nat_small)

text \<open>The first occurrence of the keyword is at the place where the compiler puts it.\<close>

definition first_at :: "string \<Rightarrow> string \<Rightarrow> bool" where
  "first_at pre pat \<longleftrightarrow> (\<forall>i \<in> set [0..<length pre]. take (length pat) (drop i (pre @ pat)) \<noteq> pat)"

lemma intermediate_body:
  assumes "signature = pre @ keyword c @ amp @ body @ suf" "first_at pre (keyword c)"
    and "amp = '''' \<and> hd body \<noteq> CHR ''&'' \<or> amp = ''&''" "body \<noteq> []"
    and "of_nat (length suf) = suffix_size c" "length signature < 2 ^ 63"
  shows "intermediate c signature = Some body"
proof -
  let ?p = "length pre + length (keyword c)"
  have find: "sv_find signature (keyword c) + sv_size (keyword c) = of_nat ?p"
    using find_index_skip [of pre "keyword c" "amp @ body @ suf"] assms(1, 2)
    by (simp add: sv_find_def sv_size_def position_def first_at_def)
  have len: "length signature = ?p + length amp + length body + length suf" using assms(1) by simp
  have at: "sv_at signature (of_nat ?p) = Some (if amp = ''&'' then CHR ''&'' else hd body)"
  proof -
    have p: "unat (of_nat ?p :: size_t) = ?p"
      by (rule unat_of_nat_small) (use assms(6) len in simp)
    show ?thesis
      unfolding sv_at_def p using assms(3, 4) len
      by (auto simp: assms(1) nth_append hd_conv_nth simp del: of_nat_add)
  qed
  have size: "sv_size signature - of_nat ?p - of_nat (length amp) - suffix_size c = of_nat (length body)"
    unfolding assms(5) [symmetric] sv_size_def len by simp
  have sub: "sv_substr signature (of_nat (?p + length amp)) (of_nat (length body)) = Some body"
  proof -
    have "unat (of_nat (length body) :: size_t) = length body"
      using assms(6) len by (intro unat_of_nat_small) simp
    then show ?thesis
      using substr_nat [of "?p + length amp" signature "length body"] assms(1, 6) len by simp
  qed
  have amp: "(if (if amp = ''&'' then CHR ''&'' else hd body) = CHR ''&'' then 1 else 0) = (of_nat (length amp) :: size_t)"
    using assms(3) by auto
  show ?thesis
    unfolding intermediate_def Let_def find at option.case amp of_nat_add [symmetric]
    using size sub by (simp add: diff_diff_eq)
qed

lemma rfind_index_last:
  assumes "a \<notin> set (p @ r)"
  shows "rfind_index (pre @ (a # p) @ r) (a # p) = Some (length pre)"
proof -
  have "rfind_index (p @ r) (a # p) = None" by (rule rfind_index_None [of a]) (use assms in auto)
  then have "rfind_index ((a # p) @ r) (a # p) = Some 0" by simp
  then show ?thesis by (induction pre) simp_all
qed

section \<open>The name is the one written in the source\<close>

text \<open>A qualified name without template arguments that need a blank, parenthesis or brace.\<close>

definition plain_name :: "string \<Rightarrow> bool" where
  "plain_name s \<longleftrightarrow> s \<noteq> [] \<and> length s < 2 ^ 32 \<and> set s \<inter> set '' ({`&'' = {}"

lemma plain_nameD:
  assumes "plain_name s"
  shows "s \<noteq> []" "length s < 2 ^ 32" "CHR '' '' \<notin> set s" "CHR ''('' \<notin> set s" "CHR ''{'' \<notin> set s"
    "CHR ''`'' \<notin> set s" "hd s \<noteq> CHR ''&''"
  using assms by (cases s; auto simp: plain_name_def)+

lemma sv_find_absent: "c \<in> set pat \<Longrightarrow> c \<notin> set s \<Longrightarrow> sv_find s pat = npos"
  by (simp add: sv_find_def position_def find_index_None)

lemma sv_rfind_absent: "c \<in> set pat \<Longrightarrow> c \<notin> set s \<Longrightarrow> sv_rfind s pat = npos"
  by (simp add: sv_rfind_def position_def rfind_index_None)

lemma style_has_blank: "st \<in> set func_style_array \<Longrightarrow> CHR '' '' \<in> set st"
  by (auto simp: func_style_array_def)

lemma array_has_none:
  "CHR '' '' \<notin> set s \<Longrightarrow> set vs \<subseteq> set func_style_array \<Longrightarrow> string_view_array_has vs s = ''''"
proof (induction vs)
  case (Cons v vs)
  have "sv_find s v = npos" by (rule sv_find_absent) (use Cons style_has_blank in auto)
  then show ?case using Cons by (simp add: npos_def)
qed simp

lemma get_func_name_plain:
  "qualified_name_of_impl c signature = Some s \<Longrightarrow> CHR '' '' \<notin> set s \<Longrightarrow> get_func_name c signature = Some s"
  by (simp add: get_func_name_def array_has_none)

lemma qualified_name_unparenthesised:
  assumes "intermediate c signature = Some s" "plain_name s"
  shows "qualified_name_of_impl c signature = Some s"
proof -
  have "sv_rfind s (anonymous_namespace c) = npos"
    using plain_nameD [OF assms(2)]
      sv_rfind_absent [of "CHR ''`''" "anonymous_namespace MSVC" s]
      sv_rfind_absent [of "CHR ''(''" "anonymous_namespace Clang" s]
      sv_rfind_absent [of "CHR ''{''" "anonymous_namespace GCC" s]
    by (cases c) simp_all
  moreover have "sv_find s ''('' = npos"
    by (rule sv_find_absent [of "CHR ''(''"]) (use plain_nameD [OF assms(2)] in auto)
  ultimately show ?thesis using assms(1) by (simp add: qualified_name_of_impl_def Let_def)
qed

text \<open>With a calling convention and a parameter list, as MSVC shows a function.\<close>

lemma qualified_name_parenthesised:
  assumes "intermediate c signature = Some (pre @ ''l '' @ s @ ''('' @ args)"
    and "c = MSVC" "CHR ''`'' \<notin> set (pre @ s @ args)" "CHR ''('' \<notin> set (pre @ s)"
    and "first_at pre ''l ''" "length (pre @ s @ args) < 2 ^ 63"
  shows "qualified_name_of_impl c signature = Some s"
proof -
  let ?b = "pre @ ''l '' @ s @ ''('' @ args"
  have "sv_rfind ?b (anonymous_namespace c) = npos"
    using assms(2, 3) by (intro sv_rfind_absent [of "CHR ''`''"]) auto
  moreover have "sv_find ?b ''l '' = of_nat (length pre)"
    using find_index_skip [of pre "''l ''"] assms(5) by (simp add: sv_find_def position_def first_at_def)
  moreover have "find_index ?b ''('' = Some (length pre + 2 + length s)"
    using find_index_char [of "CHR ''(''" "pre @ ''l '' @ s" args] assms(4) by simp
  moreover have "of_nat (length pre) + 2 = (of_nat (length pre + 2) :: size_t)" by simp
  moreover have "position (Some (length pre + 2 + length s)) \<noteq> npos"
    using assms(6) by (intro position_small) simp
  moreover have "of_nat (length pre + 2) \<noteq> npos"
    using assms(6) position_small(1) [of "length pre + 2"] by (simp add: position_def)
  moreover have "position (Some (length pre + 2 + length s)) - of_nat (length pre + 2) = of_nat (length s)"
    by (simp add: position_def)
  moreover have "sv_substr ?b (of_nat (length pre + 2)) (of_nat (length s)) = Some s"
    using substr_nat [of "length pre + 2" ?b "length s"] assms(6)
    by (simp add: unat_of_nat_small)
  ultimately show ?thesis
    unfolding qualified_name_of_impl_def assms(1) Let_def by (simp add: sv_find_def add.commute)
qed

lemma find_index_less: "find_index s pat = Some i \<Longrightarrow> i \<le> length s"
  by (induction s arbitrary: i) (auto split: if_splits)

lemma sv_find_zero:
  assumes "length s < 2 ^ 63"
  shows "sv_find s pat = 0 \<longleftrightarrow> take (length pat) s = pat"
proof (cases "find_index s pat")
  case None
  then have "take (length pat) s \<noteq> pat" by (cases s) (auto split: if_splits)
  with None show ?thesis by (simp add: sv_find_def position_def npos_def)
next
  case (Some i)
  have "unat (position (Some i)) = i"
    using find_index_less [OF Some] assms by (intro position_small) simp
  then have "sv_find s pat = 0 \<longleftrightarrow> i = 0"
    unfolding sv_find_def Some by (metis unsigned_0 unsigned_eq_0_iff)
  moreover have "i = 0 \<longleftrightarrow> take (length pat) s = pat"
    using Some by (cases s) (auto split: if_splits)
  ultimately show ?thesis by simp
qed

lemma array_has_find:
  assumes "length s < 2 ^ 63"
  shows "string_view_array_has vs s =
    (case List.find (\<lambda>v. take (length v) s = v) vs of None \<Rightarrow> '''' | Some v \<Rightarrow> v)"
  by (induction vs) (simp_all add: sv_find_zero [OF assms])

lemma array_has_style:
  assumes "st \<in> set func_style_array" "length s < 2 ^ 62"
  shows "string_view_array_has func_style_array (st @ s) = st"
proof -
  have "length st < 20" using assms(1) by (auto simp: func_style_array_def)
  then have "length (st @ s) < 2 ^ 63" using assms(2) by simp
  moreover have "List.find (\<lambda>v. take (length v) (st @ s) = v) func_style_array = Some st"
    using assms(1) unfolding func_style_array_def set_simps by (elim insertE emptyE) simp_all
  ultimately show ?thesis by (simp add: array_has_find)
qed

text \<open>Inside an anonymous namespace only what follows it is kept.\<close>

lemma anonymous_namespace_head:
  "\<exists>a p. anonymous_namespace c = a # p \<and> a \<in> set ''({`'' \<and> a \<notin> set p"
  by (cases c) auto

lemma qualified_name_anonymous:
  assumes "intermediate c signature = Some (u @ anonymous_namespace c @ name @ r)"
    and "plain_name name" "r = '''' \<or> c = MSVC \<and> (\<exists>a. r = ''('' @ a \<and> CHR ''`'' \<notin> set a)"
    and "length (u @ anonymous_namespace c @ name @ r) < 2 ^ 63"
  shows "qualified_name_of_impl c signature = Some name"
proof -
  note n = plain_nameD [OF assms(2)]
  let ?b = "u @ anonymous_namespace c @ name @ r" and ?n = "length u + length (anonymous_namespace c)"
  obtain a p where ap: "anonymous_namespace c = a # p" "a \<in> set ''({`''" "a \<notin> set p"
    using anonymous_namespace_head by blast
  have "a \<notin> set r" using assms(3) ap(1) by (cases c) auto
  then have "rfind_index ?b (anonymous_namespace c) = Some (length u)"
    using rfind_index_last [of a p "name @ r" u] ap n by auto
  then have rpos: "sv_rfind ?b (anonymous_namespace c) = position (Some (length u))"
    by (simp add: sv_rfind_def)
  have found: "position (Some (length u)) \<noteq> npos" using assms(4) by (intro position_small) simp
  have at: "position (Some (length u)) + sv_size (anonymous_namespace c) = of_nat ?n"
    by (simp add: position_def sv_size_def)
  have "take (unat npos) (name @ r) = name @ r"
    using assms(4) by (simp add: npos_def unsigned_minus_1_eq_mask mask_eq_exp_minus_1)
  then have rest: "sv_substr ?b (of_nat ?n) npos = Some (name @ r)"
    using assms(4) by (simp add: sv_substr_def unat_of_nat_small del: of_nat_add)
  have right: "qualified_name_of_impl c signature
      = (if sv_find (name @ r) ''('' \<noteq> npos then sv_substr (name @ r) 0 (sv_find (name @ r) ''('')
         else Some (name @ r))"
    unfolding qualified_name_of_impl_def assms(1) option.case Let_def rpos at rest using found by simp
  show ?thesis
  proof (cases "r = ''''")
    case True
    have "sv_find name ''('' = npos"
      by (rule sv_find_absent [of "CHR ''(''"]) (use n in auto)
    with True show ?thesis unfolding right by simp
  next
    case False
    with assms(3) obtain a' where r: "r = ''('' @ a'" by blast
    have "find_index (name @ r) ''('' = Some (length name)"
      using find_index_char [of "CHR ''(''" name a'] n(4) by (simp add: r)
    then have "sv_find (name @ r) ''('' = position (Some (length name))" by (simp add: sv_find_def)
    moreover have "position (Some (length name)) \<noteq> npos" "unat (position (Some (length name))) = length name"
      using n(2) by (auto intro!: position_small)
    ultimately show ?thesis unfolding right by (simp add: sv_substr_def)
  qed
qed

lemma func_name_unqualified:
  assumes "plain_name name" "style = cv @ ''l ''" "style \<in> set func_style_array"
    and "sig_gcc = pre_gcc @ keyword GCC @ amp @ name @ '']''" "first_at pre_gcc (keyword GCC)"
    and "sig_clang = pre_clang @ keyword Clang @ amp @ name @ '']''" "first_at pre_clang (keyword Clang)"
    and "sig_msvc = pre_msvc @ keyword MSVC @ ret @ style @ name @ ''('' @ args @ '')>(void) noexcept''"
    and "first_at pre_msvc (keyword MSVC)"
    and "amp = '''' \<or> amp = ''&''"
    and "first_at (ret @ cv) ''l '' \<or> (\<exists>r. ret = r @ ''l '' \<and> first_at r ''l '')"
    and "set ret \<inter> set ''(`&'' = {}" "CHR ''`'' \<notin> set args"
    and "length sig_gcc < 2 ^ 63" "length sig_clang < 2 ^ 63" "length sig_msvc < 2 ^ 63"
  shows "get_func_name GCC sig_gcc = Some name \<and> get_func_name Clang sig_clang = Some name
         \<and> get_func_name MSVC sig_msvc = Some name"
proof (intro conjI)
  note n = plain_nameD [OF assms(1)]
  show "get_func_name GCC sig_gcc = Some name"
    by (rule get_func_name_plain [OF qualified_name_unparenthesised [OF intermediate_body [OF assms(4, 5)]]])
       (use assms(1, 10, 14) n in auto)
  show "get_func_name Clang sig_clang = Some name"
    by (rule get_func_name_plain [OF qualified_name_unparenthesised [OF intermediate_body [OF assms(6, 7)]]])
       (use assms(1, 10, 15) n in auto)
  have style: "CHR ''('' \<notin> set style" "CHR ''`'' \<notin> set style" "style \<noteq> []"
    using assms(3) by (auto simp: func_style_array_def)
  have "hd style \<noteq> CHR ''&''" using assms(3) by (auto simp: func_style_array_def)
  then have hd: "hd (ret @ style @ t) \<noteq> CHR ''&''" for t
    using assms(12) style(3) by (cases ret) auto
  have "sig_msvc = pre_msvc @ keyword MSVC @ '''' @ (ret @ style @ name @ ''('' @ args @ '')'') @ ''>(void) noexcept''"
    unfolding assms(8) by simp
  then have i: "intermediate MSVC sig_msvc = Some (ret @ style @ name @ ''('' @ args @ '')'')"
    by (rule intermediate_body [OF _ assms(9)]) (use hd style(3) assms(16) in simp_all)
  have len: "length ret + length cv + length name + length args < 2 ^ 63 - 2"
    using assms(16) unfolding assms(2, 8) by simp
  from assms(11) show "get_func_name MSVC sig_msvc = Some name"
  proof
    assume f: "first_at (ret @ cv) ''l ''"
    have "qualified_name_of_impl MSVC sig_msvc = Some name"
      by (rule qualified_name_parenthesised [of _ _ "ret @ cv" _ "args @ '')''"])
         (use assms(2, 12, 13) style n i f len in auto)
    then show ?thesis by (rule get_func_name_plain) (rule n)
  next
    assume "\<exists>r. ret = r @ ''l '' \<and> first_at r ''l ''"
    then obtain r where r: "ret = r @ ''l ''" "first_at r ''l ''" by blast
    have "qualified_name_of_impl MSVC sig_msvc = Some (style @ name)"
      by (rule qualified_name_parenthesised [of _ _ r _ "args @ '')''"])
         (use assms(2, 12, 13) style n i r len in auto)
    then show ?thesis using array_has_style [OF assms(3), of name] style n(2)
      by (simp add: get_func_name_def)
  qed
qed



text \<open>
  The search for \<open>"l "\<close> that skips MSVC's calling convention has no valid test for failure:
  \<open>find\<close> returns \<open>npos\<close> and 2 is added, which wraps to 1. A call operator shown by GCC, whose name
  contains a parenthesis, therefore loses its first character and its parentheses, and the call
  operators of two classes whose names differ in the first character only get the same name.
\<close>

theorem functor_name_collision:
  "get_func_name GCC ''constexpr auto rest_rpc::detail::qualified_name_of_impl() [with auto Func = &Foo::operator()]''
     = Some ''oo::operator''
   \<and> get_func_name GCC ''constexpr auto rest_rpc::detail::qualified_name_of_impl() [with auto Func = &Zoo::operator()]''
     = Some ''oo::operator''"
  by code_simp

end
