(* ===== verification/Router.thy ===== *)
theory Router
  imports Codec Error_Code Function_Name
begin

text \<open>
  The dispatch table of the server, include/rest_rpc/rpc_router.hpp: registration of handlers
  under the digest of their name, and \<open>route\<close>, which unpacks the arguments of a request, calls the
  handler and packs its result. A handler is user code and a parameter of the model: a function of
  its arguments and of the state \<open>'w\<close> it can read and change, which returns or throws. The compile
  time decisions of the code are functions of the handler's types.
\<close>

section \<open>Results\<close>

record rpc_result =
  rr_ec :: rpc_errc
  rr_result :: bytes
  rr_view :: bytes

definition rpc_result_init :: rpc_result where
  "rpc_result_init = \<lparr>rr_ec = ok, rr_result = [], rr_view = []\<rparr>"

definition rpc_result_of_string :: "bytes \<Rightarrow> rpc_result" where
  "rpc_result_of_string str = rpc_result_init\<lparr>rr_result := str\<rparr>"

definition rpc_result_of_view :: "bytes \<Rightarrow> rpc_result" where
  "rpc_result_of_view str = rpc_result_init\<lparr>rr_view := str\<rparr>"

definition rr_empty :: "rpc_result \<Rightarrow> bool" where
  "rr_empty r \<longleftrightarrow> rr_result r = [] \<and> rr_view r = []"

definition rr_size :: "rpc_result \<Rightarrow> nat" where
  "rr_size r = (if rr_result r = [] then length (rr_view r) else length (rr_result r))"

definition rr_data :: "rpc_result \<Rightarrow> bytes" where
  "rr_data r = (if rr_result r = [] then rr_view r else rr_result r)"

lemma rr_size_data: "rr_size r = length (rr_data r)"
  by (simp add: rr_size_def rr_data_def)

lemma rr_data_empty: "rr_empty r \<Longrightarrow> rr_data r = []"
  by (simp add: rr_empty_def rr_data_def)

lemma rr_data_of [simp]:
  "rr_data (rpc_result_of_string s) = s" "rr_data (rpc_result_of_view s) = s"
  by (simp_all add: rr_data_def rpc_result_of_string_def rpc_result_of_view_def rpc_result_init_def)

section \<open>Handlers and the router\<close>

type_synonym 'w invoker = "bytes \<Rightarrow> rpc_result \<Rightarrow> 'w \<Rightarrow> (exn + rpc_result) \<times> 'w"

record 'w handler =
  h_params :: "ctype list" \<comment> \<open>\<open>function_traits<Function>::parameters_type\<close>\<close>
  h_ret :: ctype \<comment> \<open>\<open>function_traits<Function>::return_type\<close>\<close>
  h_self :: bool \<comment> \<open>called on an object\<close>
  h_body :: "cval list \<Rightarrow> 'w \<Rightarrow> (exn + cval) \<times> 'w"

record 'w router =
  map_invokers :: "u32 \<rightharpoonup> 'w invoker"
  key2func_name :: "u32 \<rightharpoonup> bytes"

definition empty_router :: "'w router" where
  "empty_router = \<lparr>map_invokers = Map.empty, key2func_name = Map.empty\<rparr>"

definition is_void_v :: "ctype \<Rightarrow> bool" where
  "is_void_v t \<longleftrightarrow> t = T_void \<or> t = T_awaitable T_void"

text \<open>
  Calling \<open>f(...)\<close> or \<open>(*self.*f)(...)\<close>, awaited when it is a coroutine. When the result is not
  \<open>void\<close> it is packed and assigned to \<open>ret.result\<close>.
\<close>

definition call_handler ::
  "codec_env \<Rightarrow> bool \<Rightarrow> 'w handler \<Rightarrow> cval list \<Rightarrow> rpc_result \<Rightarrow> 'w \<Rightarrow> (exn + rpc_result) \<times> 'w"
where
  "call_handler env void f args ret w =
     (case h_body f args w of
        (Inl e, w') \<Rightarrow> (Inl e, w')
      | (Inr v, w') \<Rightarrow>
          if void then (Inr ret, w')
          else (Inr (ret\<lparr>rr_result := pack_args env [(return_type_t (h_ret f), v)]\<rparr>), w'))"

definition handle_zero_arg ::
  "codec_env \<Rightarrow> 'w handler \<Rightarrow> rpc_result \<Rightarrow> 'w \<Rightarrow> (exn + rpc_result) \<times> 'w"
where
  "handle_zero_arg env f ret w = call_handler env (is_void_v (h_ret f)) f [] ret w"

definition handle_one_arg ::
  "codec_env \<Rightarrow> ctype \<Rightarrow> bytes \<Rightarrow> 'w handler \<Rightarrow> rpc_result \<Rightarrow> 'w \<Rightarrow> (exn + rpc_result) \<times> 'w"
where
  "handle_one_arg env arg_t str f ret w =
     (case unpack env arg_t str of
        Inl e \<Rightarrow> (Inl e, w)
      | Inr a \<Rightarrow> call_handler env (is_void_v (h_ret f)) f [a] ret w)"

definition handle_more_args ::
  "codec_env \<Rightarrow> ctype list \<Rightarrow> bytes \<Rightarrow> 'w handler \<Rightarrow> rpc_result \<Rightarrow> 'w \<Rightarrow> (exn + rpc_result) \<times> 'w"
where
  "handle_more_args env args_t str f ret w =
     (case unpack env (T_tuple args_t) str of
        Inl e \<Rightarrow> (Inl e, w)
      | Inr tp \<Rightarrow>
          call_handler env (is_void (h_ret f)) f (case tp of V_seq vs \<Rightarrow> vs | _ \<Rightarrow> []) ret w)"

text \<open>The closure that \<open>register_func_impl\<close> stores.\<close>

definition make_invoker :: "codec_env \<Rightarrow> 'w handler \<Rightarrow> 'w invoker" where
  "make_invoker env f str ret w =
     (case h_params f of
        [] \<Rightarrow> handle_zero_arg env f ret w
      | first_t # rest \<Rightarrow>
          if rest = [] \<and> is_basic_v first_t then handle_one_arg env first_t str f ret w
          else handle_more_args env (h_params f) str f ret w)"

text \<open>
  Whether the templates instantiate: the arguments can be unpacked, the result packed. The test in
  \<open>handle_more_args\<close> is \<open>std::is_void_v\<close>, so a coroutine without a result has no packable value there.
\<close>

definition handler_compiles :: "codec_env \<Rightarrow> 'w handler \<Rightarrow> bool" where
  "handler_compiles env f \<longleftrightarrow>
     (is_void_v (h_ret f) \<or> object_type (return_type_t (h_ret f)))
     \<and> (case h_params f of
          [] \<Rightarrow> True
        | first_t # rest \<Rightarrow>
            if rest = [] \<and> is_basic_v first_t then unpack_compiles env first_t
            else unpack_compiles env (T_tuple (h_params f)) \<and> h_ret f \<noteq> T_awaitable T_void)"

section \<open>Registration\<close>

definition register_func_impl :: "codec_env \<Rightarrow> u32 \<Rightarrow> 'w handler \<Rightarrow> 'w router \<Rightarrow> 'w router" where
  "register_func_impl env key f rt =
     rt\<lparr>map_invokers := (map_invokers rt)(key \<mapsto> make_invoker env f)\<rparr>"

definition register_handler_impl ::
  "codec_env \<Rightarrow> u32 \<Rightarrow> bytes \<Rightarrow> 'w handler \<Rightarrow> 'w router \<Rightarrow> exn + 'w router"
where
  "register_handler_impl env key name f rt =
     (if key2func_name rt key \<noteq> None then Inl (Std_exception ''duplicate registration key !'')
      else Inr (register_func_impl env key f (rt\<lparr>key2func_name := (key2func_name rt)(key \<mapsto> name)\<rparr>)))"

definition register_handler ::
  "codec_env \<Rightarrow> bytes \<Rightarrow> 'w handler \<Rightarrow> 'w router \<Rightarrow> exn + 'w router"
where
  "register_handler env name f rt = register_handler_impl env (hash_name name) name f rt"

definition remove_handler :: "bytes \<Rightarrow> 'w router \<Rightarrow> 'w router" where
  "remove_handler name rt =
     (let key = hash_name name
      in rt\<lparr>map_invokers := (map_invokers rt)(key := None), key2func_name := (key2func_name rt)(key := None)\<rparr>)"

text \<open>The overloads for a function given as template argument, and \<open>get_key\<close> of util.hpp.\<close>

definition get_key :: "compiler \<Rightarrow> string \<Rightarrow> u32 option" where
  "get_key c signature = map_option (\<lambda>name. hash_name (str_bytes name)) (get_func_name c signature)"

definition register_handler_func ::
  "codec_env \<Rightarrow> compiler \<Rightarrow> string \<Rightarrow> 'w handler \<Rightarrow> 'w router \<Rightarrow> (exn + 'w router) option"
where
  "register_handler_func env c signature f rt =
     map_option (\<lambda>name. register_handler env (str_bytes name) f rt) (get_func_name c signature)"

definition remove_handler_func :: "compiler \<Rightarrow> string \<Rightarrow> 'w router \<Rightarrow> 'w router option" where
  "remove_handler_func c signature rt =
     map_option (\<lambda>name. remove_handler (str_bytes name) rt) (get_func_name c signature)"

section \<open>Dispatch\<close>

definition get_name_by_key :: "'w router \<Rightarrow> u32 \<Rightarrow> bytes" where
  "get_name_by_key rt key =
     (case key2func_name rt key of Some name \<Rightarrow> name | None \<Rightarrow> to_string (uint key))"

definition route :: "'w router \<Rightarrow> u32 \<Rightarrow> bytes \<Rightarrow> 'w \<Rightarrow> rpc_result \<times> 'w" where
  "route rt key data w =
     (let route_result = rpc_result_init in
      case map_invokers rt key of
        None \<Rightarrow>
          (route_result\<lparr>rr_result := str_bytes ''unknown function: '' @ get_name_by_key rt key,
                        rr_ec := no_such_function\<rparr>, w)
      | Some invoker \<Rightarrow>
          (case invoker data route_result w of
             (Inr r, w') \<Rightarrow> (r\<lparr>rr_ec := ok\<rparr>, w')
           | (Inl (Std_exception what), w') \<Rightarrow>
               (route_result\<lparr>rr_result := str_bytes (''exception occur when call'' @ what),
                             rr_ec := function_exception\<rparr>, w')
           | (Inl Unknown_exception, w') \<Rightarrow>
               (route_result\<lparr>rr_result := str_bytes ''unknown exception occur when call ''
                                             @ get_name_by_key rt key,
                             rr_ec := function_unknown_exception\<rparr>, w')))"

section \<open>The table stays consistent\<close>

text \<open>Both tables have the same keys, and a key is the digest of the name it was registered under.\<close>

definition router_inv :: "'w router \<Rightarrow> bool" where
  "router_inv rt \<longleftrightarrow> dom (map_invokers rt) = dom (key2func_name rt)
     \<and> (\<forall>key name. key2func_name rt key = Some name \<longrightarrow> hash_name name = key)"

text \<open>The contract of a handler table, with keys that may identify names.\<close>

locale handler_table =
  fixes inv :: "'r \<Rightarrow> bool"
    and find :: "'r \<Rightarrow> 'n \<Rightarrow> 'i option"
    and made :: "'h \<Rightarrow> 'i"
    and register :: "'n \<Rightarrow> 'h \<Rightarrow> 'r \<Rightarrow> 'e + 'r"
    and remove :: "'n \<Rightarrow> 'r \<Rightarrow> 'r"
    and same :: "'n \<Rightarrow> 'n \<Rightarrow> bool"
  assumes same_refl: "same n n"
    and find_same: "inv r \<Longrightarrow> same m n \<Longrightarrow> find r m = find r n"
    and register_fresh: "inv r \<Longrightarrow> find r n = None \<Longrightarrow>
      \<exists>r'. register n h r = Inr r' \<and> inv r' \<and> (\<forall>m. find r' m = (if same m n then Some (made h) else find r m))"
    and register_duplicate: "inv r \<Longrightarrow> find r n \<noteq> None \<Longrightarrow> \<exists>e. register n h r = Inl e"
    and remove_inv: "inv r \<Longrightarrow> inv (remove n r)"
    and find_remove: "inv r \<Longrightarrow> find (remove n r) m = (if same m n then None else find r m)"
begin

lemma register_inv: "inv r \<Longrightarrow> register n h r = Inr r' \<Longrightarrow> inv r'"
  by (metis Inl_Inr_False register_duplicate register_fresh sum.inject(2))

lemma find_register:
  "inv r \<Longrightarrow> register n h r = Inr r' \<Longrightarrow> find r' m = (if same m n then Some (made h) else find r m)"
  by (metis Inl_Inr_False register_duplicate register_fresh sum.inject(2))

lemma register_iff: "inv r \<Longrightarrow> (\<exists>r'. register n h r = Inr r') \<longleftrightarrow> find r n = None"
  by (metis Inl_Inr_False register_duplicate register_fresh)

lemma register_again_fails:
  "inv r \<Longrightarrow> register n h r = Inr r' \<Longrightarrow> same m n \<Longrightarrow> \<exists>e. register m h' r' = Inl e"
  by (metis find_register option.distinct(1) register_duplicate register_inv)

lemma register_after_remove:
  "inv r \<Longrightarrow> \<exists>r'. register n h (remove n r) = Inr r' \<and> find r' n = Some (made h)"
  by (metis find_remove register_fresh remove_inv same_refl)

lemma remove_after_register:
  "inv r \<Longrightarrow> register n h r = Inr r' \<Longrightarrow> find (remove n r') m = find r m"
  by (metis Inl_Inr_False find_register find_remove find_same register_duplicate register_inv)

end

lemma router_inv_empty: "router_inv empty_router"
  by (simp add: router_inv_def empty_router_def)

lemma router_inv_dom: "router_inv rt \<Longrightarrow> key2func_name rt k = None \<longleftrightarrow> map_invokers rt k = None"
  unfolding router_inv_def by (metis domIff)

lemma router_inv_agree: "router_inv rt \<Longrightarrow> map_invokers rt k = None \<Longrightarrow> key2func_name rt k = None"
  by (simp add: router_inv_dom)

interpretation router: handler_table router_inv "\<lambda>rt n. map_invokers rt (hash_name n)" "make_invoker env"
  "register_handler env" remove_handler "\<lambda>m n. hash_name m = hash_name n"
  for env
proof unfold_locales
  fix rt :: "'w router" and n f assume "router_inv rt" "map_invokers rt (hash_name n) = None"
  then show "\<exists>rt'. register_handler env n f rt = Inr rt' \<and> router_inv rt' \<and>
      (\<forall>m. map_invokers rt' (hash_name m) =
         (if hash_name m = hash_name n then Some (make_invoker env f) else map_invokers rt (hash_name m)))"
    using router_inv_agree [of rt "hash_name n"]
    by (auto simp: register_handler_def register_handler_impl_def register_func_impl_def router_inv_def)
next
  fix rt :: "'w router" and n f assume "router_inv rt" "map_invokers rt (hash_name n) \<noteq> None"
  then show "\<exists>e. register_handler env n f rt = Inl e"
    using router_inv_dom [of rt "hash_name n"] by (simp add: register_handler_def register_handler_impl_def)
qed (auto simp: remove_handler_def router_inv_def Let_def dom_def)

text \<open>Programs register and remove handlers in any order; a failed registration changes nothing.\<close>

datatype 'w table_op = Register bytes "'w handler" | Remove bytes

fun table_step :: "codec_env \<Rightarrow> 'w table_op \<Rightarrow> 'w router \<Rightarrow> 'w router" where
  "table_step env (Register name f) rt =
     (case register_handler env name f rt of Inl _ \<Rightarrow> rt | Inr rt' \<Rightarrow> rt')"
| "table_step env (Remove name) rt = remove_handler name rt"

lemma table_step_inv: "router_inv rt \<Longrightarrow> router_inv (table_step env oper rt)"
  by (cases oper) (auto intro: router.remove_inv router.register_inv split: sum.splits)

lemma table_run_inv: "router_inv rt \<Longrightarrow> router_inv (fold (table_step env) ops rt)"
  by (induction ops arbitrary: rt) (simp_all add: table_step_inv)

text \<open>
  C18: after any sequence of registrations and removals the two tables of the router have the same
  keys and every key is the digest of the name it stands for, so that a request never finds a
  handler without a name nor a name without a handler.
\<close>

theorem router_tables_consistent:
  "dom (map_invokers (fold (table_step env) ops empty_router))
     = dom (key2func_name (fold (table_step env) ops empty_router))
   \<and> (\<forall>key name. key2func_name (fold (table_step env) ops empty_router) key = Some name \<longrightarrow> hash_name name = key)"
  using table_run_inv [OF router_inv_empty, of env ops] by (simp add: router_inv_def)

theorem router_tables_consistent_witness:
  "dom (map_invokers (fold (table_step (default_env True)) [Remove [97]] (empty_router :: nat router)))
     = dom (key2func_name (fold (table_step (default_env True)) [Remove [97]] (empty_router :: nat router)))"
  by (rule conjunct1 [OF router_tables_consistent])

text \<open>
  C22: registration succeeds exactly when no handler is registered under the same key. It then
  binds the key to the handler and leaves the others as they were, and a second registration under
  that key, by this or by a colliding name, is refused; removing the name afterwards restores
  every lookup.
\<close>

theorem register_handler_behaviour:
  assumes "router_inv rt"
  shows "case register_handler env name f rt of
      Inl e \<Rightarrow> map_invokers rt (hash_name name) \<noteq> None \<and> e = Std_exception ''duplicate registration key !''
    | Inr rt' \<Rightarrow> map_invokers rt (hash_name name) = None \<and> router_inv rt'
        \<and> (\<forall>m. map_invokers rt' (hash_name m) =
              (if hash_name m = hash_name name then Some (make_invoker env f) else map_invokers rt (hash_name m)))
        \<and> (\<forall>m g. hash_name m = hash_name name \<longrightarrow> (\<exists>e. register_handler env m g rt' = Inl e))
        \<and> (\<forall>m. map_invokers (remove_handler name rt') (hash_name m) = map_invokers rt (hash_name m))"
proof (cases "register_handler env name f rt")
  case (Inl e)
  then have "map_invokers rt (hash_name name) \<noteq> None"
    using router.register_iff [OF assms] by (metis Inl_Inr_False)
  moreover have "e = Std_exception ''duplicate registration key !''"
    using Inl by (auto simp: register_handler_def register_handler_impl_def split: if_splits)
  ultimately show ?thesis using Inl by simp
next
  case (Inr rt')
  note r = assms Inr
  have "map_invokers rt (hash_name name) = None" using router.register_iff [OF assms] Inr by blast
  then show ?thesis
    using Inr router.register_inv [OF r] router.find_register [OF r] router.register_again_fails [OF r]
      router.remove_after_register [OF r] by simp
qed

definition sample_handler :: "nat handler" where
  "sample_handler = \<lparr>h_params = [T_int32, T_int32], h_ret = T_int32, h_self = False,
     h_body = (\<lambda>args n. case args of [V_int a, V_int b] \<Rightarrow> (Inr (V_int (a + b)), Suc n)
                         | _ \<Rightarrow> (Inl Unknown_exception, n))\<rparr>"

theorem register_handler_behaviour_witness:
  "\<exists>rt'. register_handler (default_env True) (str_bytes ''add'') sample_handler empty_router = Inr rt'
     \<and> router_inv rt'"
  using register_handler_behaviour [OF router_inv_empty, where env = "default_env True"
      and name = "str_bytes ''add''" and f = sample_handler]
  by (simp add: register_handler_def register_handler_impl_def empty_router_def)

section \<open>Dispatch\<close>

text \<open>
  What a call means, without the wire: the handler's body on the arguments, its result packed, its
  exceptions turned into error results.
\<close>

definition call_spec :: "codec_env \<Rightarrow> 'w router \<Rightarrow> bytes \<Rightarrow> 'w handler \<Rightarrow> cval list \<Rightarrow> 'w \<Rightarrow> rpc_result \<times> 'w" where
  "call_spec env rt name f args w =
     (case h_body f args w of
        (Inr v, w') \<Rightarrow>
          (rpc_result_of_string (if is_void_v (h_ret f) then [] else pack_args env [(return_type_t (h_ret f), v)]), w')
      | (Inl (Std_exception what), w') \<Rightarrow>
          (\<lparr>rr_ec = function_exception, rr_result = str_bytes (''exception occur when call'' @ what), rr_view = []\<rparr>, w')
      | (Inl Unknown_exception, w') \<Rightarrow>
          (\<lparr>rr_ec = function_unknown_exception,
            rr_result = str_bytes ''unknown exception occur when call '' @ get_name_by_key rt (hash_name name),
            rr_view = []\<rparr>, w'))"

text \<open>
  Arguments a client can pass to the parameters: the same types up to references and qualifiers,
  a lone fundamental argument not by reference.
\<close>

definition passable :: "codec_env \<Rightarrow> codec_env \<Rightarrow> ctype list \<Rightarrow> (ctype \<times> cval) list \<Rightarrow> bool" where
  "passable cl sv ps args \<longleftrightarrow>
     map (remove_cvref \<circ> fst) args = ps \<and> has_types ps (map snd args)
     \<and> (case args of
          [] \<Rightarrow> True
        | (a, v) # rest \<Rightarrow>
            if rest = [] \<and> is_basic_v (remove_cvref a)
            then string_concept a \<or> is_fundamental a \<and> from_chars_type (remove_cvref a) \<noteq> None
            else sp_types ps \<and> user_codec_ok cl (T_tuple (map (fwd_ref \<circ> fst) args)) sv (T_tuple ps) (V_seq (map snd args)))"

lemma unpack_tuple:
  assumes "ps \<noteq> []" "sp_types ps" "has_types ps vs" "map (remove_cvref \<circ> fst) args = ps"
    and "user_codec_ok cl (T_tuple (map (fwd_ref \<circ> fst) args)) sv (T_tuple ps) (V_seq vs)"
  shows "unpack sv (T_tuple ps) (pack_args cl [(T_tuple (map (fwd_ref \<circ> fst) args), V_seq vs)]) = Inr (V_seq vs)"
  using assms(1 - 3, 5) sp.unpack_pack [of "T_tuple ps" "V_seq vs" "ce_debug cl"] assms(4) [symmetric]
  by (auto simp: unpack_def pack_args_def is_fundamental_def is_basic_v_def string_concept_def
      CharArray_def CharArrayRef_def user_codec_ok_def sp_serialize_forwarded)

lemma unpack_single_basic:
  assumes "is_basic_v (remove_cvref a)" "has_type (remove_cvref a) v"
    and "string_concept a \<or> is_fundamental a \<and> from_chars_type (remove_cvref a) \<noteq> None"
  shows "is_basic_v a \<and> unpack sv (remove_cvref a) (pack_one a v) = Inr v"
proof (cases "string_concept a")
  case True
  then have "remove_cvref a = T_string \<or> remove_cvref a = T_string_view"
    by (auto simp: string_concept_def split: ctype.splits)
  moreover from this obtain bs where "v = V_str bs"
    using assms(2) by (cases v) (auto simp del: has_type_remove_cvref)
  ultimately show ?thesis
    using True assms(2) pack_one_string [of a v]
    by (auto simp: is_basic_v_def unpack_def is_fundamental_def)
next
  case False
  then have f: "is_fundamental a" "from_chars_type (remove_cvref a) \<noteq> None" using assms(3) by auto
  then obtain i where i: "v = V_int i"
    using assms(2) by (cases "remove_cvref a" rule: from_chars_type.cases; cases v) auto
  have "pack_one a v = to_string i" by (simp add: i pack_one_def)
  then show ?thesis
    using unpack_text [of "remove_cvref a" i "[]" sv] f assms(2) i by (simp add: is_basic_v_def)
qed

lemma is_fundamental_cases:
  "is_fundamental a \<Longrightarrow> \<exists>s w. remove_cvref a \<in> {T_void, T_bool, T_char, T_int s w}"
  by (cases a; (simp add: is_fundamental_def; fail)?)
     (auto simp: is_fundamental_def remove_cvref_def split: ctype.splits)

lemma is_basic_remove_cvref: "is_basic_v a \<Longrightarrow> is_basic_v (remove_cvref a)"
  unfolding is_basic_v_def [of a]
proof (elim disjE)
  assume "is_fundamental a"
  then show ?thesis using is_fundamental_cases [of a] by (auto simp: is_basic_v_def is_fundamental_def)
qed (auto simp: is_basic_v_def string_concept_def CharArray_def CharArrayRef_def split: ctype.splits)

lemma call_handler_init:
  assumes "void = is_void_v (h_ret f)"
  shows "call_handler env void f args rpc_result_init w =
    (case h_body f args w of (Inl e, w') \<Rightarrow> (Inl e, w')
     | (Inr v, w') \<Rightarrow>
         (Inr (rpc_result_of_string (if is_void_v (h_ret f) then [] else pack_args env [(return_type_t (h_ret f), v)])), w'))"
  using assms by (auto simp: call_handler_def rpc_result_of_string_def rpc_result_init_def split: prod.splits sum.splits)

text \<open>The invoker of a handler that compiles, applied to a client's buffer, calls the handler.\<close>

lemma make_invoker_get_buffer:
  assumes "handler_compiles sv f" "passable cl sv (h_params f) args"
  shows "make_invoker sv f (get_buffer cl args) rpc_result_init w
    = call_handler sv (is_void_v (h_ret f)) f (map snd args) rpc_result_init w"
proof (cases args)
  case Nil
  then show ?thesis using assms(2) by (simp add: passable_def make_invoker_def handle_zero_arg_def)
next
  case (Cons av rest)
  obtain a v where av: "av = (a, v)" by fastforce
  have ps: "h_params f = remove_cvref a # map (remove_cvref \<circ> fst) rest"
    and ht: "has_types (h_params f) (map snd args)"
    and tm: "map (remove_cvref \<circ> fst) args = h_params f"
    using assms(2) Cons av by (auto simp: passable_def)
  show ?thesis
  proof (cases "rest = [] \<and> is_basic_v (remove_cvref a)")
    case True
    then have "is_basic_v a \<and> unpack sv (remove_cvref a) (pack_one a v) = Inr v"
      using assms(2) Cons av ht ps by (intro unpack_single_basic) (auto simp: passable_def)
    then show ?thesis
      using True Cons av ps by (simp add: make_invoker_def handle_one_arg_def get_buffer_def pack_args_def)
  next
    case False
    then have buf: "get_buffer cl args = pack_args cl [(T_tuple (map (fwd_ref \<circ> fst) args), V_seq (map snd args))]"
      using Cons av is_basic_remove_cvref [of a] by (cases rest) (auto simp: get_buffer_def)
    have "unpack sv (T_tuple (h_params f)) (get_buffer cl args) = Inr (V_seq (map snd args))"
      unfolding buf by (rule unpack_tuple) (use assms(2) Cons av False ps ht tm in \<open>auto simp: passable_def\<close>)
    moreover have "is_void (h_ret f) = is_void_v (h_ret f)"
      using assms(1) False ps by (cases "h_ret f")
        (auto simp: handler_compiles_def is_void_def is_void_v_def return_type_t_def remove_cvref_def split: if_splits)
    ultimately show ?thesis
      using False ps by (auto simp: make_invoker_def handle_more_args_def)
  qed
qed

lemma route_registered:
  assumes "map_invokers rt (hash_name name) = Some (make_invoker sv f)"
    and "handler_compiles sv f" "passable cl sv (h_params f) args"
  shows "route rt (hash_name name) (get_buffer cl args) w = call_spec sv rt name f (map snd args) w"
  using make_invoker_get_buffer [OF assms(2, 3)] call_handler_init [of "is_void_v (h_ret f)" f]
  by (simp add: route_def Let_def assms(1) call_spec_def rpc_result_of_string_def rpc_result_init_def
      split: prod.splits sum.splits exn.splits)

text \<open>
  C7: a request that carries the key of a registered function and the buffer a client made of
  matching arguments has exactly the effect of calling the function on those arguments: the result
  is packed, an exception becomes an error result with its text, the state changes as the handler
  changes it. This holds for functions with no, one or more parameters, coroutines and member
  functions, under any mix of debug and release builds.
\<close>

theorem route_refines_call:
  assumes "router_inv rt" "register_handler sv name f rt = Inr rt'" "handler_compiles sv f"
    and "passable cl sv (h_params f) args"
  shows "route rt' (hash_name name) (get_buffer cl args) w = call_spec sv rt' name f (map snd args) w"
  by (rule route_registered [OF _ assms(3, 4)])
     (use router.find_register [OF assms(1, 2)] in simp)

theorem route_refines_call_witness:
  "\<exists>rt'. route rt' (hash_name (str_bytes ''add''))
      (get_buffer (default_env False) [(T_lref T_int32, V_int 2), (T_int32, V_int 3)]) 0
    = (rpc_result_of_string (pack_args (default_env True) [(T_int32, V_int 5)]), Suc 0)"
proof -
  let ?f = sample_handler and ?args = "[(T_lref T_int32, V_int 2), (T_int32, V_int 3)]"
  obtain rt' where r: "register_handler (default_env True) (str_bytes ''add'') ?f empty_router = Inr rt'"
    by (auto simp: register_handler_def register_handler_impl_def empty_router_def)
  have c: "handler_compiles (default_env True) ?f"
    by (simp add: handler_compiles_def sample_handler_def return_type_t_def unpack_compiles_def is_fundamental_def)
  have "remove_cvref (T_lref T_int32) = T_int32" by (simp add: remove_cvref_def)
  then have p: "passable (default_env False) (default_env True) (h_params ?f) ?args"
    by (simp add: passable_def sample_handler_def in_range_def int_min_def int_max_def)
  have "call_spec (default_env True) rt' (str_bytes ''add'') ?f (map snd ?args) 0
      = (rpc_result_of_string (pack_args (default_env True) [(T_int32, V_int 5)]), Suc 0)"
    by (simp add: call_spec_def sample_handler_def is_void_v_def return_type_t_def)
  then show ?thesis using route_refines_call [OF router_inv_empty r c p, of 0] by auto
qed

text \<open>A user's codec is typed by the C++ compiler.\<close>

definition user_codec_typed :: "codec_env \<Rightarrow> bool" where
  "user_codec_typed env \<longleftrightarrow> (\<forall>t data v. has_user_pack env [t] \<longrightarrow> user_deserialize env t data = Inr v \<longrightarrow> has_type t v)"

lemma user_codec_typed_default [simp]: "user_codec_typed (default_env d)"
  by (simp add: user_codec_typed_def default_env_def)

lemma user_codec_typedD:
  "user_codec_typed env \<Longrightarrow> has_user_pack env [t] \<Longrightarrow> user_deserialize env t data = Inr v \<Longrightarrow> has_type t v"
  unfolding user_codec_typed_def by blast

lemma make_invoker_typed:
  assumes "handler_compiles env f" "user_codec_typed env" "no_bools (h_params f)" "length data < max_container"
    and "\<And>args w. has_types (h_params f) args \<Longrightarrow> h_body f args w = body args w"
  shows "make_invoker env f data ret w = make_invoker env (f\<lparr>h_body := body\<rparr>) data ret w"
proof -
  have call: "call_handler env void f args ret w = call_handler env void (f\<lparr>h_body := body\<rparr>) args ret w"
    if "has_types (h_params f) args" for void args
    using assms(5) [OF that] by (simp add: call_handler_def split: prod.split sum.split)
  show ?thesis
  proof (cases "h_params f")
    case Nil
    then show ?thesis using call [of "[]"] by (simp add: make_invoker_def handle_zero_arg_def)
  next
    case (Cons t rest)
    show ?thesis
    proof (cases "rest = [] \<and> is_basic_v t")
      case True
      have c: "unpack_compiles env t" "no_bool t" using assms(1, 3) Cons True by (simp_all add: handler_compiles_def)
      have "has_type t v" if u: "unpack env t data = Inr v" for v
        by (rule unpack_typed [OF c assms(4) u user_codec_typedD [OF assms(2)]])
      then show ?thesis using call Cons True
        by (auto simp: make_invoker_def handle_one_arg_def split: sum.splits)
    next
      case False
      have c: "unpack_compiles env (T_tuple (h_params f))" "no_bool (T_tuple (h_params f))"
        using assms(1, 3) Cons False by (simp_all add: handler_compiles_def)
      have "has_type (T_tuple (h_params f)) v" if u: "unpack env (T_tuple (h_params f)) data = Inr v" for v
        by (rule unpack_typed [OF c assms(4) u user_codec_typedD [OF assms(2)]])
      then have typed: "\<exists>vs. v = V_seq vs \<and> has_types (h_params f) vs" if "unpack env (T_tuple (h_params f)) data = Inr v" for v
        using that by (cases v) auto
      have "handle_more_args env (h_params f) data f ret w = handle_more_args env (h_params f) data (f\<lparr>h_body := body\<rparr>) ret w"
      proof (cases "unpack env (T_tuple (h_params f)) data")
        case (Inr v)
        then obtain vs where "v = V_seq vs" "has_types (h_params f) vs" using typed by blast
        then show ?thesis using call [of vs] Inr by (simp add: handle_more_args_def)
      qed (simp add: handle_more_args_def)
      then show ?thesis using Cons False by (auto simp: make_invoker_def)
    qed
  qed
qed

text \<open>
  C19: type safety of dispatch. Whatever bytes arrive, a handler is called only on values of its
  parameter types: a program whose handler differs from another one only on values outside those
  types cannot be told apart from it by any request. This is for parameters without \<open>bool\<close>, and
  rests on the user's codecs, where there are any, returning values of the type they are declared with.
\<close>

theorem handler_sees_typed_arguments:
  assumes "router_inv rt" "register_handler env name f rt = Inr rt1"
    and "register_handler env name (f\<lparr>h_body := body\<rparr>) rt = Inr rt2"
    and "handler_compiles env f" "user_codec_typed env" "no_bools (h_params f)" "length data < max_container"
    and "\<forall>args w. has_types (h_params f) args \<longrightarrow> h_body f args w = body args w"
  shows "route rt1 (hash_name name) data w = route rt2 (hash_name name) data w"
proof -
  have inv: "map_invokers rt1 (hash_name name) = Some (make_invoker env f)"
    "map_invokers rt2 (hash_name name) = Some (make_invoker env (f\<lparr>h_body := body\<rparr>))"
    using router.find_register [OF assms(1, 2), of name] router.find_register [OF assms(1, 3), of name] by simp_all
  have names: "get_name_by_key rt1 (hash_name name) = get_name_by_key rt2 (hash_name name)"
    using assms(2, 3) by (auto simp: register_handler_def register_handler_impl_def register_func_impl_def
        get_name_by_key_def split: if_splits)
  have "make_invoker env f data rpc_result_init w = make_invoker env (f\<lparr>h_body := body\<rparr>) data rpc_result_init w"
    using assms(8) by (intro make_invoker_typed [OF assms(4 - 7)]) blast
  then show ?thesis by (simp add: route_def Let_def inv names split: prod.split sum.split exn.split)
qed

theorem handler_sees_typed_arguments_witness:
  "\<exists>rt1 rt2. register_handler (default_env True) (str_bytes ''add'') sample_handler empty_router = Inr rt1
     \<and> register_handler (default_env True) (str_bytes ''add'')
          (sample_handler\<lparr>h_body := \<lambda>args w. if has_types (h_params sample_handler) args then h_body sample_handler args w
             else (Inl Unknown_exception, w)\<rparr>) empty_router = Inr rt2
     \<and> (\<forall>rt \<in> {rt1, rt2}. route rt (hash_name (str_bytes ''add''))
            (get_buffer (default_env False) [(T_lref T_int32, V_int 2), (T_int32, V_int 3)]) 5
          = (rpc_result_of_string (pack_args (default_env True) [(T_int32, V_int 5)]), Suc 5))"
proof -
  let ?f = sample_handler and ?args = "[(T_lref T_int32, V_int 2), (T_int32, V_int 3)]" and ?n = "str_bytes ''add''"
  let ?body = "\<lambda>args w. if has_types (h_params sample_handler) args then h_body sample_handler args w else (Inl Unknown_exception, w)"
  obtain rt1 where r1: "register_handler (default_env True) ?n ?f empty_router = Inr rt1"
    by (auto simp: register_handler_def register_handler_impl_def empty_router_def)
  obtain rt2 where r2: "register_handler (default_env True) ?n (?f\<lparr>h_body := ?body\<rparr>) empty_router = Inr rt2"
    by (auto simp: register_handler_def register_handler_impl_def empty_router_def)
  have c: "handler_compiles (default_env True) ?f"
    by (simp add: handler_compiles_def sample_handler_def return_type_t_def unpack_compiles_def is_fundamental_def)
  have rm: "remove_cvref (T_lref T_int32) = T_int32" by (simp add: remove_cvref_def)
  then have p: "passable (default_env False) (default_env True) (h_params ?f) ?args"
    by (simp add: passable_def sample_handler_def in_range_def int_min_def int_max_def)
  have "get_buffer (default_env False) ?args = sp_serialize False (T_tuple (map (remove_cvref \<circ> fst) ?args)) (V_seq (map snd ?args))"
    using get_buffer_tuple [of ?args False] by simp
  moreover have "length (sp_serialize False (T_tuple [T_int32, T_int32]) (V_seq [V_int 2, V_int 3])) < max_container"
    by (simp add: length_sp_serialize in_range_def int_min_def int_max_def get_serialize_runtime_info_def max_container_def)
  ultimately have len: "length (get_buffer (default_env False) ?args) < max_container" using rm by simp
  have "route rt1 (hash_name ?n) (get_buffer (default_env False) ?args) 5
      = (rpc_result_of_string (pack_args (default_env True) [(T_int32, V_int 5)]), Suc 5)"
    using route_registered [OF _ c p, where rt = rt1 and name = ?n and w = 5] router.find_register [OF router_inv_empty r1]
    by (simp add: call_spec_def sample_handler_def is_void_v_def return_type_t_def)
  moreover have "route rt1 (hash_name ?n) (get_buffer (default_env False) ?args) 5
      = route rt2 (hash_name ?n) (get_buffer (default_env False) ?args) 5"
    by (rule handler_sees_typed_arguments [OF router_inv_empty r1 r2 c _ _ len])
       (simp_all add: sample_handler_def)
  ultimately show ?thesis using r1 r2 by auto
qed

text \<open>
  A request with a key that no handler is registered under is answered with
  \<open>no_such_function\<close> and leaves the state alone. Its message names the function by the decimal key,
  also when the function was registered and removed before.
\<close>

theorem route_unknown_function:
  assumes "router_inv rt" "map_invokers rt key = None"
  shows "route rt key data w =
    (\<lparr>rr_ec = no_such_function, rr_result = str_bytes ''unknown function: '' @ to_string (uint key), rr_view = []\<rparr>, w)"
  using assms router_inv_agree [OF assms]
  by (simp add: route_def get_name_by_key_def rpc_result_init_def Let_def)

theorem route_unknown_function_witness:
  "route (remove_handler (str_bytes ''f'') (empty_router :: nat router)) 7 [] 0 =
    (\<lparr>rr_ec = no_such_function, rr_result = str_bytes ''unknown function: '' @ to_string (uint (7 :: u32)), rr_view = []\<rparr>, 0)"
  by (rule route_unknown_function)
     (simp_all add: router.remove_inv router_inv_empty, simp add: remove_handler_def empty_router_def Let_def)

lemma route_unpack_error:
  assumes "map_invokers rt key = Some (make_invoker env f)"
    and "h_params f \<noteq> []" "unpack env (if length (h_params f) = 1 \<and> is_basic_v (hd (h_params f))
           then hd (h_params f) else T_tuple (h_params f)) data = Inl (Std_exception what)"
  shows "route rt key data w =
    (\<lparr>rr_ec = function_exception, rr_result = str_bytes (''exception occur when call'' @ what), rr_view = []\<rparr>, w)"
proof (cases "h_params f")
  case (Cons p ps)
  have "make_invoker env f data rpc_result_init w = (Inl (Std_exception what), w)"
    using assms(3) Cons by (auto simp: make_invoker_def handle_one_arg_def handle_more_args_def)
  then show ?thesis by (simp add: route_def assms(1) Let_def rpc_result_init_def)
qed (use assms in simp)

text \<open>
  Arguments that cannot be unpacked never reach the handler: the state is unchanged and the
  answer is \<open>function_exception\<close> with the text of the codec's exception.
\<close>

theorem route_malformed_arguments:
  assumes "map_invokers rt key = Some (make_invoker env f)"
    and "h_params f \<noteq> []" "unpack env (if length (h_params f) = 1 \<and> is_basic_v (hd (h_params f))
           then hd (h_params f) else T_tuple (h_params f)) data = Inl (Std_exception what)"
  shows "route rt key data w =
    (\<lparr>rr_ec = function_exception, rr_result = str_bytes (''exception occur when call'' @ what), rr_view = []\<rparr>, w)"
  by (rule route_unpack_error [OF assms])

theorem route_malformed_arguments_witness:
  "route (empty_router\<lparr>map_invokers := [1 \<mapsto> make_invoker (default_env True) sample_handler]\<rparr>) 1 [] 0 =
    (\<lparr>rr_ec = function_exception,
      rr_result = str_bytes (''exception occur when call'' @ ''unpack failed: no buffer space''), rr_view = []\<rparr>, 0)"
  by (rule route_malformed_arguments [where env = "default_env True" and f = sample_handler])
     (simp_all add: sample_handler_def unpack_def is_fundamental_def default_env_def sp_deserialize_def
        deserialize_metainfo_def reader_read_def)

text \<open>
  An integer argument passed by a named variable is refused. The client deduces a reference
  type, which is not fundamental, and sends a struct_pack tuple; the server, whose parameter type is
  fundamental, reads decimal text. Whatever the value, the call ends in an exception result.
\<close>

theorem lvalue_argument_refused:
  "unpack (default_env dbg') T_int32 (get_buffer (default_env dbg) [(T_lref T_int32, V_int i)])
     = Inl (Std_exception ''unpack failed: Args not match!'')"
proof -
  have lit: "get_type_literal (T_tuple [T_lref T_int32]) = [253, 1, 255]" by simp
  have "hash_name [253, 1, 255] = 0x391add98" by (rule hash_name_value; code_simp)
  then have code: "get_types_code (T_tuple [T_lref T_int32]) = 0x391add98"
    unfolding get_types_code_def lit hash_name_def by simp
  have "\<not> is_basic_v (T_lref T_int32)" "\<not> is_basic_v (T_tuple [T_lref T_int32])"
    by (simp_all add: is_basic_v_def is_fundamental_def string_concept_def CharArray_def CharArrayRef_def remove_cvref_def)
  then have buf: "get_buffer (default_env dbg) [(T_lref T_int32, V_int i)]
      = sp_serialize dbg (T_tuple [T_lref T_int32]) (V_seq [V_int i])"
    by (simp add: get_buffer_def pack_args_def fwd_ref_def default_env_def)
  have "\<exists>rest. get_buffer (default_env dbg) [(T_lref T_int32, V_int i)] = (if dbg then 0x99 else 0x98) # rest"
  proof -
    have "le_bytes 4 (0x391add98 :: u32) = [0x98, 0xdd, 0x1a, 0x39]" by code_simp
    moreover have "le_bytes 4 (0x391add99 :: u32) = [0x99, 0xdd, 0x1a, 0x39]" by code_simp
    ultimately show ?thesis
      unfolding buf sp_serialize_def serialize_metainfo_def Let_def code
      by (cases dbg) (simp_all add: bs_code_simp)
  qed
  then obtain rest where "get_buffer (default_env dbg) [(T_lref T_int32, V_int i)] = (if dbg then 0x99 else 0x98) # rest" ..
  then show ?thesis
    by (simp add: unpack_def is_fundamental_def from_chars_def Let_def is_digit_def)
qed

text \<open>
  C20: between programs without codecs of their own, when the arguments travel as a tuple and the
  parameters are read as one, which is the case for all calls but those with a lone basic argument or
  parameter, a call is refused when the hash of the types of the arguments is not that of the
  parameters: the handler is not run, the answer is \<open>function_exception\<close> and the state is untouched,
  whatever the values and whichever build either side is. A lone basic argument carries no type: the
  text of a 64-bit integer is read as a 32-bit one where it fits. The client's check at compile time is weaker: it accepts
  what the parameters can be constructed from, such as a string literal for a \<open>std::string\<close>, but among
  several arguments the literal travels as an array.
\<close>

theorem mismatched_arguments_refused:
  assumes "map_invokers rt key = Some (make_invoker (default_env d) f)" "h_params f \<noteq> []"
    and "\<not> (length (h_params f) = 1 \<and> is_basic_v (hd (h_params f)))" "\<not> (case args of [(t, v)] \<Rightarrow> is_basic_v t | _ \<Rightarrow> args = [])"
    and "get_types_code (T_tuple (h_params f)) \<noteq> get_types_code (T_tuple (map (remove_cvref \<circ> fst) args))"
  shows "route rt key (get_buffer (default_env d') args) w =
    (\<lparr>rr_ec = function_exception,
      rr_result = str_bytes (''exception occur when call'' @ ''unpack failed: '' @ make_error_message invalid_buffer), rr_view = []\<rparr>, w)"
proof (rule route_unpack_error [OF assms(1, 2)])
  have "unpack (default_env d) (T_tuple (h_params f)) (get_buffer (default_env d') args)
      = Inl (Std_exception (''unpack failed: '' @ make_error_message invalid_buffer))"
    using sp_deserialize_other_type [OF assms(5), of d' "V_seq (map snd args)" "[]"] get_buffer_tuple [OF assms(4)]
    by (simp add: unpack_def is_fundamental_def default_env_def)
  then show "unpack (default_env d) (if length (h_params f) = 1 \<and> is_basic_v (hd (h_params f)) then hd (h_params f) else T_tuple (h_params f))
      (get_buffer (default_env d') args) = Inl (Std_exception (''unpack failed: '' @ make_error_message invalid_buffer))"
    using assms(3) by auto
qed

definition print_handler :: "nat handler" where
  "print_handler = \<lparr>h_params = [T_string, T_int32], h_ret = T_void, h_self = False, h_body = (\<lambda>args w. (Inr V_unit, Suc w))\<rparr>"

theorem mismatched_arguments_refused_witness:
  "rr_ec (fst (route (empty_router\<lparr>map_invokers := [1 \<mapsto> make_invoker (default_env True) print_handler]\<rparr>) 1
      (get_buffer (default_env True) [(T_lref (T_const (T_char_array 3)), V_str [104, 105, 0]), (T_int32, V_int 7)]) 0)) = function_exception"
proof -
  let ?args = "[(T_lref (T_const (T_char_array 3)), V_str [104, 105, 0]), (T_int32, V_int 7)]"
  have "hash_name (get_type_literal (T_tuple [T_string, T_int32])) = 0x081b904a" by (rule hash_name_value; code_simp)
  then have a: "get_types_code (T_tuple [T_string, T_int32]) = 0x081b904a AND 0xFFFFFFFE"
    unfolding get_types_code_def hash_name_def by simp
  have "hash_name (get_type_literal (T_tuple [T_char_array 3, T_int32])) = 0xc678795d" by (rule hash_name_value; code_simp)
  then have b: "get_types_code (T_tuple [T_char_array 3, T_int32]) = 0xc678795d AND 0xFFFFFFFE"
    unfolding get_types_code_def hash_name_def by simp
  have "get_types_code (T_tuple (h_params print_handler)) \<noteq> get_types_code (T_tuple (map (remove_cvref \<circ> fst) ?args))"
    by (simp add: print_handler_def remove_cvref_def a b)
  then show ?thesis
    by (subst mismatched_arguments_refused [where f = print_handler and d = True]) (simp_all add: print_handler_def)
qed

end
