(* ===== verification/Connection.thy ===== *)
theory Connection
  imports Net Protocol Router
begin

text \<open>
  A server-side connection, include/rest_rpc/rpc_connection.hpp: the read loop \<open>start\<close>, \<open>response\<close>,
  \<open>close\<close>, the thread-local \<open>tls_data\<close> and the \<open>rpc_context\<close> by which a handler answers later. The state
  a handler can touch is the \<open>world\<close>: the thread-local data, the clock, the quit callbacks that were
  made and the user's own state. \<open>asio::dispatch\<close> on the connection's executor runs at once, which
  is what it does on the connection's own thread; Shared_Connections queues it elsewhere. A request body larger than \<open>mem_limit\<close> makes the
  string's \<open>reserve\<close> throw.
\<close>

section \<open>Thread-local data and the world of the handlers\<close>

record tls_data =
  tls_conn :: "u64 option"
  tls_delay :: bool

record 'u world =
  w_tls :: tls_data
  w_now :: int
  w_quits :: "u64 list" \<comment> \<open>arguments of the calls of \<open>quit_cb_\<close>\<close>
  w_user :: 'u

text \<open>\<open>get_context\<close>: the instance of the current thread.\<close>

definition get_context :: "'u world \<Rightarrow> tls_data" where
  [simp]: "get_context w = w_tls w"

definition set_connection :: "u64 \<Rightarrow> 'u world \<Rightarrow> 'u world" where
  "set_connection conn w = w\<lparr>w_tls := (w_tls w)\<lparr>tls_conn := Some conn\<rparr>\<rparr>"

definition set_delay :: "bool \<Rightarrow> 'u world \<Rightarrow> 'u world" where
  "set_delay r w = w\<lparr>w_tls := (w_tls w)\<lparr>tls_delay := r\<rparr>\<rparr>"

lemma set_connection_quits [simp]: "w_quits (set_connection conn w) = w_quits w"
  by (simp add: set_connection_def)

lemma set_delay_quits [simp]: "w_quits (set_delay r w) = w_quits w"
  by (simp add: set_delay_def)

section \<open>The connection\<close>

record connection =
  c_socket :: socket
  c_id :: u64
  c_body :: bytes
  c_quit_cb :: bool
  c_has_closed :: bool
  c_last_rwtime :: int
  c_check_timeout :: bool
  c_cross_ending :: bool
  c_topic_id :: u32

definition new_connection :: "socket \<Rightarrow> u64 \<Rightarrow> bool \<Rightarrow> int \<Rightarrow> connection" where
  "new_connection s conn_id cross_ending now =
     \<lparr>c_socket = s, c_id = conn_id, c_body = [], c_quit_cb = False, c_has_closed = False,
      c_last_rwtime = now, c_check_timeout = False, c_cross_ending = cross_ending, c_topic_id = 0\<rparr>"

definition conn_topic_id :: "connection \<Rightarrow> u32" where
  [simp]: "conn_topic_id c = c_topic_id c"

definition get_last_rwtime :: "connection \<Rightarrow> int" where
  [simp]: "get_last_rwtime c = c_last_rwtime c"

definition set_quit_callback :: "connection \<Rightarrow> connection" where
  "set_quit_callback c = c\<lparr>c_quit_cb := True\<rparr>"

definition set_check_timeout :: "bool \<Rightarrow> connection \<Rightarrow> connection" where
  "set_check_timeout r c = c\<lparr>c_check_timeout := r\<rparr>"

definition set_last_time :: "'u world \<Rightarrow> connection \<Rightarrow> connection" where
  "set_last_time w c = (if c_check_timeout c then c\<lparr>c_last_rwtime := w_now w\<rparr> else c)"

definition conn_close :: "bool \<Rightarrow> connection \<Rightarrow> 'u world \<Rightarrow> connection \<times> 'u world" where
  "conn_close need_cb c w =
     (if c_has_closed c then (c, w)
      else (c\<lparr>c_socket := sk_close (c_socket c), c_has_closed := True\<rparr>,
            if need_cb \<and> c_quit_cb c then w\<lparr>w_quits := w_quits w @ [c_id c]\<rparr> else w))"

definition response_header :: "endian \<Rightarrow> bool \<Rightarrow> rpc_result \<Rightarrow> u32 \<Rightarrow> rest_rpc_header" where
  "response_header host cross res func_id =
     (let resp_header = init_header\<lparr>magic := 39\<rparr>;
          resp_header = (if func_id \<noteq> 0 then resp_header\<lparr>msg_type := 1, function_id := func_id\<rparr> else resp_header);
          resp_header = resp_header\<lparr>body_len := of_nat (rr_size res) + 1\<rparr>
      in if cross then prepare_for_send host resp_header else resp_header)"

definition response_frame :: "endian \<Rightarrow> bool \<Rightarrow> rpc_result \<Rightarrow> u32 \<Rightarrow> bytes" where
  "response_frame host cross res func_id =
     header_bytes host (response_header host cross res func_id) @ [errc_byte (rr_ec res)]
       @ (if \<not> rr_empty res then rr_data res else [])"

definition response ::
  "endian \<Rightarrow> rpc_result \<Rightarrow> u32 \<Rightarrow> connection \<Rightarrow> 'u world \<Rightarrow> error_code \<times> connection \<times> 'u world"
where
  "response host res func_id c w =
     (let c1 = set_last_time w c in
      case async_write (response_frame host (c_cross_ending c) res func_id) (c_socket c1) of
        (ec, s) \<Rightarrow>
          let c2 = c1\<lparr>c_socket := s\<rparr> in
          if ec_set ec then (ec, conn_close True c2 w) else (ec, c2, w))"

section \<open>The read loop\<close>

datatype loop_end =
    Closed \<comment> \<open>\<open>close(); break;\<close> after a failed read\<close>
  | Protocol_error \<comment> \<open>\<open>break\<close> after a bad magic number\<close>
  | Write_failed \<comment> \<open>\<open>break\<close> after \<open>response\<close> closed the connection\<close>
  | Terminated \<comment> \<open>an exception left the coroutine\<close>

text \<open>The second half of the loop's body: dispatch and, unless the handler puts it off, answer.\<close>

definition route_request ::
  "endian \<Rightarrow> 'u world router \<Rightarrow> u32 \<Rightarrow> connection \<Rightarrow> 'u world \<Rightarrow> loop_end option \<times> connection \<times> 'u world"
where
  "route_request host rt key c w =
     (case route rt key (c_body c) (set_connection (c_id c) w) of (res, w) \<Rightarrow>
      if tls_delay (w_tls w) then (None, c, set_delay False w)
      else
        case response host res 0 c w of (ec, c, w) \<Rightarrow>
        if ec_set ec then (Some Write_failed, c, w) else (None, c, w))"

text \<open>
  The first half: header and body. A subscription is dealt with on the spot; \<open>mem_limit\<close> is the
  largest body for which \<open>detail::resize\<close> finds memory.
\<close>

datatype frame =
    Frame_end loop_end
  | Frame_topic
  | Frame_request u32

definition read_frame :: "endian \<Rightarrow> nat \<Rightarrow> connection \<Rightarrow> 'u world \<Rightarrow> frame \<times> connection \<times> 'u world" where
  "read_frame host mem_limit c w =
     (let c = set_last_time w c in
      case async_read header_size (c_socket c) of (ec, hb, s) \<Rightarrow>
      let c = c\<lparr>c_socket := s\<rparr> in
      if ec_set ec then (Frame_end Closed, conn_close True c w)
      else
        let header = header_of_bytes host hb;
            header = (if c_cross_ending c then parse_recieved host header else header) in
        if magic header \<noteq> REST_MAGIC_NUM then (Frame_end Protocol_error, c, w)
        else if msg_type header = 1 then (Frame_topic, c\<lparr>c_topic_id := function_id header\<rparr>, w)
        else if mem_limit < unat (body_len header) then (Frame_end Terminated, c, w)
        else
          case (if 0 < unat (body_len header)
                then (case async_read (unat (body_len header)) (c_socket (set_last_time w c)) of
                        (ec, bs, s) \<Rightarrow> (ec, (set_last_time w c)\<lparr>c_socket := s, c_body := bs\<rparr>))
                else (no_error, c\<lparr>c_body := []\<rparr>)) of (ec, c) \<Rightarrow>
          if ec_set ec then (Frame_end Closed, conn_close True c w)
          else (Frame_request (function_id header), c, w))"

text \<open>One pass through the loop: \<open>None\<close> goes round again.\<close>

definition read_request ::
  "endian \<Rightarrow> nat \<Rightarrow> 'u world router \<Rightarrow> connection \<Rightarrow> 'u world \<Rightarrow> loop_end option \<times> connection \<times> 'u world"
where
  "read_request host mem_limit rt c w =
     (case read_frame host mem_limit c w of
        (Frame_end e, c, w) \<Rightarrow> (Some e, c, w)
      | (Frame_topic, c, w) \<Rightarrow> (None, c, w)
      | (Frame_request key, c, w) \<Rightarrow> route_request host rt key c w)"

lemma set_last_time_sel [simp]:
  "c_socket (set_last_time w c) = c_socket c" "c_id (set_last_time w c) = c_id c"
  "c_body (set_last_time w c) = c_body c" "c_quit_cb (set_last_time w c) = c_quit_cb c"
  "c_has_closed (set_last_time w c) = c_has_closed c" "c_cross_ending (set_last_time w c) = c_cross_ending c"
  "c_topic_id (set_last_time w c) = c_topic_id c" "c_check_timeout (set_last_time w c) = c_check_timeout c"
  by (simp_all add: set_last_time_def)

lemma conn_close_rx: "sk_rx (c_socket (fst (conn_close b c w))) = sk_rx (c_socket c)"
  by (simp add: conn_close_def)

lemma response_rx:
  "response host res k c w = (ec, c', w') \<Longrightarrow> sk_rx (c_socket c') = sk_rx (c_socket c)"
  using conn_close_rx
  by (auto simp: response_def conn_close_def Let_def split: prod.splits if_splits dest!: async_write_frame)

text \<open>A frame that does not end the loop takes at least a header from the stream.\<close>

lemma read_frame_consumes:
  assumes "read_frame host lim c w = (fr, c', w')" "\<And>e. fr \<noteq> Frame_end e"
  shows "length (sk_rx (c_socket c')) < length (sk_rx (c_socket c))" "w' = w"
proof -
  obtain ec hb s where r: "async_read header_size (c_socket c) = (ec, hb, s)"
    by (cases "async_read header_size (c_socket c)") auto
  have "\<not> ec_set ec" using assms r by (auto simp: read_frame_def Let_def split: if_splits)
  then have hs: "length (sk_rx s) < length (sk_rx (c_socket c))"
    using async_read_success [OF r] by (simp add: header_size_def)
  have "length (sk_rx (c_socket c')) \<le> length (sk_rx s)"
    using assms r \<open>\<not> ec_set ec\<close>
    by (auto simp: read_frame_def Let_def split: if_splits prod.splits dest!: async_read_frame)
  with hs show "length (sk_rx (c_socket c')) < length (sk_rx (c_socket c))" by simp
  show "w' = w" using assms r \<open>\<not> ec_set ec\<close>
    by (auto simp: read_frame_def Let_def split: if_splits prod.splits)
qed

lemma route_request_rx:
  "route_request host rt key c w = (r, c', w') \<Longrightarrow> sk_rx (c_socket c') = sk_rx (c_socket c)"
  by (auto simp: route_request_def split: if_splits prod.splits dest!: response_rx)

lemma read_request_consumes:
  assumes "read_request host lim rt c w = (None, c', w')"
  shows "length (sk_rx (c_socket c')) < length (sk_rx (c_socket c))"
proof -
  obtain fr c1 w1 where f: "read_frame host lim c w = (fr, c1, w1)" by (metis prod_cases3)
  then have "\<And>e. fr \<noteq> Frame_end e" using assms by (auto simp: read_request_def)
  then have "length (sk_rx (c_socket c1)) < length (sk_rx (c_socket c))" using read_frame_consumes [OF f] by blast
  moreover have "sk_rx (c_socket c') = sk_rx (c_socket c1)"
    using assms f by (cases fr) (auto simp: read_request_def dest: route_request_rx)
  ultimately show ?thesis by simp
qed

function start ::
  "endian \<Rightarrow> nat \<Rightarrow> 'u world router \<Rightarrow> connection \<Rightarrow> 'u world \<Rightarrow> loop_end \<times> connection \<times> 'u world"
where
  "start host lim rt c w =
     (case read_request host lim rt c w of
        (None, c', w') \<Rightarrow> start host lim rt c' w'
      | (Some e, c', w') \<Rightarrow> (e, c', w'))"
  by pat_completeness auto
termination
  by (relation "measure (\<lambda>(host, lim, rt, c, w). length (sk_rx (c_socket c)))")
     (auto dest: read_request_consumes [OF sym])

declare start.simps [simp del]

section \<open>Answering later\<close>

record rpc_context =
  ctx_conn :: "u64 option"
  ctx_has_response :: bool

text \<open>The constructor takes the connection of the current thread and asks for no answer now.\<close>

definition rpc_context_new :: "'u world \<Rightarrow> rpc_context \<times> 'u world" where
  "rpc_context_new w = (\<lparr>ctx_conn = tls_conn (get_context w), ctx_has_response = False\<rparr>, set_delay True w)"

text \<open>\<open>rpc_result result(pack_args(...))\<close>: from a view for strings and no arguments.\<close>

definition packed_result :: "codec_env \<Rightarrow> (ctype \<times> cval) list \<Rightarrow> rpc_result" where
  "packed_result env args =
     (if (case args of [] \<Rightarrow> True | [(t, _)] \<Rightarrow> CharArrayRef t \<or> CharArray t \<or> string_concept t | _ \<Rightarrow> False)
      then rpc_result_of_view (pack_args env args) else rpc_result_of_string (pack_args env args))"

text \<open>\<open>rpc_context::response\<close> on the connection \<open>c\<close> that the context holds.\<close>

definition ctx_response ::
  "endian \<Rightarrow> codec_env \<Rightarrow> (ctype \<times> cval) list \<Rightarrow> rpc_context \<Rightarrow> connection \<Rightarrow> 'u world
     \<Rightarrow> error_code \<times> rpc_context \<times> connection \<times> 'u world"
where
  "ctx_response host env args ctx c w =
     (if ctx_has_response ctx then (make_error_code has_response, ctx, c, w)
      else if ctx_conn ctx = None then (make_error_code rpc_context_init_failed, ctx, c, w)
      else case response host (packed_result env args) 0 c w of
             (ec, c', w') \<Rightarrow> (ec, ctx\<lparr>ctx_has_response := True\<rparr>, c', w'))"

text \<open>
  \<open>response_s<func>\<close> compiles only when the function's return type is constructible from the
  arguments, a question for the language: \<open>constructible\<close>.
\<close>

definition ctx_response_s ::
  "(ctype \<Rightarrow> ctype list \<Rightarrow> bool) \<Rightarrow> endian \<Rightarrow> codec_env \<Rightarrow> fn_traits \<Rightarrow> (ctype \<times> cval) list \<Rightarrow> rpc_context \<Rightarrow> connection
     \<Rightarrow> 'u world \<Rightarrow> (error_code \<times> rpc_context \<times> connection \<times> 'u world) option"
where
  "ctx_response_s constructible host env func args ctx c w =
     (if constructible (return_type func) (map fst args) then Some (ctx_response host env args ctx c w) else None)"

section \<open>Requests are answered in order\<close>

text \<open>A request as it travels: a header with the key and the length, and the body.\<close>

definition request_frame :: "endian \<Rightarrow> bool \<Rightarrow> u32 \<Rightarrow> bytes \<Rightarrow> bytes" where
  "request_frame host cross key body =
     (let header = init_header\<lparr>function_id := key, body_len := of_nat (length body)\<rparr>
      in header_bytes host (if cross then prepare_for_send host header else header) @ body)"

text \<open>What the handlers see and what goes back, for a sequence of requests.\<close>

fun serve :: "endian \<Rightarrow> bool \<Rightarrow> 'u world router \<Rightarrow> u64 \<Rightarrow> (u32 \<times> bytes) list \<Rightarrow> 'u world \<Rightarrow> bytes \<times> 'u world" where
  "serve host cross rt conn [] w = ([], w)"
| "serve host cross rt conn ((key, body) # reqs) w =
     (case route rt key body (set_connection conn w) of (res, w1) \<Rightarrow>
        if tls_delay (w_tls w1) then serve host cross rt conn reqs (set_delay False w1)
        else (case serve host cross rt conn reqs w1 of
                (out, w2) \<Rightarrow> (response_frame host cross res 0 @ out, w2)))"

lemma parse_prepare [simp]: "parse_recieved host (prepare_for_send host h) = h"
  by (simp add: prepare_for_send_def parse_recieved_def)

lemma async_write_success:
  "sk_open s \<Longrightarrow> sk_writes s = [] \<Longrightarrow> async_write bs s = (no_error, s\<lparr>sk_tx := sk_tx s @ bs\<rparr>)"
  by (simp add: async_write_def)

text \<open>One request, read from the front of what has arrived.\<close>

lemma read_frame_request:
  assumes "sk_open (c_socket c)" "sk_rx (c_socket c) = request_frame host (c_cross_ending c) key body @ r"
    and "length body \<le> lim" "length body < 2 ^ 64"
  shows "read_frame host lim c w =
    (Frame_request key, (set_last_time w c)\<lparr>c_socket := (c_socket c)\<lparr>sk_rx := r\<rparr>, c_body := body\<rparr>, w)"
proof -
  let ?h = "init_header\<lparr>function_id := key, body_len := of_nat (length body)\<rparr>"
  let ?h' = "if c_cross_ending c then prepare_for_send host ?h else ?h"
  have rd: "async_read header_size (c_socket c) = (no_error, header_bytes host ?h', (c_socket c)\<lparr>sk_rx := body @ r\<rparr>)"
    using assms(1, 2) by (intro async_read_full) (simp_all add: request_frame_def Let_def)
  have ln: "unat (of_nat (length body) :: u64) = length body"
    using assms(4) by (intro unat_of_nat_small) simp
  have rd2: "body \<noteq> [] \<Longrightarrow> async_read (length body) ((c_socket c)\<lparr>sk_rx := body @ r\<rparr>)
      = (no_error, body, (c_socket c)\<lparr>sk_rx := r\<rparr>)"
    using assms(1) async_read_full [of "(c_socket c)\<lparr>sk_rx := body @ r\<rparr>" body r "length body"] by simp
  show ?thesis
    using assms(3) rd2
    by (auto simp: read_frame_def rd Let_def ln init_header_def set_last_time_def split: prod.splits)
qed

lemma read_request_frame:
  assumes "sk_open (c_socket c)" "sk_rx (c_socket c) = request_frame host (c_cross_ending c) key body @ r"
    and "length body \<le> lim" "length body < 2 ^ 64"
  shows "read_request host lim rt c w =
    (let c1 = (set_last_time w c)\<lparr>c_socket := (c_socket c)\<lparr>sk_rx := r\<rparr>, c_body := body\<rparr> in
     case route rt key body (set_connection (c_id c) w) of (res, w1) \<Rightarrow>
       if tls_delay (w_tls w1) then (None, c1, set_delay False w1)
       else case response host res 0 c1 w1 of (ec, c2, w2) \<Rightarrow>
              (if ec_set ec then Some Write_failed else None, c2, w2))"
  by (auto simp: read_request_def read_frame_request [OF assms] route_request_def Let_def split: prod.splits)

lemma response_success:
  assumes "sk_open (c_socket c)" "sk_writes (c_socket c) = []"
  shows "response host res k c w =
    (no_error, (set_last_time w c)\<lparr>c_socket := (c_socket c)\<lparr>sk_tx := sk_tx (c_socket c)
        @ response_frame host (c_cross_ending c) res k\<rparr>\<rparr>, w)"
  using assms by (simp add: response_def Let_def async_write_success)

text \<open>What a connection has to show of itself; the rest is bookkeeping of the loop.\<close>

definition serving :: "connection \<Rightarrow> u64 \<Rightarrow> bool \<Rightarrow> bool \<Rightarrow> bool" where
  "serving c conn cross cb \<longleftrightarrow> sk_open (c_socket c) \<and> \<not> c_has_closed c \<and> sk_writes (c_socket c) = []
     \<and> c_id c = conn \<and> c_cross_ending c = cross \<and> c_quit_cb c = cb"

text \<open>A pass of the loop that goes on.\<close>

definition read_step ::
  "endian \<Rightarrow> nat \<Rightarrow> 'u world router \<Rightarrow> connection \<times> 'u world \<Rightarrow> connection \<times> 'u world \<Rightarrow> bool"
where
  "read_step host lim rt cw cw' \<longleftrightarrow> read_request host lim rt (fst cw) (snd cw) = (None, cw')"

lemma start_read_step: "read_step host lim rt (c, w) (c', w') \<Longrightarrow> start host lim rt c w = start host lim rt c' w'"
  by (subst start.simps) (simp add: read_step_def)

lemma start_read_steps: "(read_step host lim rt)\<^sup>*\<^sup>* (c, w) (c', w') \<Longrightarrow> start host lim rt c w = start host lim rt c' w'"
  by (induction rule: rtranclp_induct2) (auto dest: start_read_step)

lemma read_step_request:
  assumes "serving c conn cross cb" "sk_rx (c_socket c) = request_frame host cross key body @ r"
    and "length body \<le> lim" "length body < 2 ^ 64"
  obtains c' res w1 where "route rt key body (set_connection conn w) = (res, w1)"
    and "serving c' conn cross cb" "sk_rx (c_socket c') = r" "c_topic_id c' = c_topic_id c"
    and "sk_tx (c_socket c') = sk_tx (c_socket c)
       @ (if tls_delay (w_tls w1) then [] else response_frame host cross res 0)"
    and "read_step host lim rt (c, w) (c', if tls_delay (w_tls w1) then set_delay False w1 else w1)"
proof -
  obtain res w1 where rt: "route rt key body (set_connection conn w) = (res, w1)" by fastforce
  let ?c1 = "(set_last_time w c)\<lparr>c_socket := (c_socket c)\<lparr>sk_rx := r\<rparr>, c_body := body\<rparr>"
  have rq: "read_request host lim rt c w =
      (if tls_delay (w_tls w1) then (None, ?c1, set_delay False w1)
       else case response host res 0 ?c1 w1 of (ec, c2, w2) \<Rightarrow> (if ec_set ec then Some Write_failed else None, c2, w2))"
    using read_request_frame [of c host key body r lim rt w] assms rt by (simp add: serving_def Let_def)
  show ?thesis
  proof (cases "tls_delay (w_tls w1)")
    case True
    then show ?thesis using that [of res w1 ?c1] rt rq assms(1) by (simp add: serving_def read_step_def)
  next
    case False
    let ?c2 = "(set_last_time w1 ?c1)\<lparr>c_socket := (c_socket ?c1)\<lparr>sk_tx := sk_tx (c_socket ?c1)
        @ response_frame host (c_cross_ending ?c1) res 0\<rparr>\<rparr>"
    have "response host res 0 ?c1 w1 = (no_error, ?c2, w1)"
      by (rule response_success) (use assms(1) in \<open>simp_all add: serving_def\<close>)
    then have "read_request host lim rt c w = (None, ?c2, w1)"
      using rq False by simp
    then show ?thesis using that [of res w1 ?c2] rt False assms(1) by (simp add: serving_def read_step_def)
  qed
qed

lemma read_steps_requests:
  assumes "serving c conn cross cb"
    and "sk_rx (c_socket c) = concat (map (\<lambda>(key, body). request_frame host cross key body) reqs) @ r"
    and "\<forall>(key, body) \<in> set reqs. length body \<le> lim \<and> length body < 2 ^ 64"
  shows "\<exists>c'. serving c' conn cross cb \<and> sk_rx (c_socket c') = r \<and> c_topic_id c' = c_topic_id c
    \<and> sk_tx (c_socket c') = sk_tx (c_socket c) @ fst (serve host cross rt conn reqs w)
    \<and> (read_step host lim rt)\<^sup>*\<^sup>* (c, w) (c', snd (serve host cross rt conn reqs w))"
  using assms
proof (induction reqs arbitrary: c w)
  case Nil
  then show ?case by auto
next
  case (Cons req reqs)
  obtain key body where req: "req = (key, body)" by fastforce
  let ?r = "concat (map (\<lambda>(key, body). request_frame host cross key body) reqs) @ r"
  obtain c1 res w1 where s: "route rt key body (set_connection conn w) = (res, w1)"
    and s1: "serving c1 conn cross cb" "sk_rx (c_socket c1) = ?r" "c_topic_id c1 = c_topic_id c"
    and tx: "sk_tx (c_socket c1) = sk_tx (c_socket c)
       @ (if tls_delay (w_tls w1) then [] else response_frame host cross res 0)"
    and st: "read_step host lim rt (c, w) (c1, if tls_delay (w_tls w1) then set_delay False w1 else w1)"
    by (rule read_step_request [of c conn cross cb host key body ?r lim rt w]) (use Cons.prems req in auto)
  obtain c2 where c2: "serving c2 conn cross cb" "sk_rx (c_socket c2) = r" "c_topic_id c2 = c_topic_id c1"
    "sk_tx (c_socket c2) = sk_tx (c_socket c1)
       @ fst (serve host cross rt conn reqs (if tls_delay (w_tls w1) then set_delay False w1 else w1))"
    "(read_step host lim rt)\<^sup>*\<^sup>* (c1, if tls_delay (w_tls w1) then set_delay False w1 else w1)
       (c2, snd (serve host cross rt conn reqs (if tls_delay (w_tls w1) then set_delay False w1 else w1)))"
    using Cons.IH [OF s1(1, 2), of "if tls_delay (w_tls w1) then set_delay False w1 else w1"] Cons.prems(3) by auto
  have "(read_step host lim rt)\<^sup>*\<^sup>* (c, w)
       (c2, snd (serve host cross rt conn reqs (if tls_delay (w_tls w1) then set_delay False w1 else w1)))"
    using st c2(5) by (rule converse_rtranclp_into_rtranclp)
  then show ?case using c2(1 - 4) s s1(3) tx req by (intro exI [of _ c2]) (auto split: prod.splits)
qed

lemma start_requests:
  assumes "serving c conn cross cb"
    and "sk_rx (c_socket c) = concat (map (\<lambda>(key, body). request_frame host cross key body) reqs) @ r"
    and "\<forall>(key, body) \<in> set reqs. length body \<le> lim \<and> length body < 2 ^ 64"
  shows "\<exists>c'. serving c' conn cross cb \<and> sk_rx (c_socket c') = r \<and> c_topic_id c' = c_topic_id c
    \<and> sk_tx (c_socket c') = sk_tx (c_socket c) @ fst (serve host cross rt conn reqs w)
    \<and> start host lim rt c w = start host lim rt c' (snd (serve host cross rt conn reqs w))"
  using read_steps_requests [OF assms, of rt w] start_read_steps by blast

text \<open>The stream ends: too little is left for a header.\<close>

lemma start_end_of_stream:
  assumes "serving c conn cross cb" "length (sk_rx (c_socket c)) < header_size"
  shows "\<exists>c'. start host lim rt c w = (Closed, c', if cb then w\<lparr>w_quits := w_quits w @ [conn]\<rparr> else w)
    \<and> c_has_closed c' \<and> \<not> sk_open (c_socket c') \<and> sk_tx (c_socket c') = sk_tx (c_socket c)"
  using assms by (subst start.simps)
    (auto simp: serving_def read_request_def read_frame_def async_read_def header_size_def conn_close_def Let_def)

text \<open>
  C11: a connection answers the requests it receives in the order in which they arrive. From a
  stream of complete requests followed by an incomplete header or nothing, every request is
  dispatched exactly once, with its own body and with the connection in the thread-local data;
  the answers go out in the same order, except for those that a handler has put off; and when the
  stream ends the socket is closed and the server is told exactly once. The loop returns on every
  finite stream.
\<close>

theorem connection_answers_in_order:
  assumes "serving c conn cross cb"
    and "sk_rx (c_socket c) = concat (map (\<lambda>(key, body). request_frame host cross key body) reqs) @ r"
    and "\<forall>(key, body) \<in> set reqs. length body \<le> lim \<and> length body < 2 ^ 64" "length r < header_size"
  shows "\<exists>c' w'. start host lim rt c w = (Closed, c', w') \<and> c_has_closed c' \<and> \<not> sk_open (c_socket c')
    \<and> sk_tx (c_socket c') = sk_tx (c_socket c) @ fst (serve host cross rt conn reqs w)
    \<and> w' = (let w1 = snd (serve host cross rt conn reqs w)
            in if cb then w1\<lparr>w_quits := w_quits w1 @ [conn]\<rparr> else w1)"
proof -
  let ?w1 = "snd (serve host cross rt conn reqs w)"
  obtain c1 where c1: "serving c1 conn cross cb" "sk_rx (c_socket c1) = r"
    and tx: "sk_tx (c_socket c1) = sk_tx (c_socket c) @ fst (serve host cross rt conn reqs w)"
    and st: "start host lim rt c w = start host lim rt c1 ?w1"
    using start_requests [OF assms(1 - 3), of rt w] by blast
  then show ?thesis
    using start_end_of_stream [OF c1(1), of host lim rt ?w1] assms(4) by (auto simp: Let_def)
qed

definition world0 :: "'u \<Rightarrow> 'u world" where
  "world0 u = \<lparr>w_tls = \<lparr>tls_conn = None, tls_delay = False\<rparr>, w_now = 0, w_quits = [], w_user = u\<rparr>"

theorem connection_answers_in_order_witness:
  "\<exists>c' w'. start Little 1000 empty_router
      (set_quit_callback (new_connection (fresh_socket (request_frame Little False 5 [49] @ request_frame Little False 6 [])) 1 False 0))
      (world0 ()) = (Closed, c', w')
    \<and> sk_tx (c_socket c') = fst (serve Little False empty_router 1 [(5, [49]), (6, [])] (world0 ()))
    \<and> w_quits w' = [1]"
  using connection_answers_in_order [of
      "set_quit_callback (new_connection (fresh_socket (request_frame Little False 5 [49] @ request_frame Little False 6 [])) 1 False 0)"
      1 False True Little "[(5, [49]), (6, [])]" "[]" 1000 empty_router "world0 ()"]
  by (auto simp: serving_def set_quit_callback_def new_connection_def fresh_socket_def header_size_def
      world0_def route_def empty_router_def set_connection_def Let_def)

text \<open>
  A request whose body is cut off is never dispatched: the loop closes the connection, no
  handler runs and nothing is written.
\<close>

theorem truncated_request_not_dispatched:
  assumes "serving c conn cross cb" "request_frame host cross key body = sk_rx (c_socket c) @ missing"
    and "missing \<noteq> []" "length body \<le> lim" "length body < 2 ^ 64"
  shows "\<exists>c'. start host lim rt c w = (Closed, c', if cb then w\<lparr>w_quits := w_quits w @ [conn]\<rparr> else w)
    \<and> c_has_closed c' \<and> \<not> sk_open (c_socket c') \<and> sk_tx (c_socket c') = sk_tx (c_socket c)"
proof (cases "length (sk_rx (c_socket c)) < header_size")
  case True
  then show ?thesis using start_end_of_stream [OF assms(1)] by blast
next
  case False
  let ?h = "init_header\<lparr>function_id := key, body_len := of_nat (length body)\<rparr>"
  let ?h' = "if cross then prepare_for_send host ?h else ?h"
  define b where "b = drop header_size (sk_rx (c_socket c))"
  have "take header_size (sk_rx (c_socket c) @ missing) = take header_size (request_frame host cross key body)"
    using assms(2) by simp
  then have tk: "take header_size (sk_rx (c_socket c)) = header_bytes host ?h'"
    using False by (simp add: request_frame_def Let_def)
  then have rx: "sk_rx (c_socket c) = header_bytes host ?h' @ b"
    unfolding b_def by (metis append_take_drop_id)
  then have "body = b @ missing" using assms(2) by (simp add: request_frame_def Let_def)
  then have lb: "length b < length body" using assms(3) by simp
  have ln: "unat (of_nat (length body) :: u64) = length body"
    using assms(5) by (intro unat_of_nat_small) simp
  have rd: "async_read header_size (c_socket c) = (no_error, header_bytes host ?h', (c_socket c)\<lparr>sk_rx := b\<rparr>)"
    using assms(1) rx by (intro async_read_full) (simp_all add: serving_def)
  have rd2: "async_read (length body) ((c_socket c)\<lparr>sk_rx := b\<rparr>)
      = (as_error (sk_end (c_socket c)), b, (c_socket c)\<lparr>sk_rx := []\<rparr>)"
    using assms(1) lb by (auto simp: serving_def async_read_def)
  have "parse_recieved host ?h' = ?h \<or> \<not> cross" by simp
  then show ?thesis
    using assms(1, 4) lb rd rd2 ln
    by (subst start.simps) (auto simp: serving_def read_request_def read_frame_def conn_close_def Let_def init_header_def)
qed

theorem truncated_request_not_dispatched_witness:
  "\<exists>c'. start Little 1000 empty_router
      (new_connection (fresh_socket (take 33 (request_frame Little False 5 [49, 50]))) 1 False 0) (world0 ())
    = (Closed, c', world0 ())"
proof -
  let ?f = "request_frame Little False 5 [49, 50]"
  have "?f = take 33 ?f @ drop 33 ?f" "drop 33 ?f \<noteq> []"
    by (simp_all add: request_frame_def Let_def header_size_def)
  then show ?thesis
    using truncated_request_not_dispatched [of "new_connection (fresh_socket (take 33 ?f)) 1 False 0" 1 False False
        Little 5 "[49, 50]" "drop 33 ?f" 1000 empty_router "world0 ()"]
    by (auto simp: serving_def new_connection_def fresh_socket_def)
qed

section \<open>Protocol errors and subscriptions\<close>

text \<open>The header of a frame at the front of the stream, as the loop sees it.\<close>

lemma read_request_header:
  assumes "sk_open (c_socket c)" "sk_rx (c_socket c) = header_bytes host h @ r"
  shows "async_read header_size (c_socket c) = (no_error, header_bytes host h, (c_socket c)\<lparr>sk_rx := r\<rparr>)"
  using assms by (intro async_read_full) simp_all

lemma prepare_for_send_sel [simp]:
  "magic (prepare_for_send host h) = magic h" "msg_type (prepare_for_send host h) = msg_type h"
  "magic (parse_recieved host h) = magic h" "msg_type (parse_recieved host h) = msg_type h"
  by (simp_all add: prepare_for_send_def parse_recieved_def)

text \<open>
  A header with a wrong magic number ends the loop, but nothing is closed: the socket stays
  open, \<open>has_closed_\<close> stays false and the server is not told, so that the connection stays in its
  table with nobody reading from it.
\<close>

theorem protocol_error_leaks_connection:
  assumes "serving c conn cross cb" "sk_rx (c_socket c) = header_bytes host h @ r" "magic h \<noteq> REST_MAGIC_NUM"
  shows "\<exists>c'. start host lim rt c w = (Protocol_error, c', w) \<and> serving c' conn cross cb \<and> sk_rx (c_socket c') = r"
  using assms read_request_header [of c host h r]
  by (subst start.simps) (auto simp: serving_def read_request_def read_frame_def Let_def)

theorem protocol_error_leaks_connection_witness:
  "\<exists>c'. start Little 1000 empty_router
      (new_connection (fresh_socket (header_bytes Little (init_header\<lparr>magic := 0\<rparr>) @ [])) 1 False 0) (world0 ())
    = (Protocol_error, c', world0 ()) \<and> sk_open (c_socket c') \<and> \<not> c_has_closed c'"
  using protocol_error_leaks_connection [of
      "new_connection (fresh_socket (header_bytes Little (init_header\<lparr>magic := 0\<rparr>) @ [])) 1 False 0" 1 False False
      Little "init_header\<lparr>magic := 0\<rparr>" "[]" 1000 empty_router "world0 ()"]
  by (auto simp: serving_def new_connection_def fresh_socket_def REST_MAGIC_NUM_def)

text \<open>A subscription as it travels: a header of type 1 with the digest of the topic.\<close>

definition subscribe_frame :: "endian \<Rightarrow> bool \<Rightarrow> u32 \<Rightarrow> bytes" where
  "subscribe_frame host cross topic_id =
     (let header = init_header\<lparr>msg_type := 1, function_id := topic_id\<rparr>
      in header_bytes host (if cross then prepare_for_send host header else header))"

lemma read_step_subscribe:
  assumes "serving c conn cross cb" "sk_rx (c_socket c) = subscribe_frame host cross topic @ r"
  shows "\<exists>c'. read_step host lim rt (c, w) (c', w) \<and> serving c' conn cross cb
    \<and> sk_rx (c_socket c') = r \<and> c_topic_id c' = topic \<and> sk_tx (c_socket c') = sk_tx (c_socket c)"
proof -
  let ?h = "init_header\<lparr>msg_type := 1, function_id := topic\<rparr>"
  let ?h' = "if cross then prepare_for_send host ?h else ?h"
  let ?c = "(set_last_time w c)\<lparr>c_socket := (c_socket c)\<lparr>sk_rx := r\<rparr>, c_topic_id := topic\<rparr>"
  have "async_read header_size (c_socket c) = (no_error, header_bytes host ?h', (c_socket c)\<lparr>sk_rx := r\<rparr>)"
    using assms by (intro read_request_header) (simp_all add: serving_def subscribe_frame_def Let_def)
  moreover have "magic ?h = REST_MAGIC_NUM" by (simp add: init_header_def)
  ultimately have "read_request host lim rt c w = (None, ?c, w)"
    using assms(1) by (simp add: serving_def read_request_def read_frame_def Let_def set_last_time_def)
  then show ?thesis using assms(1) by (intro exI [of _ ?c]) (simp add: serving_def read_step_def)
qed

lemma start_subscribe:
  assumes "serving c conn cross cb" "sk_rx (c_socket c) = subscribe_frame host cross topic @ r"
  shows "\<exists>c'. start host lim rt c w = start host lim rt c' w \<and> serving c' conn cross cb
    \<and> sk_rx (c_socket c') = r \<and> c_topic_id c' = topic \<and> sk_tx (c_socket c') = sk_tx (c_socket c)"
  using read_step_subscribe [OF assms] start_read_step by blast

text \<open>
  A connection holds one topic only: after two subscriptions it is subscribed to the second and
  no longer to the first, and neither is acknowledged; requests that follow do not change this.
\<close>

theorem subscribing_again_replaces_topic:
  assumes "serving c conn cross cb"
    and "sk_rx (c_socket c) = subscribe_frame host cross topic1 @ subscribe_frame host cross topic2
           @ concat (map (\<lambda>(key, body). request_frame host cross key body) reqs) @ r"
    and "\<forall>(key, body) \<in> set reqs. length body \<le> lim \<and> length body < 2 ^ 64"
  shows "\<exists>c'. start host lim rt c w = start host lim rt c' (snd (serve host cross rt conn reqs w))
    \<and> sk_rx (c_socket c') = r \<and> c_topic_id c' = topic2
    \<and> sk_tx (c_socket c') = sk_tx (c_socket c) @ fst (serve host cross rt conn reqs w)"
proof -
  obtain c1 where c1: "start host lim rt c w = start host lim rt c1 w" "serving c1 conn cross cb"
    "sk_rx (c_socket c1) = subscribe_frame host cross topic2
           @ concat (map (\<lambda>(key, body). request_frame host cross key body) reqs) @ r"
    "sk_tx (c_socket c1) = sk_tx (c_socket c)"
    using start_subscribe [OF assms(1, 2)] by blast
  obtain c2 where c2: "start host lim rt c1 w = start host lim rt c2 w" "serving c2 conn cross cb"
    "sk_rx (c_socket c2) = concat (map (\<lambda>(key, body). request_frame host cross key body) reqs) @ r"
    "c_topic_id c2 = topic2" "sk_tx (c_socket c2) = sk_tx (c_socket c1)"
    using start_subscribe [OF c1(2, 3)] by blast
  show ?thesis using start_requests [OF c2(2, 3) assms(3), of rt w] c1 c2 by auto
qed

theorem subscribing_again_replaces_topic_witness:
  "\<exists>c'. start Little 1000 empty_router (new_connection (fresh_socket
        (subscribe_frame Little False 1 @ subscribe_frame Little False 2)) 1 False 0) (world0 ())
      = start Little 1000 empty_router c' (world0 ()) \<and> c_topic_id c' = 2"
  using subscribing_again_replaces_topic [of "new_connection (fresh_socket
        (subscribe_frame Little False 1 @ subscribe_frame Little False 2)) 1 False 0" 1 False False Little 1 2
        "[]" "[]" 1000 empty_router "world0 ()"]
  by (auto simp: serving_def new_connection_def fresh_socket_def)

section \<open>Closing and answering once\<close>

text \<open>What can happen to a connection from outside the loop, and one pass of the loop.\<close>

datatype conn_op =
    Op_close bool
  | Op_response rpc_result u32
  | Op_read

fun conn_op_step ::
  "endian \<Rightarrow> nat \<Rightarrow> 'u world router \<Rightarrow> conn_op \<Rightarrow> connection \<times> 'u world \<Rightarrow> connection \<times> 'u world"
where
  "conn_op_step host lim rt (Op_close need_cb) (c, w) = conn_close need_cb c w"
| "conn_op_step host lim rt (Op_response res k) (c, w) = snd (response host res k c w)"
| "conn_op_step host lim rt Op_read (c, w) = snd (read_request host lim rt c w)"

text \<open>A closed connection has a closed socket.\<close>

definition conn_inv :: "connection \<Rightarrow> bool" where
  "conn_inv c \<longleftrightarrow> (c_has_closed c \<longleftrightarrow> \<not> sk_open (c_socket c))"

text \<open>Handlers make no quit callbacks.\<close>

definition quits_kept :: "'u world router \<Rightarrow> bool" where
  "quits_kept rt \<longleftrightarrow> (\<forall>key data w. w_quits (snd (route rt key data w)) = w_quits w)"

text \<open>What one step may do to the pair of a connection and the callbacks made.\<close>

definition close_step :: "connection \<times> 'u world \<Rightarrow> connection \<times> 'u world \<Rightarrow> bool" where
  "close_step cw cw' \<longleftrightarrow> c_id (fst cw') = c_id (fst cw) \<and> (conn_inv (fst cw) \<longrightarrow> conn_inv (fst cw'))
     \<and> (c_has_closed (fst cw) \<longrightarrow> c_has_closed (fst cw') \<and> w_quits (snd cw') = w_quits (snd cw))
     \<and> (w_quits (snd cw') = w_quits (snd cw)
        \<or> c_has_closed (fst cw') \<and> w_quits (snd cw') = w_quits (snd cw) @ [c_id (fst cw)])"

lemma close_stepI:
  assumes "c_id c' = c_id c" "sk_open (c_socket c') = sk_open (c_socket c)" "c_has_closed c' = c_has_closed c"
    and "w_quits w' = w_quits w"
  shows "close_step (c, w) (c', w')"
  using assms by (simp add: close_step_def conn_inv_def)

lemma close_step_trans:
  assumes "c_id c' = c_id c" "sk_open (c_socket c') = sk_open (c_socket c)" "c_has_closed c' = c_has_closed c"
    and "w_quits w' = w_quits w" "close_step (c', w') cw"
  shows "close_step (c, w) cw"
  using assms by (simp add: close_step_def conn_inv_def)

lemma conn_close_step: "close_step (c, w) (conn_close b c w)"
  by (auto simp: close_step_def conn_close_def conn_inv_def)

lemma response_step: "close_step (c, w) (snd (response host res k c w))"
proof -
  obtain ec s where wr: "async_write (response_frame host (c_cross_ending c) res k) (c_socket c) = (ec, s)"
    by fastforce
  have s: "sk_open s = sk_open (c_socket c)" using async_write_frame [OF wr] by simp
  let ?c = "(set_last_time w c)\<lparr>c_socket := s\<rparr>"
  have "close_step (c, w) (conn_close True ?c w)" "close_step (c, w) (?c, w)"
    by (rule close_step_trans [OF _ _ _ _ conn_close_step] close_stepI; simp add: s)+
  then show ?thesis using wr by (auto simp: response_def Let_def)
qed

lemma route_quits:
  assumes "quits_kept rt" "route rt key data (set_connection i w) = (res, w1)"
  shows "w_quits w1 = w_quits w"
proof -
  have "w_quits (snd (route rt key data (set_connection i w))) = w_quits (set_connection i w)"
    using assms(1) unfolding quits_kept_def by blast
  then show ?thesis unfolding assms(2) by simp
qed

lemma route_request_step:
  assumes "quits_kept rt"
  shows "close_step (c, w) (snd (route_request host rt key c w))"
proof -
  obtain res w1 where r: "route rt key (c_body c) (set_connection (c_id c) w) = (res, w1)" by fastforce
  have q: "w_quits w1 = w_quits w" by (rule route_quits [OF assms r])
  have "close_step (c, w) (c, set_delay False w1)"
    by (rule close_stepI) (simp_all add: q set_delay_def)
  moreover have "close_step (c, w) (snd (response host res 0 c w1))"
    by (rule close_step_trans [OF _ _ _ _ response_step]) (simp_all add: q)
  ultimately show ?thesis using r by (auto simp: route_request_def split: prod.splits)
qed

lemma read_request_step:
  assumes "quits_kept rt"
  shows "close_step (c, w) (snd (read_request host lim rt c w))"
proof -
  obtain ec hb s where rd: "async_read header_size (c_socket c) = (ec, hb, s)" by (metis prod_cases3)
  let ?c = "(set_last_time w c)\<lparr>c_socket := s\<rparr>"
  define h where "h = (if c_cross_ending c then parse_recieved host (header_of_bytes host hb) else header_of_bytes host hb)"
  obtain ec2 bs s2 where rd2: "async_read (unat (body_len h)) s = (ec2, bs, s2)" by (metis prod_cases3)
  let ?c2 = "(set_last_time w ?c)\<lparr>c_socket := s2, c_body := bs\<rparr>"
  have o: "sk_open s = sk_open (c_socket c)" "sk_open s2 = sk_open (c_socket c)"
    using async_read_open [OF rd] async_read_open [OF rd2] by simp_all
  note sub = close_step_trans [where w = w and w' = w and c = c]
  have "close_step (c, w) (conn_close True ?c w)" "close_step (c, w) (conn_close True ?c2 w)"
    by (rule sub [OF _ _ _ _ conn_close_step]; simp add: o)+
  moreover have "close_step (c, w) (?c, w)" "close_step (c, w) (?c\<lparr>c_topic_id := function_id h\<rparr>, w)"
    by (rule close_stepI; simp add: o)+
  moreover have "close_step (c, w) (snd (route_request host rt (function_id h) ?c2 w))"
    "close_step (c, w) (snd (route_request host rt (function_id h) (?c\<lparr>c_body := []\<rparr>) w))"
    by (rule sub [OF _ _ _ _ route_request_step [OF assms]]; simp add: o)+
  ultimately show ?thesis
    using rd2 by (simp add: read_request_def read_frame_def Let_def rd h_def [symmetric])
qed

lemma conn_op_close_step: "quits_kept rt \<Longrightarrow> close_step cw (conn_op_step host lim rt oper cw)"
  by (cases cw; cases oper) (simp_all add: conn_close_step response_step read_request_step)

lemma conn_ops_stay_closed:
  assumes "quits_kept rt"
  shows "c_has_closed (fst cw) \<Longrightarrow> c_has_closed (fst (fold (conn_op_step host lim rt) ops cw))"
  by (induction ops arbitrary: cw)
     (use conn_op_close_step [OF assms] in \<open>auto simp: close_step_def\<close>)

text \<open>
  Whatever sequence of reads, answers (also by contexts and publications) and closings a
  connection goes through, the server's quit callback is made at most once, and never for a
  connection that was closed before; the connection counts as closed exactly when its socket is.
\<close>

theorem quit_callback_at_most_once:
  assumes "quits_kept rt" "fold (conn_op_step host lim rt) ops (c, w) = (c', w')"
  shows "(w_quits w' = w_quits w \<or> \<not> c_has_closed c \<and> c_has_closed c' \<and> w_quits w' = w_quits w @ [c_id c])
    \<and> (conn_inv c \<longrightarrow> conn_inv c')"
  using assms(2)
proof (induction ops arbitrary: c w)
  case (Cons oper ops)
  obtain c1 w1 where s: "conn_op_step host lim rt oper (c, w) = (c1, w1)" by fastforce
  have cs: "close_step (c, w) (c1, w1)"
    using conn_op_close_step [OF assms(1), of "(c, w)" host lim oper] s by simp
  have rest: "fold (conn_op_step host lim rt) ops (c1, w1) = (c', w')" using Cons.prems s by simp
  have "c_has_closed c1 \<Longrightarrow> c_has_closed c'"
    using conn_ops_stay_closed [OF assms(1), of "(c1, w1)" host lim ops] rest by simp
  then show ?case using Cons.IH [OF rest] cs by (auto simp: close_step_def)
qed simp

theorem quit_callback_at_most_once_witness:
  "\<exists>c' w'. fold (conn_op_step Little 10 empty_router) [Op_close True, Op_read, Op_close True]
      (set_quit_callback (new_connection (fresh_socket []) 4 False 0), world0 ()) = (c', w')
    \<and> (w_quits w' = [] \<or> w_quits w' = [4])"
proof -
  let ?c = "set_quit_callback (new_connection (fresh_socket []) 4 False 0)"
  obtain c' w' where f: "fold (conn_op_step Little 10 empty_router) [Op_close True, Op_read, Op_close True]
      (?c, world0 ()) = (c', w')" by fastforce
  have "quits_kept (empty_router :: unit world router)"
    by (simp add: quits_kept_def route_def empty_router_def Let_def)
  from quit_callback_at_most_once [OF this f] show ?thesis
    using f by (auto simp: world0_def set_quit_callback_def new_connection_def)
qed

section \<open>The server is told of every closing from inside\<close>

text \<open>A step that closes the connection makes the callback, if there is one; no other step does.\<close>

definition told_step :: "connection \<times> 'u world \<Rightarrow> connection \<times> 'u world \<Rightarrow> bool" where
  "told_step cw cw' \<longleftrightarrow> c_id (fst cw') = c_id (fst cw) \<and> c_quit_cb (fst cw') = c_quit_cb (fst cw)
     \<and> (\<not> c_has_closed (fst cw) \<longrightarrow> c_quit_cb (fst cw) \<longrightarrow>
          w_quits (snd cw') = w_quits (snd cw) @ (if c_has_closed (fst cw') then [c_id (fst cw)] else []))"

lemma told_stepI:
  assumes "c_id c' = c_id c" "c_quit_cb c' = c_quit_cb c" "c_has_closed c' = c_has_closed c" "w_quits w' = w_quits w"
  shows "told_step (c, w) (c', w')"
  using assms by (simp add: told_step_def)

lemma told_step_trans:
  assumes "c_id c' = c_id c" "c_quit_cb c' = c_quit_cb c" "c_has_closed c' = c_has_closed c" "w_quits w' = w_quits w"
    and "told_step (c', w') cw"
  shows "told_step (c, w) cw"
  using assms by (simp add: told_step_def)

lemma conn_close_told: "told_step (c, w) (conn_close True c w)"
  by (auto simp: told_step_def conn_close_def)

lemma response_told: "told_step (c, w) (snd (response host res k c w))"
proof -
  obtain ec s where wr: "async_write (response_frame host (c_cross_ending c) res k) (c_socket c) = (ec, s)"
    by fastforce
  let ?c = "(set_last_time w c)\<lparr>c_socket := s\<rparr>"
  have "told_step (c, w) (conn_close True ?c w)" "told_step (c, w) (?c, w)"
    by (rule told_step_trans [OF _ _ _ _ conn_close_told] told_stepI; simp)+
  then show ?thesis using wr by (auto simp: response_def Let_def)
qed

lemma route_request_told:
  assumes "quits_kept rt"
  shows "told_step (c, w) (snd (route_request host rt key c w))"
proof -
  obtain res w1 where r: "route rt key (c_body c) (set_connection (c_id c) w) = (res, w1)" by fastforce
  have q: "w_quits w1 = w_quits w" by (rule route_quits [OF assms r])
  have "told_step (c, w) (c, set_delay False w1)"
    by (rule told_stepI) (simp_all add: q)
  moreover have "told_step (c, w) (snd (response host res 0 c w1))"
    by (rule told_step_trans [OF _ _ _ _ response_told]) (simp_all add: q)
  ultimately show ?thesis using r by (auto simp: route_request_def split: prod.splits)
qed

lemma read_request_told:
  assumes "quits_kept rt"
  shows "told_step (c, w) (snd (read_request host lim rt c w))"
proof -
  obtain ec hb s where rd: "async_read header_size (c_socket c) = (ec, hb, s)" by (metis prod_cases3)
  let ?c = "(set_last_time w c)\<lparr>c_socket := s\<rparr>"
  define h where "h = (if c_cross_ending c then parse_recieved host (header_of_bytes host hb) else header_of_bytes host hb)"
  obtain ec2 bs s2 where rd2: "async_read (unat (body_len h)) s = (ec2, bs, s2)" by (metis prod_cases3)
  let ?c2 = "(set_last_time w ?c)\<lparr>c_socket := s2, c_body := bs\<rparr>"
  note sub = told_step_trans [where w = w and w' = w and c = c]
  have "told_step (c, w) (conn_close True ?c w)" "told_step (c, w) (conn_close True ?c2 w)"
    by (rule sub [OF _ _ _ _ conn_close_told]; simp)+
  moreover have "told_step (c, w) (?c, w)" "told_step (c, w) (?c\<lparr>c_topic_id := function_id h\<rparr>, w)"
    by (rule told_stepI; simp)+
  moreover have "told_step (c, w) (snd (route_request host rt (function_id h) ?c2 w))"
    "told_step (c, w) (snd (route_request host rt (function_id h) (?c\<lparr>c_body := []\<rparr>) w))"
    by (rule sub [OF _ _ _ _ route_request_told [OF assms]]; simp)+
  ultimately show ?thesis
    using rd2 by (simp add: read_request_def read_frame_def Let_def rd h_def [symmetric])
qed

section \<open>Contexts\<close>

text \<open>A result made from a view and one made from a string travel alike.\<close>

lemma response_frame_data:
  "rr_ec r = rr_ec r' \<Longrightarrow> rr_data r = rr_data r' \<Longrightarrow> response_frame host cross r k = response_frame host cross r' k"
  using rr_data_empty [of r] rr_data_empty [of r']
  by (auto simp: response_frame_def response_header_def rr_size_data Let_def)

lemma response_frame_packed:
  "response_frame host cross (packed_result env args) k
     = response_frame host cross (rpc_result_of_string (pack_args env args)) k"
  by (rule response_frame_data)
     (simp_all add: packed_result_def, simp add: rpc_result_of_string_def rpc_result_of_view_def rpc_result_init_def)

text \<open>Several answers by one context, with the error codes they return.\<close>

fun ctx_responses ::
  "endian \<Rightarrow> codec_env \<Rightarrow> (ctype \<times> cval) list list \<Rightarrow> rpc_context \<Rightarrow> connection \<Rightarrow> 'u world
     \<Rightarrow> error_code list \<times> rpc_context \<times> connection \<times> 'u world"
where
  "ctx_responses host env [] ctx c w = ([], ctx, c, w)"
| "ctx_responses host env (args # others) ctx c w =
     (case ctx_response host env args ctx c w of (ec, ctx1, c1, w1) \<Rightarrow>
      case ctx_responses host env others ctx1 c1 w1 of (ecs, r) \<Rightarrow> (ec # ecs, r))"

lemma ctx_responses_after:
  "ctx_has_response ctx \<Longrightarrow>
     ctx_responses host env others ctx c w = (replicate (length others) (make_error_code has_response), ctx, c, w)"
  by (induction others) (simp_all add: ctx_response_def)

lemma rpc_context_new_delay: "tls_delay (w_tls (snd (rpc_context_new w)))"
  by (simp add: rpc_context_new_def set_delay_def)

text \<open>
  C23: a handler that creates a context puts off the answer: the pass of the loop that dispatches its request
  writes nothing, whatever the handler returns, and the loop goes on with what follows. The context holds the
  connection the request came from and answers exactly once on it, with the frame the loop would have written;
  every further attempt returns \<open>has_response\<close> and writes nothing. A context created where no connection
  was dispatched answers \<open>rpc_context_init_failed\<close>. \<open>w0\<close> is the world in which the handler creates its context.
\<close>

theorem context_answers_once:
  assumes "serving c conn cross cb" "sk_rx (c_socket c) = request_frame host cross key body @ r"
    and "length body \<le> lim" "length body < 2 ^ 64" "map_invokers rt key = Some (make_invoker env f)"
    and "make_invoker env f body rpc_result_init (set_connection conn w) = (out, w2)"
    and "rpc_context_new w0 = (ctx, w1)" "tls_conn (w_tls w0) = Some conn" "w_tls w2 = w_tls w1"
  shows "\<exists>c1. read_step host lim rt (c, w) (c1, set_delay False w2) \<and> start host lim rt c w = start host lim rt c1 (set_delay False w2)
    \<and> sk_rx (c_socket c1) = r \<and> sk_tx (c_socket c1) = sk_tx (c_socket c) \<and> ctx_conn ctx = Some (c_id c1)
    \<and> (\<exists>c2. ctx_responses host env (args # others) ctx c1 w3
            = (no_error # replicate (length others) (make_error_code has_response), ctx\<lparr>ctx_has_response := True\<rparr>, c2, w3)
        \<and> serving c2 conn cross cb \<and> sk_rx (c_socket c2) = r
        \<and> sk_tx (c_socket c2) = sk_tx (c_socket c) @ response_frame host cross (rpc_result_of_string (pack_args env args)) 0)
    \<and> (\<forall>w'. tls_conn (w_tls w') = None \<longrightarrow> ctx_response host env args (fst (rpc_context_new w')) c1 w3
            = (make_error_code rpc_context_init_failed, fst (rpc_context_new w'), c1, w3))"
proof -
  have ctx: "ctx = \<lparr>ctx_conn = Some conn, ctx_has_response = False\<rparr>" and d: "tls_delay (w_tls w2)"
    using assms(7 - 9) rpc_context_new_delay [of w0] by (auto simp: rpc_context_new_def)
  obtain c1 res w4 where c1: "route rt key body (set_connection conn w) = (res, w4)" "serving c1 conn cross cb"
    "sk_rx (c_socket c1) = r" "sk_tx (c_socket c1) = sk_tx (c_socket c) @ (if tls_delay (w_tls w4) then [] else response_frame host cross res 0)"
    "read_step host lim rt (c, w) (c1, if tls_delay (w_tls w4) then set_delay False w4 else w4)"
    using read_step_request [OF assms(1 - 4)] by metis
  have "w4 = w2" using c1(1) assms(5, 6) by (auto simp: route_def Let_def split: exn.splits sum.splits)
  with d c1(4, 5) have step: "read_step host lim rt (c, w) (c1, set_delay False w2)" and tx: "sk_tx (c_socket c1) = sk_tx (c_socket c)"
    by simp_all
  let ?c2 = "(set_last_time w3 c1)\<lparr>c_socket := (c_socket c1)\<lparr>sk_tx := sk_tx (c_socket c1)
      @ response_frame host (c_cross_ending c1) (packed_result env args) 0\<rparr>\<rparr>"
  have "ctx_response host env args ctx c1 w3 = (no_error, ctx\<lparr>ctx_has_response := True\<rparr>, ?c2, w3)"
    using c1(2) response_success [of c1 host "packed_result env args" 0 w3] by (simp add: ctx ctx_response_def serving_def)
  then have "ctx_responses host env (args # others) ctx c1 w3
      = (no_error # replicate (length others) (make_error_code has_response), ctx\<lparr>ctx_has_response := True\<rparr>, ?c2, w3)"
    by (simp add: ctx_responses_after)
  moreover have "serving ?c2 conn cross cb" "sk_rx (c_socket ?c2) = r"
    "sk_tx (c_socket ?c2) = sk_tx (c_socket c) @ response_frame host cross (rpc_result_of_string (pack_args env args)) 0"
    using c1(2, 3) tx by (simp_all add: serving_def response_frame_packed)
  moreover have "ctx_response host env args (fst (rpc_context_new w')) c1 w3
      = (make_error_code rpc_context_init_failed, fst (rpc_context_new w'), c1, w3)" if "tls_conn (w_tls w') = None" for w'
    using that by (simp add: rpc_context_new_def ctx_response_def)
  ultimately show ?thesis
    using step start_read_step [OF step] c1(2, 3) tx
    by (intro exI [of _ c1] conjI exI [of _ ?c2]) (auto simp: ctx serving_def)
qed

text \<open>A handler without parameters that keeps its context in the user's state.\<close>

definition keeps_context :: "rpc_context option world handler" where
  "keeps_context = \<lparr>h_params = [], h_ret = T_void, h_self = False,
     h_body = (\<lambda>args w. (Inr V_unit, (snd (rpc_context_new w))\<lparr>w_user := Some (fst (rpc_context_new w))\<rparr>))\<rparr>"

theorem context_answers_once_witness:
  "\<exists>c1 c2 w2. read_step Little 10 (empty_router\<lparr>map_invokers := [5 \<mapsto> make_invoker (default_env True) keeps_context]\<rparr>)
      (new_connection (fresh_socket (request_frame Little False 5 [])) 3 False 0, world0 None) (c1, w2)
    \<and> w_user w2 = Some \<lparr>ctx_conn = Some 3, ctx_has_response = False\<rparr> \<and> sk_tx (c_socket c1) = []
    \<and> ctx_responses Little (default_env True) [[(T_int32, V_int 1)], [(T_int32, V_int 2)]] \<lparr>ctx_conn = Some 3, ctx_has_response = False\<rparr> c1 w2
      = ([no_error, make_error_code has_response], \<lparr>ctx_conn = Some 3, ctx_has_response = True\<rparr>, c2, w2)
    \<and> sk_tx (c_socket c2) = response_frame Little False (rpc_result_of_string (pack_args (default_env True) [(T_int32, V_int 1)])) 0"
proof -
  let ?c = "new_connection (fresh_socket (request_frame Little False 5 [])) 3 False 0"
  let ?rt = "empty_router\<lparr>map_invokers := [5 \<mapsto> make_invoker (default_env True) keeps_context]\<rparr>"
  let ?w0 = "set_connection 3 (world0 None)" and ?ctx = "\<lparr>ctx_conn = Some 3, ctx_has_response = False\<rparr>"
  have s: "serving ?c 3 False False" "sk_rx (c_socket ?c) = request_frame Little False 5 [] @ []" "sk_tx (c_socket ?c) = []"
    by (simp_all add: serving_def new_connection_def fresh_socket_def)
  have n: "rpc_context_new ?w0 = (?ctx, set_delay True ?w0)" "tls_conn (w_tls ?w0) = Some 3"
    by (simp_all add: rpc_context_new_def set_connection_def)
  obtain out where h: "make_invoker (default_env True) keeps_context [] rpc_result_init ?w0 = (out, (set_delay True ?w0)\<lparr>w_user := Some ?ctx\<rparr>)"
    by (auto simp: make_invoker_def handle_zero_arg_def call_handler_def keeps_context_def n is_void_v_def)
  let ?w2 = "set_delay False ((set_delay True ?w0)\<lparr>w_user := Some ?ctx\<rparr>)"
  have u: "w_user ?w2 = Some ?ctx" by (simp add: set_delay_def)
  show ?thesis
    using context_answers_once [OF s(1, 2) _ _ _ h n, of 10 ?rt "[(T_int32, V_int 1)]" "[[(T_int32, V_int 2)]]" ?w2] s(3) u
    by (auto simp del: ctx_responses.simps)
qed

text \<open>
  C35: a handler that has created a context and then throws leaves its request without an answer. The exception
  becomes an error result, but the context has told the loop not to answer, and the context is gone with
  the handler; the client waits until its timeout while the connection serves what follows.
\<close>

theorem exception_after_context_unanswered:
  assumes "serving c conn cross cb" "sk_rx (c_socket c) = request_frame host cross key body @ r"
    and "length body \<le> lim" "length body < 2 ^ 64"
    and "map_invokers rt key = Some ik" "ik body rpc_result_init (set_connection conn w) = (Inl e, w1)" "tls_delay (w_tls w1)"
  shows "\<exists>c'. start host lim rt c w = start host lim rt c' (set_delay False w1) \<and> serving c' conn cross cb
    \<and> sk_rx (c_socket c') = r \<and> sk_tx (c_socket c') = sk_tx (c_socket c)
    \<and> rr_ec (fst (route rt key body (set_connection conn w))) \<noteq> ok"
proof -
  obtain c' res w2 where c': "route rt key body (set_connection conn w) = (res, w2)" "serving c' conn cross cb"
    "sk_rx (c_socket c') = r" "sk_tx (c_socket c') = sk_tx (c_socket c)
       @ (if tls_delay (w_tls w2) then [] else response_frame host cross res 0)"
    "read_step host lim rt (c, w) (c', if tls_delay (w_tls w2) then set_delay False w2 else w2)"
    using read_step_request [OF assms(1 - 4)] by metis
  have "w2 = w1" "rr_ec res \<noteq> ok" using c'(1) assms(5, 6) by (auto simp: route_def Let_def split: exn.splits)
  then show ?thesis using c' start_read_step [OF c'(5)] assms(7) by auto
qed

theorem exception_after_context_unanswered_witness:
  "\<exists>c'. start Little 10 (empty_router\<lparr>map_invokers := [5 \<mapsto> (\<lambda>data ret w. (Inl Unknown_exception, snd (rpc_context_new w)))]\<rparr>)
      (new_connection (fresh_socket (request_frame Little False 5 [])) 1 False 0) (world0 ())
    = start Little 10 (empty_router\<lparr>map_invokers := [5 \<mapsto> (\<lambda>data ret w. (Inl Unknown_exception, snd (rpc_context_new w)))]\<rparr>)
        c' (set_connection 1 (world0 ())) \<and> sk_tx (c_socket c') = []"
proof -
  let ?c = "new_connection (fresh_socket (request_frame Little False 5 [])) 1 False 0"
  let ?rt = "empty_router\<lparr>map_invokers := [5 \<mapsto> (\<lambda>data ret w. (Inl Unknown_exception, snd (rpc_context_new w)))]\<rparr> :: unit world router"
  have s: "serving ?c 1 False False" "sk_rx (c_socket ?c) = request_frame Little False 5 [] @ []" "sk_tx (c_socket ?c) = []"
    by (simp_all add: serving_def new_connection_def fresh_socket_def)
  have d: "set_delay False (snd (rpc_context_new (set_connection 1 (world0 ())))) = set_connection 1 (world0 ())"
    by (simp add: rpc_context_new_def set_delay_def set_connection_def world0_def)
  have "\<exists>c'. start Little 10 ?rt ?c (world0 ()) = start Little 10 ?rt c' (set_delay False (snd (rpc_context_new (set_connection 1 (world0 ())))))
    \<and> serving c' 1 False False \<and> sk_rx (c_socket c') = [] \<and> sk_tx (c_socket c') = sk_tx (c_socket ?c)
    \<and> rr_ec (fst (route ?rt 5 [] (set_connection 1 (world0 ())))) \<noteq> ok"
    by (rule exception_after_context_unanswered [OF s(1, 2)]) (simp_all add: rpc_context_new_def set_delay_def)
  then show ?thesis unfolding d s(3) by blast
qed

end
