(* ===== verification/Io_Context_Pool.thy ===== *)
theory Io_Context_Pool
  imports Prelude
begin

text \<open>
  The pool of event loops, include/rest_rpc/io_context_pool.hpp. A context is its index in the
  vector; a work guard keeps it running. Contexts are handed out in turn by a counter that wraps
  at 64 bits. What a context runs is not part of this theory: the components that are scheduled on
  it are modelled by themselves.
\<close>

record io_context_pool =
  io_contexts :: nat \<comment> \<open>how many\<close>
  works :: "nat list" \<comment> \<open>the contexts with a work guard\<close>
  run_flag :: bool
  pool_stop_flag :: bool
  next_ctx :: size_t
  running :: "nat list" \<comment> \<open>the contexts with a thread\<close>

definition io_context_pool_new :: "size_t \<Rightarrow> io_context_pool" where
  "io_context_pool_new pool_size =
     (let pool_size = (if pool_size = 0 then 1 else pool_size)
      in \<lparr>io_contexts = unat pool_size, works = [0..<unat pool_size], run_flag = False,
          pool_stop_flag = False, next_ctx = 0, running = []\<rparr>)"

text \<open>\<open>run\<close> starts one thread per context, once.\<close>

definition pool_run :: "io_context_pool \<Rightarrow> io_context_pool" where
  "pool_run p = (if run_flag p then p else p\<lparr>run_flag := True, running := [0..<io_contexts p]\<rparr>)"

definition pool_stop :: "io_context_pool \<Rightarrow> io_context_pool" where
  "pool_stop p = (if pool_stop_flag p then p else p\<lparr>pool_stop_flag := True, works := []\<rparr>)"

definition pool_length :: "io_context_pool \<Rightarrow> nat" where
  "pool_length p = io_contexts p"

definition get_io_context :: "io_context_pool \<Rightarrow> nat \<times> io_context_pool" where
  "get_io_context p =
     (let i = next_ctx p in (unat (i mod of_nat (io_contexts p)), p\<lparr>next_ctx := i + 1\<rparr>))"

text \<open>An executor stands for its context.\<close>

definition pool_get_executor :: "io_context_pool \<Rightarrow> nat \<times> io_context_pool" where
  "pool_get_executor p = get_io_context p"

text \<open>The destructor.\<close>

definition pool_destroy :: "io_context_pool \<Rightarrow> io_context_pool" where
  "pool_destroy p = pool_stop p"

text \<open>\<open>get_global_executor\<close>: one pool for the program, of the size first asked for, already running.\<close>

definition get_global_executor :: "size_t \<Rightarrow> io_context_pool option \<Rightarrow> nat \<times> io_context_pool option" where
  "get_global_executor pool_size g =
     (let pool = (case g of None \<Rightarrow> pool_run (io_context_pool_new pool_size) | Some p \<Rightarrow> p)
      in case pool_get_executor pool of (i, p) \<Rightarrow> (i, Some p))"

text \<open>The contexts of a number of calls in a row.\<close>

fun get_io_contexts :: "nat \<Rightarrow> io_context_pool \<Rightarrow> nat list \<times> io_context_pool" where
  "get_io_contexts 0 p = ([], p)"
| "get_io_contexts (Suc k) p =
     (case get_io_context p of (i, p1) \<Rightarrow> case get_io_contexts k p1 of (is, p2) \<Rightarrow> (i # is, p2))"

section \<open>Contexts are handed out in turn\<close>

definition pool_inv :: "io_context_pool \<Rightarrow> bool" where
  "pool_inv p \<longleftrightarrow> 0 < io_contexts p \<and> io_contexts p < 2 ^ 64 \<and> set (works p) \<subseteq> {..<io_contexts p}
     \<and> (pool_stop_flag p \<longrightarrow> works p = [])"

lemma pool_inv_new: "pool_inv (io_context_pool_new n)"
proof -
  have "unat n < 2 ^ LENGTH(64)" by (rule unsigned_less)
  then show ?thesis by (auto simp: pool_inv_def io_context_pool_new_def Let_def unat_gt_0)
qed

lemma pool_inv_ops:
  "pool_inv p \<Longrightarrow> pool_inv (pool_run p)" "pool_inv p \<Longrightarrow> pool_inv (pool_stop p)"
  "pool_inv p \<Longrightarrow> pool_inv (snd (get_io_context p))"
  by (auto simp: pool_inv_def pool_run_def pool_stop_def get_io_context_def Let_def)

lemma get_io_context_range:
  assumes "pool_inv p"
  shows "fst (get_io_context p) < io_contexts p"
proof -
  have "unat (of_nat (io_contexts p) :: size_t) = io_contexts p"
    using assms by (intro unat_of_nat_small) (simp add: pool_inv_def)
  then show ?thesis
    using assms by (simp add: get_io_context_def Let_def unat_mod pool_inv_def)
qed

lemma get_io_context_index:
  assumes "pool_inv p" "next_ctx p = of_nat k" "k < 2 ^ 64"
  shows "get_io_context p = (k mod io_contexts p, p\<lparr>next_ctx := of_nat (Suc k)\<rparr>)"
proof -
  have "unat (of_nat (io_contexts p) :: size_t) = io_contexts p" "unat (of_nat k :: size_t) = k"
    using assms by (auto intro!: unat_of_nat_small simp: pool_inv_def)
  then show ?thesis
    using assms(2) by (simp add: get_io_context_def Let_def unat_mod add.commute)
qed

lemma get_io_contexts_from:
  assumes "pool_inv p" "next_ctx p = of_nat k" "k + n \<le> 2 ^ 64"
  shows "fst (get_io_contexts n p) = map (\<lambda>j. j mod io_contexts p) [k..<k + n]"
  using assms
proof (induction n arbitrary: p k)
  case (Suc n)
  have "get_io_context p = (k mod io_contexts p, p\<lparr>next_ctx := of_nat (Suc k)\<rparr>)"
    using Suc.prems by (intro get_io_context_index) auto
  moreover have "fst (get_io_contexts n (p\<lparr>next_ctx := of_nat (Suc k)\<rparr>))
      = map (\<lambda>j. j mod io_contexts p) [Suc k..<Suc k + n]"
    using Suc.IH [of "p\<lparr>next_ctx := of_nat (Suc k)\<rparr>" "Suc k"] Suc.prems by (simp add: pool_inv_def)
  moreover have "[k..<k + Suc n] = k # [Suc k..<Suc k + n]" by (simp add: upt_conv_Cons del: upt_Suc)
  ultimately show ?case
    by (cases "get_io_contexts n (p\<lparr>next_ctx := of_nat (Suc k)\<rparr>)") (simp del: upt_Suc of_nat_Suc)
qed simp

lemma count_distinct_once: "distinct xs \<Longrightarrow> x \<in> set xs \<Longrightarrow> count_list xs x = 1"
  by (induction xs) (auto simp: count_notin)

lemma count_round_robin:
  assumes "0 < n" "i < (n :: nat)"
  shows "count_list (map (\<lambda>j. j mod n) [0..<m * n]) i = m"
proof (induction m)
  case (Suc m)
  have "[0..<Suc m * n] = [0..<m * n] @ map (\<lambda>j. j + m * n) [0..<n]"
    using upt_add_eq_append [of 0 "m * n" n] map_add_upt [of "m * n" n] by (simp add: add.commute)
  moreover have "count_list (map (\<lambda>j. (j + m * n) mod n) [0..<n]) i = 1"
  proof -
    have "map (\<lambda>j. (j + m * n) mod n) [0..<n] = [0..<n]" by (intro map_idI) auto
    moreover have "count_list [0..<n] i = 1"
      using assms(2) count_distinct_once [of "[0..<n]" i] by simp
    ultimately show ?thesis by simp
  qed
  ultimately show ?case using Suc by (simp add: count_list_append comp_def)
qed simp

text \<open>
  The contexts are handed out in turn, starting with the first, and the index is always inside
  the vector, also after the counter has wrapped: a multiple \<open>m\<close> of the pool's size of calls uses
  every context exactly \<open>m\<close> times. A pool of size zero is made one of size one.
\<close>

theorem io_contexts_round_robin:
  assumes "n = (if sz = 0 then 1 else unat sz)" "m * n \<le> 2 ^ 64" "i < n"
  shows "fst (get_io_contexts (m * n) (io_context_pool_new sz)) = map (\<lambda>j. j mod n) [0..<m * n]
    \<and> count_list (fst (get_io_contexts (m * n) (io_context_pool_new sz))) i = m
    \<and> (\<forall>k. fst (get_io_context ((io_context_pool_new sz)\<lparr>next_ctx := k\<rparr>)) < n)"
proof -
  let ?p = "io_context_pool_new sz"
  have n: "io_contexts ?p = n" "next_ctx ?p = of_nat 0" and k: "pool_inv (?p\<lparr>next_ctx := k\<rparr>)" for k
    using assms(1) pool_inv_new [of sz] by (auto simp: io_context_pool_new_def Let_def pool_inv_def)
  have "fst (get_io_contexts (m * n) ?p) = map (\<lambda>j. j mod n) [0..<m * n]"
    using get_io_contexts_from [OF pool_inv_new n(2), of "m * n"] assms(2) n(1) by simp
  moreover have "fst (get_io_context (?p\<lparr>next_ctx := k\<rparr>)) < n" for k
    using get_io_context_range [OF k [of k]] n(1) by simp
  ultimately show ?thesis using count_round_robin [of n i m] assms(3) by simp
qed

theorem io_contexts_round_robin_witness:
  "fst (get_io_contexts (3 * 2) (io_context_pool_new 2)) = [0, 1, 0, 1, 0, 1]"
  using io_contexts_round_robin [of 2 "2 :: size_t" 3 0] by (simp add: upt_rec)

end
