(* ===== verification/Server.thy ===== *)
theory Server
  imports Connection Io_Context_Pool
begin

text \<open>
  The server, include/rest_rpc/rpc_server.hpp: starting and stopping, the accept loop, the table of
  connections, publication to topics and the closing of idle connections. The table is an
  association list in some order, since the code keeps an unordered map. The environment supplies
  what the resolver, the acceptor and the timer answer. The callback by which a connection leaves
  the table is recorded in the world and carried out by \<open>run_quits\<close> right after the operation in
  which it was made.
\<close>

section \<open>State\<close>

record 'u server =
  sv_pool :: io_context_pool
  sv_acceptor_open :: bool
  sv_host :: string
  sv_port :: string
  sv_start_flag :: bool
  sv_stop_flag :: bool
  sv_has_stop :: bool
  sv_conns :: "(u64 \<times> connection) list"
  sv_conn_id :: u64 \<comment> \<open>the counter of the accept loop\<close>
  sv_check_duration :: int
  sv_timeout_duration :: int
  sv_stop_timer :: bool
  sv_need_check :: bool
  sv_router :: "'u world router"
  sv_tcp_no_delay :: bool
  sv_cross_ending :: bool
  sv_accepting :: bool \<comment> \<open>the accept coroutine is alive\<close>
  sv_reading :: "u64 set" \<comment> \<open>the connections whose read coroutine is alive\<close>

text \<open>\<open>"host:port"\<close>, split at the first colon; without a colon both parts stay empty.\<close>

definition split_address :: "string \<Rightarrow> string \<times> string" where
  "split_address address =
     (let pos = sv_find address '':''
      in if pos \<noteq> npos
         then (the (sv_substr address 0 pos), the (sv_substr address (pos + 1) npos))
         else ('''', ''''))"

definition rpc_server_new :: "string \<Rightarrow> string \<Rightarrow> size_t \<Rightarrow> 'u server" where
  "rpc_server_new host port num_thread =
     (let pool = io_context_pool_new num_thread;
          pool = snd (get_io_context pool); \<comment> \<open>the acceptor's\<close>
          pool = snd (get_io_context pool)  \<comment> \<open>the timer's\<close>
      in \<lparr>sv_pool = pool, sv_acceptor_open = False, sv_host = host, sv_port = port, sv_start_flag = False,
          sv_stop_flag = False, sv_has_stop = False, sv_conns = [], sv_conn_id = 0,
          sv_check_duration = 12, sv_timeout_duration = 10, sv_stop_timer = False, sv_need_check = False,
          sv_router = empty_router, sv_tcp_no_delay = True, sv_cross_ending = False, sv_accepting = False,
          sv_reading = {}\<rparr>)"

definition rpc_server_of_address :: "string \<Rightarrow> size_t \<Rightarrow> 'u server" where
  "rpc_server_of_address address num_thread =
     (case split_address address of (host, port) \<Rightarrow> rpc_server_new host port num_thread)"

section \<open>Options and handlers\<close>

definition set_conn_max_age :: "int \<Rightarrow> 'u server \<Rightarrow> 'u server" where
  "set_conn_max_age dur sv =
     (if 0 < dur then sv\<lparr>sv_need_check := True, sv_timeout_duration := dur\<rparr> else sv)"

definition set_check_conn_interval :: "int \<Rightarrow> 'u server \<Rightarrow> 'u server" where
  "set_check_conn_interval dur sv = sv\<lparr>sv_check_duration := dur\<rparr>"

definition enable_tcp_no_delay :: "bool \<Rightarrow> 'u server \<Rightarrow> 'u server" where
  "enable_tcp_no_delay r sv = sv\<lparr>sv_tcp_no_delay := r\<rparr>"

definition enable_cross_ending :: "bool \<Rightarrow> 'u server \<Rightarrow> 'u server" where
  "enable_cross_ending r sv = sv\<lparr>sv_cross_ending := r\<rparr>"

definition server_register :: "codec_env \<Rightarrow> bytes \<Rightarrow> 'u world handler \<Rightarrow> 'u server \<Rightarrow> exn + 'u server" where
  "server_register env name f sv =
     (case register_handler env name f (sv_router sv) of
        Inl e \<Rightarrow> Inl e | Inr rt \<Rightarrow> Inr (sv\<lparr>sv_router := rt\<rparr>))"

definition server_remove :: "bytes \<Rightarrow> 'u server \<Rightarrow> 'u server" where
  "server_remove name sv = sv\<lparr>sv_router := remove_handler name (sv_router sv)\<rparr>"

text \<open>The overloads for a function given as template argument.\<close>

definition server_register_func ::
  "codec_env \<Rightarrow> compiler \<Rightarrow> string \<Rightarrow> 'u world handler \<Rightarrow> 'u server \<Rightarrow> (exn + 'u server) option"
where
  "server_register_func env c signature f sv =
     map_option (map_sum id (\<lambda>rt. sv\<lparr>sv_router := rt\<rparr>)) (register_handler_func env c signature f (sv_router sv))"

definition server_remove_func :: "compiler \<Rightarrow> string \<Rightarrow> 'u server \<Rightarrow> 'u server option" where
  "server_remove_func c signature sv =
     map_option (\<lambda>rt. sv\<lparr>sv_router := rt\<rparr>) (remove_handler_func c signature (sv_router sv))"

definition has_stopped :: "'u server \<Rightarrow> bool" where
  "has_stopped sv = sv_has_stop sv"

definition get_connections :: "'u server \<Rightarrow> (u64 \<times> connection) list" where
  [simp]: "get_connections sv = sv_conns sv"

definition connection_count :: "'u server \<Rightarrow> nat" where
  "connection_count sv = length (sv_conns sv)"

section \<open>Connections\<close>

text \<open>The callback: close and erase the connection with the identifier.\<close>

definition quit_callback :: "u64 \<Rightarrow> 'u server \<Rightarrow> 'u server" where
  "quit_callback conn_id sv = sv\<lparr>sv_conns := filter (\<lambda>p. fst p \<noteq> conn_id) (sv_conns sv)\<rparr>"

definition run_quits :: "'u server \<times> 'u world \<Rightarrow> 'u server \<times> 'u world" where
  "run_quits svw = (fold quit_callback (w_quits (snd svw)) (fst svw), (snd svw)\<lparr>w_quits := []\<rparr>)"

text \<open>
  What \<open>async_accept\<close> gives: a connected socket, or an error code with a socket that is not open.
\<close>

datatype accepted = Accept_ok socket | Accept_error error_code

datatype accept_result = Accept_more | Accept_returned | Accept_threw

text \<open>
  One pass of the accept loop. Only two errors end it in an orderly way; after any other error the
  loop goes on with the closed socket, on which \<open>set_option\<close> throws.
\<close>

definition accept_step :: "accepted \<Rightarrow> 'u server \<Rightarrow> 'u world \<Rightarrow> accept_result \<times> 'u server" where
  "accept_step a sv w =
     (let sv = sv\<lparr>sv_pool := snd (get_io_context (sv_pool sv))\<rparr>;
          ec = (case a of Accept_ok _ \<Rightarrow> no_error | Accept_error e \<Rightarrow> e);
          s = (case a of Accept_ok s \<Rightarrow> s | Accept_error _ \<Rightarrow> (fresh_socket [])\<lparr>sk_open := False\<rparr>)
      in if ec = operation_aborted \<or> ec = bad_descriptor then (Accept_returned, sv\<lparr>sv_accepting := False\<rparr>)
         else if sv_tcp_no_delay sv \<and> \<not> sk_open s then (Accept_threw, sv\<lparr>sv_accepting := False\<rparr>)
         else
           let conn = new_connection s (sv_conn_id sv) (sv_cross_ending sv) (w_now w);
               conn = (if sv_need_check sv then set_check_timeout True conn else conn);
               conn = set_quit_callback conn
           in (Accept_more,
               sv\<lparr>sv_conns := (if sv_conn_id sv \<in> fst ` set (sv_conns sv) then sv_conns sv
                               else (sv_conn_id sv, conn) # sv_conns sv),
                  sv_conn_id := sv_conn_id sv + 1, sv_reading := insert (sv_conn_id sv) (sv_reading sv)\<rparr>))"

text \<open>What is accepted is connected and has not been written to; an error tests true.\<close>

definition fresh_accept :: "accepted \<Rightarrow> bool" where
  "fresh_accept a \<longleftrightarrow> (case a of Accept_ok s \<Rightarrow> sk_open s \<and> sk_tx s = [] | Accept_error ec \<Rightarrow> ec_set ec)"

text \<open>The connection under an identifier is a shared object: whoever changes it, the table shows it.\<close>

definition put_connection :: "u64 \<Rightarrow> connection \<Rightarrow> 'u server \<Rightarrow> 'u server" where
  "put_connection i c sv = sv\<lparr>sv_conns := map (\<lambda>p. if fst p = i then (i, c) else p) (sv_conns sv)\<rparr>"

text \<open>
  A pass of the read loop of a connection in the table. When the loop has ended it never reads again,
  also where it ended without closing the connection.
\<close>

definition conn_read :: "endian \<Rightarrow> nat \<Rightarrow> u64 \<Rightarrow> 'u server \<Rightarrow> 'u world \<Rightarrow> 'u server \<times> 'u world" where
  "conn_read host lim conn_id sv w =
     (case map_of (sv_conns sv) conn_id of
        None \<Rightarrow> (sv, w)
      | Some c \<Rightarrow>
          if conn_id \<notin> sv_reading sv then (sv, w)
          else case read_request host lim (sv_router sv) c w of
             (r, c', w') \<Rightarrow>
               run_quits ((put_connection conn_id c' sv)\<lparr>sv_reading := (if r = None then sv_reading sv
                                                                 else sv_reading sv - {conn_id})\<rparr>, w'))"

text \<open>
  The answer of a context, on a connection in the table. A connection that has left the table is
  closed, so that a context that still holds it writes nothing.
\<close>

definition conn_answer ::
  "endian \<Rightarrow> codec_env \<Rightarrow> (ctype \<times> cval) list \<Rightarrow> rpc_context \<Rightarrow> 'u server \<Rightarrow> 'u world
     \<Rightarrow> error_code \<times> rpc_context \<times> 'u server \<times> 'u world"
where
  "conn_answer host env args ctx sv w =
     (case ctx_conn ctx of
        None \<Rightarrow> (make_error_code (if ctx_has_response ctx then has_response else rpc_context_init_failed), ctx, sv, w)
      | Some i \<Rightarrow>
          (case map_of (sv_conns sv) i of
             None \<Rightarrow> if ctx_has_response ctx then (make_error_code has_response, ctx, sv, w)
                     else (bad_descriptor, ctx\<lparr>ctx_has_response := True\<rparr>, sv, w)
           | Some c \<Rightarrow>
               (case ctx_response host env args ctx c w of
                  (ec, ctx', c', w') \<Rightarrow> (ec, ctx', run_quits (put_connection i c' sv, w')))))"

section \<open>Publication\<close>

fun publish_loop ::
  "endian \<Rightarrow> u32 \<Rightarrow> rpc_result \<Rightarrow> (u64 \<times> connection) list \<Rightarrow> 'u world \<Rightarrow> (u64 \<times> connection) list \<times> 'u world"
where
  "publish_loop host topic res [] w = ([], w)"
| "publish_loop host topic res ((i, c) # conns) w =
     (if conn_topic_id c = topic
      then (case response host res topic c w of (_, c', w1) \<Rightarrow>
            case publish_loop host topic res conns w1 of (cs, w2) \<Rightarrow> ((i, c') # cs, w2))
      else (case publish_loop host topic res conns w of (cs, w2) \<Rightarrow> ((i, c) # cs, w2)))"

definition publish ::
  "endian \<Rightarrow> codec_env \<Rightarrow> bytes \<Rightarrow> ctype \<Rightarrow> cval \<Rightarrow> 'u server \<Rightarrow> 'u world \<Rightarrow> 'u server \<times> 'u world"
where
  "publish host env topic t v sv w =
     (case publish_loop host (hash_name topic) (packed_result env [(t, v)]) (get_connections sv) w of
        (conns, w1) \<Rightarrow> run_quits (sv\<lparr>sv_conns := conns\<rparr>, w1))"

section \<open>Idle connections\<close>

definition check_timeout :: "'u server \<Rightarrow> 'u world \<Rightarrow> 'u server \<times> connection list" where
  "check_timeout sv w =
     (let old = (\<lambda>p. w_now w - get_last_rwtime (snd p) > sv_timeout_duration sv)
      in (sv\<lparr>sv_conns := filter (\<lambda>p. \<not> old p) (sv_conns sv)\<rparr>,
          map (\<lambda>p. fst (conn_close False (snd p) w)) (filter old (sv_conns sv))))"

text \<open>One expiry of the check timer; \<open>None\<close> ends the coroutine.\<close>

definition check_timer_step :: "error_code \<Rightarrow> 'u server \<Rightarrow> 'u world \<Rightarrow> ('u server \<times> connection list) option" where
  "check_timer_step ec sv w = (if ec_set ec \<or> sv_stop_timer sv then None else Some (check_timeout sv w))"

section \<open>Starting and stopping\<close>

text \<open>What the network answers while a server starts to listen.\<close>

record listen_env =
  le_resolve :: error_code
  le_open :: error_code
  le_bind :: error_code
  le_listen :: error_code

definition server_listen :: "listen_env \<Rightarrow> 'u server \<Rightarrow> error_code \<times> 'u server" where
  "server_listen le sv =
     (if ec_set (le_resolve le) then (le_resolve le, sv)
      else if ec_set (le_open le) then (le_open le, sv)
      else if ec_set (le_bind le) then (le_bind le, sv\<lparr>sv_acceptor_open := False\<rparr>)
      else if ec_set (le_listen le) then (le_listen le, sv\<lparr>sv_acceptor_open := False\<rparr>)
      else (le_listen le, sv\<lparr>sv_acceptor_open := True\<rparr>))"

text \<open>
  \<open>start_impl\<close> keeps its error code in a function-local static, one for all servers of the program:
  \<open>static_ec\<close>, passed in and out. The flag makes the attempt happen once per server.
\<close>

definition start_impl :: "listen_env \<Rightarrow> error_code \<Rightarrow> 'u server \<Rightarrow> error_code \<times> error_code \<times> 'u server" where
  "start_impl le static_ec sv =
     (if sv_has_stop sv then (operation_canceled, static_ec, sv)
      else if sv_start_flag sv then (static_ec, static_ec, sv)
      else
        (case server_listen le sv of (ec, sv1) \<Rightarrow>
          let sv2 = sv1\<lparr>sv_start_flag := True\<rparr> in
          if ec_set ec then (ec, ec, sv2)
          else (ec, ec, sv2\<lparr>sv_pool := pool_run (sv_pool sv2), sv_accepting := True\<rparr>)))"

definition server_stop :: "'u server \<Rightarrow> 'u world \<Rightarrow> 'u server \<times> connection list" where
  "server_stop sv w =
     (if sv_has_stop sv then (sv, [])
      else if sv_stop_flag sv then (sv, [])
      else (sv\<lparr>sv_stop_flag := True, sv_has_stop := True, sv_acceptor_open := False, sv_stop_timer := True,
               sv_conns := [], sv_pool := pool_stop (sv_pool sv)\<rparr>,
            map (\<lambda>p. fst (conn_close False (snd p) w)) (sv_conns sv)))"

text \<open>The destructor.\<close>

definition server_destroy :: "'u server \<Rightarrow> 'u world \<Rightarrow> 'u server \<times> connection list" where
  "server_destroy sv w = server_stop sv w"

section \<open>The table of connections\<close>

lemma put_connection_sel [simp]:
  "sv_router (put_connection i c sv) = sv_router sv" "sv_conn_id (put_connection i c sv) = sv_conn_id sv"
  "sv_accepting (put_connection i c sv) = sv_accepting sv" "sv_reading (put_connection i c sv) = sv_reading sv"
  "sv_pool (put_connection i c sv) = sv_pool sv" "map fst (sv_conns (put_connection i c sv)) = map fst (sv_conns sv)"
  "sv_cross_ending (put_connection i c sv) = sv_cross_ending sv"
  by (auto simp: put_connection_def)

lemma put_connection_get: "map_of (sv_conns sv) i = Some c0 \<Longrightarrow> map_of (sv_conns (put_connection i c sv)) i = Some c"
proof -
  have "map_of cs i = Some c0 \<Longrightarrow> map_of (map (\<lambda>p. if fst p = i then (i, c) else p) cs) i = Some c" for cs
    by (induction cs) auto
  then show "map_of (sv_conns sv) i = Some c0 \<Longrightarrow> map_of (sv_conns (put_connection i c sv)) i = Some c"
    by (simp add: put_connection_def)
qed

lemma put_connection_other: "j \<noteq> i \<Longrightarrow> map_of (sv_conns (put_connection i c sv)) j = map_of (sv_conns sv) j"
proof -
  have "j \<noteq> i \<Longrightarrow> map_of (map (\<lambda>p. if fst p = i then (i, c) else p) cs) j = map_of cs j" for cs
    by (induction cs) auto
  then show "j \<noteq> i \<Longrightarrow> map_of (sv_conns (put_connection i c sv)) j = map_of (sv_conns sv) j"
    by (simp add: put_connection_def)
qed

lemma put_connection_same: "distinct (map fst (sv_conns sv)) \<Longrightarrow> map_of (sv_conns sv) i = Some c \<Longrightarrow> put_connection i c sv = sv"
proof -
  have "distinct (map fst cs) \<Longrightarrow> map_of cs i = Some c \<Longrightarrow> map (\<lambda>p. if fst p = i then (i, c) else p) cs = cs" for cs
    by (rule map_idI) (auto dest: eq_key_imp_eq_value)
  then show "distinct (map fst (sv_conns sv)) \<Longrightarrow> map_of (sv_conns sv) i = Some c \<Longrightarrow> put_connection i c sv = sv"
    by (simp add: put_connection_def)
qed

lemma put_connection_again [simp]: "put_connection i c (put_connection i c1 sv) = put_connection i c sv"
  by (simp add: put_connection_def comp_def cong: map_cong)


text \<open>
  Every connection in the table stands under its own identifier, once, reports its end to the
  server, and has not been closed.
\<close>

definition table_ok :: "(u64 \<times> connection) list \<Rightarrow> bool" where
  "table_ok cs \<longleftrightarrow> distinct (map fst cs) \<and> (\<forall>(i, c) \<in> set cs. c_id c = i \<and> c_quit_cb c \<and> \<not> c_has_closed c)"

text \<open>Handlers that leave the callbacks alone, and tables of such handlers.\<close>

definition body_keeps_quits :: "'u world handler \<Rightarrow> bool" where
  "body_keeps_quits f \<longleftrightarrow> (\<forall>args w. w_quits (snd (h_body f args w)) = w_quits w)"

definition invoker_keeps_quits :: "'u world invoker \<Rightarrow> bool" where
  "invoker_keeps_quits ik \<longleftrightarrow> (\<forall>data ret w. w_quits (snd (ik data ret w)) = w_quits w)"

lemma call_handler_keeps: "body_keeps_quits f \<Longrightarrow> w_quits (snd (call_handler env b f args ret w)) = w_quits w"
  unfolding body_keeps_quits_def
  by (drule spec [of _ args], drule spec [of _ w])
     (auto simp: call_handler_def split: prod.splits sum.splits)

lemma make_invoker_keeps: "body_keeps_quits f \<Longrightarrow> invoker_keeps_quits (make_invoker env f)"
  by (auto simp: invoker_keeps_quits_def make_invoker_def handle_zero_arg_def handle_one_arg_def
      handle_more_args_def call_handler_keeps split: list.splits sum.splits)

lemma route_keeps:
  assumes "\<And>ik. map_invokers rt key = Some ik \<Longrightarrow> invoker_keeps_quits ik"
  shows "w_quits (snd (route rt key data w)) = w_quits w"
proof (cases "map_invokers rt key")
  case (Some ik)
  obtain r w' where i: "ik data rpc_result_init w = (r, w')" by fastforce
  have "w_quits (snd (ik data rpc_result_init w)) = w_quits w"
    using assms [OF Some] unfolding invoker_keeps_quits_def by blast
  then show ?thesis
    using Some i by (cases r) (auto simp: route_def Let_def split: exn.split)
qed (simp add: route_def Let_def)

definition table_keeps_quits :: "'u world router \<Rightarrow> bool" where
  "table_keeps_quits rt \<longleftrightarrow> (\<forall>key ik. map_invokers rt key = Some ik \<longrightarrow> invoker_keeps_quits ik)"

definition server_inv :: "'u server \<times> 'u world \<Rightarrow> bool" where
  "server_inv svw \<longleftrightarrow> table_ok (sv_conns (fst svw)) \<and> w_quits (snd svw) = [] \<and> router_inv (sv_router (fst svw))
     \<and> table_keeps_quits (sv_router (fst svw)) \<and> pool_inv (sv_pool (fst svw))"

lemma table_keeps_quits: "table_keeps_quits rt \<Longrightarrow> quits_kept rt"
  by (auto simp: table_keeps_quits_def quits_kept_def intro: route_keeps)

lemma table_keeps_register:
  "table_keeps_quits rt \<Longrightarrow> body_keeps_quits f \<Longrightarrow> register_handler env name f rt = Inr rt' \<Longrightarrow> table_keeps_quits rt'"
  using make_invoker_keeps
  by (auto simp: table_keeps_quits_def register_handler_def register_handler_impl_def register_func_impl_def
      split: if_splits)

lemma table_keeps_remove: "table_keeps_quits rt \<Longrightarrow> table_keeps_quits (remove_handler name rt)"
  by (auto simp: table_keeps_quits_def remove_handler_def Let_def split: if_splits)

subsection \<open>Callbacks\<close>

lemma fold_quit_callback:
  "fold quit_callback ids sv = sv\<lparr>sv_conns := filter (\<lambda>p. fst p \<notin> set ids) (sv_conns sv)\<rparr>"
  by (induction ids arbitrary: sv) (auto simp: quit_callback_def intro!: arg_cong [where f = "\<lambda>cs. _\<lparr>sv_conns := cs\<rparr>"] filter_cong)

lemma run_quits_simp:
  "run_quits (sv, w) = (sv\<lparr>sv_conns := filter (\<lambda>p. fst p \<notin> set (w_quits w)) (sv_conns sv)\<rparr>, w\<lparr>w_quits := []\<rparr>)"
  by (simp add: run_quits_def fold_quit_callback)

text \<open>A table in which exactly the connections that made the callback are closed.\<close>

definition told_table :: "(u64 \<times> connection) list \<Rightarrow> u64 list \<Rightarrow> bool" where
  "told_table cs ids \<longleftrightarrow> distinct (map fst cs)
     \<and> (\<forall>(i, c) \<in> set cs. c_id c = i \<and> c_quit_cb c \<and> (c_has_closed c \<longrightarrow> i \<in> set ids))"

lemma told_table_filter: "told_table cs ids \<Longrightarrow> table_ok (filter (\<lambda>p. fst p \<notin> set ids) cs)"
  by (auto simp: told_table_def table_ok_def distinct_map_filter)

lemma table_ok_filter: "table_ok cs \<Longrightarrow> table_ok (filter P cs)"
  by (auto simp: table_ok_def distinct_map_filter)

lemma told_table_update:
  assumes "table_ok cs" "map_of cs i = Some c" "told_step (c, w) (c', w')" "w_quits w = []"
  shows "told_table (map (\<lambda>p. if fst p = i then (i, c') else p) cs) (w_quits w')"
proof -
  have k: "map fst (map (\<lambda>p. if fst p = i then (i, c') else p) cs) = map fst cs" by auto
  have "(i, c) \<in> set cs" using assms(2) by (rule map_of_SomeD)
  then have c: "c_id c = i" "c_quit_cb c" "\<not> c_has_closed c" using assms(1) by (auto simp: table_ok_def)
  then have "c_id c' = i" "c_quit_cb c'" "c_has_closed c' \<Longrightarrow> i \<in> set (w_quits w')"
    using assms(3, 4) by (auto simp: told_step_def)
  then show ?thesis using assms(1) unfolding told_table_def k by (auto simp: table_ok_def)
qed

lemma publish_loop_told:
  assumes "table_ok cs" "publish_loop host topic res cs w = (cs', w')"
  shows "\<exists>ids. w_quits w' = w_quits w @ ids \<and> map fst cs' = map fst cs
    \<and> (\<forall>(i, c) \<in> set cs'. c_id c = i \<and> c_quit_cb c \<and> (c_has_closed c \<longrightarrow> i \<in> set ids))"
  using assms
proof (induction cs arbitrary: w cs' w')
  case (Cons p cs)
  obtain i c where p: "p = (i, c)" by fastforce
  have ok: "table_ok cs" and c: "c_id c = i" "c_quit_cb c" "\<not> c_has_closed c"
    using Cons.prems(1) p by (auto simp: table_ok_def)
  show ?case
  proof (cases "c_topic_id c = topic")
    case True
    obtain ec c1 w1 where r: "response host res topic c w = (ec, c1, w1)" by (metis prod_cases3)
    obtain cs2 w2 where l: "publish_loop host topic res cs w1 = (cs2, w2)" by fastforce
    have "told_step (c, w) (c1, w1)" using response_told [of c w host res topic] r by simp
    then have "c_id c1 = i" "c_quit_cb c1"
      "w_quits w1 = w_quits w @ (if c_has_closed c1 then [i] else [])"
      using c by (auto simp: told_step_def)
    moreover obtain ids where "w_quits w2 = w_quits w1 @ ids" "map fst cs2 = map fst cs"
      "\<forall>(i, c) \<in> set cs2. c_id c = i \<and> c_quit_cb c \<and> (c_has_closed c \<longrightarrow> i \<in> set ids)"
      using Cons.IH [OF ok l] by blast
    moreover have "cs' = (i, c1) # cs2" "w' = w2" using Cons.prems(2) p True r l by auto
    ultimately show ?thesis using p by fastforce
  next
    case False
    obtain cs2 w2 where l: "publish_loop host topic res cs w = (cs2, w2)" by fastforce
    have "cs' = (i, c) # cs2" "w' = w2" using Cons.prems(2) p False l by auto
    then show ?thesis using Cons.IH [OF ok l] c p by auto
  qed
qed simp

subsection \<open>Steps of a running server\<close>

text \<open>
  What happens to a server and in which order is up to the network, the timer, the threads of the
  pool and the program that owns it. Operations on the table take the mutex or run on the
  connection's thread, so that a run is a sequence of whole steps; that a publication is one step is an
  abstraction, which Shared_Connections takes apart. Every step is labelled with what the users of the server
  see of it.
\<close>

datatype 'u event =
    Joined u64 bool \<comment> \<open>a connection entered the table, with this setting of \<open>cross_ending\<close>\<close>
  | Subscribed u64 u32
  | Served u64 u32 bytes \<comment> \<open>a request of the connection was dispatched: key and body\<close>
  | Answered u64 rpc_result \<comment> \<open>by a context\<close>
  | Published u32 rpc_result
  | Registered codec_env bytes "'u world handler"
  | Removed bytes
  | Clock int
  | Internal

definition accept_event :: "accept_result \<Rightarrow> 'u server \<Rightarrow> 'u event" where
  "accept_event r sv =
     (if r = Accept_more \<and> sv_conn_id sv \<notin> fst ` set (sv_conns sv) then Joined (sv_conn_id sv) (sv_cross_ending sv) else Internal)"

definition read_event :: "endian \<Rightarrow> nat \<Rightarrow> u64 \<Rightarrow> 'u server \<Rightarrow> 'u world \<Rightarrow> 'u event" where
  "read_event host lim i sv w =
     (case map_of (sv_conns sv) i of
        None \<Rightarrow> Internal
      | Some c \<Rightarrow>
          if i \<notin> sv_reading sv then Internal
          else (case read_frame host lim c w of
                  (Frame_end e, _) \<Rightarrow> Internal
                | (Frame_topic, c', _) \<Rightarrow> Subscribed i (c_topic_id c')
                | (Frame_request key, c', _) \<Rightarrow> Served i key (c_body c')))"

definition answer_event :: "codec_env \<Rightarrow> (ctype \<times> cval) list \<Rightarrow> rpc_context \<Rightarrow> 'u server \<Rightarrow> 'u event" where
  "answer_event env args ctx sv =
     (case ctx_conn ctx of
        None \<Rightarrow> Internal
      | Some i \<Rightarrow> if ctx_has_response ctx \<or> map_of (sv_conns sv) i = None then Internal
                  else Answered i (packed_result env args))"

inductive server_event :: "endian \<Rightarrow> nat \<Rightarrow> 'u event \<Rightarrow> 'u server \<times> 'u world \<Rightarrow> 'u server \<times> 'u world \<Rightarrow> bool"
  for host :: endian and lim :: nat
where
  step_start: "start_impl le ec sv = (r, ec', sv') \<Longrightarrow> server_event host lim Internal (sv, w) (sv', w)"
| step_accept: "sv_accepting sv \<Longrightarrow> fresh_accept a \<Longrightarrow> accept_step a sv w = (r, sv') \<Longrightarrow>
    server_event host lim (accept_event r sv) (sv, w) (sv', w)"
| step_read: "conn_read host lim i sv w = (sv', w') \<Longrightarrow> server_event host lim (read_event host lim i sv w) (sv, w) (sv', w')"
| step_answer: "conn_answer host env args ctx sv w = (ec, ctx', sv', w') \<Longrightarrow>
    server_event host lim (answer_event env args ctx sv) (sv, w) (sv', w')"
| step_publish: "publish host env topic t v sv w = (sv', w') \<Longrightarrow>
    server_event host lim (Published (hash_name topic) (packed_result env [(t, v)])) (sv, w) (sv', w')"
| step_timer: "sv_need_check sv \<Longrightarrow> check_timer_step ec sv w = Some (sv', closed) \<Longrightarrow>
    server_event host lim Internal (sv, w) (sv', w)"
| step_stop: "server_stop sv w = (sv', closed) \<Longrightarrow> server_event host lim Internal (sv, w) (sv', w)"
| step_register: "server_register env name f sv = Inr sv' \<Longrightarrow> body_keeps_quits f \<Longrightarrow>
    server_event host lim (Registered env name f) (sv, w) (sv', w)"
| step_remove: "server_event host lim (Removed name) (sv, w) (server_remove name sv, w)"
| step_max_age: "server_event host lim Internal (sv, w) (set_conn_max_age dur sv, w)"
| step_interval: "server_event host lim Internal (sv, w) (set_check_conn_interval dur sv, w)"
| step_no_delay: "server_event host lim Internal (sv, w) (enable_tcp_no_delay r sv, w)"
| step_cross: "server_event host lim Internal (sv, w) (enable_cross_ending r sv, w)"
| step_clock: "w_now w \<le> t \<Longrightarrow> server_event host lim (Clock t) (sv, w) (sv, w\<lparr>w_now := t\<rparr>)"

abbreviation server_step :: "endian \<Rightarrow> nat \<Rightarrow> 'u server \<times> 'u world \<Rightarrow> 'u server \<times> 'u world \<Rightarrow> bool" where
  "server_step host lim svw svw' \<equiv> (\<exists>e. server_event host lim e svw svw')"

lemma server_steps_first:
  "server_event host lim e svw svw1 \<Longrightarrow> (server_step host lim)\<^sup>*\<^sup>* svw1 svw2 \<Longrightarrow> (server_step host lim)\<^sup>*\<^sup>* svw svw2"
  by (rule converse_rtranclp_into_rtranclp [where r = "server_step host lim"]) blast+

lemma server_steps_last:
  "(server_step host lim)\<^sup>*\<^sup>* svw svw1 \<Longrightarrow> server_event host lim e svw1 svw2 \<Longrightarrow> (server_step host lim)\<^sup>*\<^sup>* svw svw2"
  by (rule rtranclp.rtrancl_into_rtrancl [where r = "server_step host lim"]) blast+

text \<open>A run, with what was seen of it.\<close>

inductive server_run :: "endian \<Rightarrow> nat \<Rightarrow> 'u server \<times> 'u world \<Rightarrow> 'u event list \<Rightarrow> 'u server \<times> 'u world \<Rightarrow> bool"
  for host :: endian and lim :: nat and svw :: "'u server \<times> 'u world"
where
  run_nil: "server_run host lim svw [] svw"
| run_snoc: "server_run host lim svw es svw1 \<Longrightarrow> server_event host lim e svw1 svw2 \<Longrightarrow> server_run host lim svw (es @ [e]) svw2"

lemma server_run_steps: "server_run host lim svw es svw' \<Longrightarrow> (server_step host lim)\<^sup>*\<^sup>* svw svw'"
  by (induction rule: server_run.induct) (auto intro: rtranclp.rtrancl_into_rtrancl)

lemma server_steps_run: "(server_step host lim)\<^sup>*\<^sup>* svw svw' \<Longrightarrow> \<exists>es. server_run host lim svw es svw'"
  by (induction rule: rtranclp_induct) (blast intro: run_nil run_snoc)+

text \<open>
  \<open>async_start\<close> returns at once. \<open>start\<close> waits on the future of the accept coroutine, when this call has
  started it, while the server's threads go on.
\<close>

definition server_async_start :: "listen_env \<Rightarrow> error_code \<Rightarrow> 'u server \<Rightarrow> error_code \<times> error_code \<times> 'u server" where
  "server_async_start le static_ec sv = start_impl le static_ec sv"

inductive server_start ::
  "endian \<Rightarrow> nat \<Rightarrow> listen_env \<Rightarrow> error_code \<Rightarrow> 'u server \<times> 'u world \<Rightarrow> error_code \<Rightarrow> 'u server \<times> 'u world \<Rightarrow> bool"
  for host :: endian and lim :: nat and le :: listen_env and static_ec :: error_code
where
  start_over: "start_impl le static_ec sv = (ec, ec', sv') \<Longrightarrow> sv_has_stop sv \<or> sv_start_flag sv \<or> ec_set ec \<Longrightarrow>
    server_start host lim le static_ec (sv, w) ec (sv', w)"
| start_waits: "start_impl le static_ec sv = (ec, ec', sv') \<Longrightarrow> \<not> sv_has_stop sv \<Longrightarrow> \<not> sv_start_flag sv \<Longrightarrow> \<not> ec_set ec \<Longrightarrow>
    (server_step host lim)\<^sup>*\<^sup>* (sv', w) (sv2, w2) \<Longrightarrow> \<not> sv_accepting sv2 \<Longrightarrow>
    server_start host lim le static_ec (sv, w) ec (sv2, w2)"

inductive_cases server_eventE: "server_event host lim e (sv, w) (sv', w')"

lemma accept_step_inv:
  assumes "accept_step a sv w = (r, sv')" "server_inv (sv, w)"
  shows "server_inv (sv', w)"
  using assms pool_inv_ops(3) [of "sv_pool sv"]
  by (auto simp: accept_step_def server_inv_def table_ok_def Let_def new_connection_def set_check_timeout_def
      set_quit_callback_def split: accepted.splits if_splits)

lemma run_quits_inv:
  assumes "told_table (sv_conns sv) (w_quits w)" "router_inv (sv_router sv)" "table_keeps_quits (sv_router sv)"
    "pool_inv (sv_pool sv)"
  shows "server_inv (run_quits (sv, w))"
  using assms told_table_filter [OF assms(1)] by (simp add: server_inv_def run_quits_simp)

text \<open>A connection of the table changes by a step that tells of closing.\<close>

lemma put_told_inv:
  assumes "server_inv (sv, w)" "map_of (sv_conns sv) i = Some c" "told_step (c, w) (c', w')"
    and "sv' = (put_connection i c' sv)\<lparr>sv_reading := rd\<rparr>"
  shows "server_inv (run_quits (sv', w'))"
proof -
  have "told_table (sv_conns sv') (w_quits w')"
    using assms told_table_update [OF _ assms(2, 3)] by (simp add: server_inv_def put_connection_def)
  then show ?thesis
    using assms(1, 4) by (intro run_quits_inv) (simp_all add: server_inv_def put_connection_def)
qed

lemma conn_read_inv:
  assumes "conn_read host lim i sv w = (sv', w')" "server_inv (sv, w)"
  shows "server_inv (sv', w')"
proof (cases "map_of (sv_conns sv) i")
  case (Some c)
  obtain r c1 w1 where rr: "read_request host lim (sv_router sv) c w = (r, c1, w1)" by (metis prod_cases3)
  have "told_step (c, w) (c1, w1)"
    using read_request_told [of "sv_router sv" c w host lim] rr assms(2)
    by (simp add: server_inv_def table_keeps_quits)
  note inv = put_told_inv [OF assms(2) Some this refl]
  show ?thesis
  proof (cases "i \<in> sv_reading sv")
    case True
    then have "(sv', w') = run_quits ((put_connection i c1 sv)\<lparr>sv_reading := (if r = None then sv_reading sv
        else sv_reading sv - {i})\<rparr>, w1)"
      using assms(1) Some rr by (simp add: conn_read_def)
    then show ?thesis using inv by metis
  qed (use assms Some in \<open>simp add: conn_read_def\<close>)
qed (use assms in \<open>simp add: conn_read_def\<close>)

lemma ctx_response_told:
  assumes "ctx_response host env args ctx c w = (ec, ctx', c', w')"
  shows "told_step (c, w) (c', w')"
  using assms response_told [of c w host "packed_result env args" 0]
  by (auto simp: ctx_response_def told_stepI split: if_splits prod.splits)

lemma conn_answer_inv:
  assumes "conn_answer host env args ctx sv w = (ec, ctx', sv', w')" "server_inv (sv, w)"
  shows "server_inv (sv', w')"
proof (cases "ctx_conn ctx")
  case (Some i)
  show ?thesis
  proof (cases "map_of (sv_conns sv) i")
    case c: (Some c)
    obtain e1 ctx1 c1 w1 where r: "ctx_response host env args ctx c w = (e1, ctx1, c1, w1)" by (metis prod_cases4)
    from put_told_inv [OF assms(2) c ctx_response_told [OF r], of _ "sv_reading sv"] show ?thesis
      using assms Some c r by (simp add: conn_answer_def put_connection_def)
  qed (use assms Some in \<open>auto simp: conn_answer_def split: if_splits\<close>)
qed (use assms in \<open>simp add: conn_answer_def\<close>)

lemma publish_inv:
  assumes "publish host env topic t v sv w = (sv', w')" "server_inv (sv, w)"
  shows "server_inv (sv', w')"
proof -
  obtain cs w1 where p: "publish_loop host (hash_name topic) (packed_result env [(t, v)]) (sv_conns sv) w = (cs, w1)"
    by fastforce
  have ok: "table_ok (sv_conns sv)" "w_quits w = []" using assms(2) by (auto simp: server_inv_def)
  have "told_table cs (w_quits w1)"
    using publish_loop_told [OF ok(1) p] ok by (auto simp: told_table_def table_ok_def)
  then have "server_inv (run_quits (sv\<lparr>sv_conns := cs\<rparr>, w1))"
    by (intro run_quits_inv) (use assms(2) in \<open>simp_all add: server_inv_def\<close>)
  then show ?thesis using assms(1) p by (simp add: publish_def)
qed

lemma server_event_inv: "server_event host lim e svw svw' \<Longrightarrow> server_inv svw \<Longrightarrow> server_inv svw'"
proof (induction rule: server_event.induct)
  case (step_start le ec sv r ec' sv' w)
  then show ?case
    by (auto simp: start_impl_def server_listen_def server_inv_def pool_inv_ops Let_def split: if_splits prod.splits)
next
  case (step_timer sv ec w sv' closed)
  then show ?case
    by (auto simp: check_timer_step_def check_timeout_def server_inv_def Let_def table_ok_filter split: if_splits)
next
  case (step_stop sv w sv' closed)
  then show ?case
    by (auto simp: server_stop_def server_inv_def table_ok_def pool_inv_ops split: if_splits)
next
  case (step_register env name f sv sv' w)
  then show ?case
    by (auto simp: server_register_def server_inv_def split: sum.splits
        intro: router.register_inv table_keeps_register)
next
  case (step_remove name sv w)
  then show ?case by (simp add: server_remove_def server_inv_def router.remove_inv table_keeps_remove)
next
  case (step_accept sv a w r sv')
  then show ?case using accept_step_inv by blast
next
  case (step_read i sv w sv' w')
  then show ?case using conn_read_inv by blast
next
  case (step_answer env args ctx sv w ec ctx' sv' w')
  then show ?case using conn_answer_inv by blast
next
  case (step_publish env topic t v sv w sv' w')
  then show ?case using publish_inv by blast
qed (simp_all add: server_inv_def set_conn_max_age_def set_check_conn_interval_def enable_tcp_no_delay_def
       enable_cross_ending_def)

lemma server_step_inv: "server_step host lim svw svw' \<Longrightarrow> server_inv svw \<Longrightarrow> server_inv svw'"
  by (auto intro: server_event_inv)

text \<open>
  When the waiting \<open>start\<close> returns, accepting is over or it was this call that never began it, and the
  table is in order after whatever happened meanwhile.
\<close>

lemma server_start_inv:
  assumes "server_start host lim le static_ec svw ec svw'" "server_inv svw"
  shows "server_inv svw' \<and> (ec_set ec \<or> sv_has_stop (fst svw) \<or> sv_start_flag (fst svw) \<or> \<not> sv_accepting (fst svw'))"
  using assms
proof (induction rule: server_start.induct)
  case (start_over sv ec ec' sv' w)
  then show ?case using server_event_inv [OF step_start [OF start_over(1)]] by auto
next
  case (start_waits sv ec ec' sv' w sv2 w2)
  have "server_inv (sv', w)" using server_event_inv [OF step_start [OF start_waits(1)]] start_waits.prems by blast
  with start_waits(5) have "server_inv (sv2, w2)" by (induction rule: rtranclp_induct) (auto intro: server_step_inv)
  then show ?case using start_waits(6) by simp
qed

lemma server_inv_new: "server_inv (rpc_server_new host port n, world0 u)"
  by (simp add: server_inv_def table_ok_def rpc_server_new_def world0_def router_inv_empty pool_inv_ops
      pool_inv_new table_keeps_quits_def Let_def) (simp add: empty_router_def)

lemma server_reachable_inv: "(server_step host lim)\<^sup>*\<^sup>* svw svw' \<Longrightarrow> server_inv svw \<Longrightarrow> server_inv svw'"
  by (induction rule: rtranclp_induct) (auto intro: server_step_inv)

text \<open>
  C13: however starts, accepts, reads, publications, timer ticks, registrations and stops follow
  each other, the server's table holds every connection at most once and under its own identifier,
  and never one that has been closed: a connection that closes itself has left the table when the
  step that closed it is over. The handler table stays consistent along the way.
\<close>

theorem server_table_never_holds_closed:
  assumes "(server_step host lim)\<^sup>*\<^sup>* (rpc_server_new address port n, world0 u) (sv, w)"
  shows "distinct (map fst (sv_conns sv)) \<and> w_quits w = [] \<and> router_inv (sv_router sv)
    \<and> (\<forall>(i, c) \<in> set (sv_conns sv). c_id c = i \<and> \<not> c_has_closed c)"
  using server_reachable_inv [OF assms server_inv_new] by (auto simp: server_inv_def table_ok_def)

theorem server_table_never_holds_closed_witness:
  "\<exists>sv. (server_step Little 100)\<^sup>*\<^sup>* (rpc_server_new ''localhost'' ''9000'' 4, world0 ()) (sv, world0 ())
    \<and> length (sv_conns sv) = 1 \<and> distinct (map fst (sv_conns sv))"
proof -
  let ?sv = "rpc_server_new ''localhost'' ''9000'' 4 :: unit server"
  let ?le = "\<lparr>le_resolve = no_error, le_open = no_error, le_bind = no_error, le_listen = no_error\<rparr>"
  obtain r ec' sv1 where s: "start_impl ?le no_error ?sv = (r, ec', sv1)" by (metis prod_cases3)
  obtain q sv2 where a: "accept_step (Accept_ok (fresh_socket [])) sv1 (world0 ()) = (q, sv2)" by fastforce
  have sv1: "sv_accepting sv1" "sv_conns sv1 = []"
    using s by (auto simp: start_impl_def server_listen_def rpc_server_new_def Let_def)
  have f: "fresh_accept (Accept_ok (fresh_socket []))" by (simp add: fresh_accept_def fresh_socket_def)
  have run: "(server_step Little 100)\<^sup>*\<^sup>* (?sv, world0 ()) (sv2, world0 ())"
    by (rule server_steps_first [OF step_start [OF s] server_steps_first [OF step_accept [OF sv1(1) f a] rtranclp.rtrancl_refl]])
  have l: "length (sv_conns sv2) = 1"
    using a sv1(2) by (auto simp: accept_step_def Let_def fresh_socket_def no_error_def operation_aborted_def bad_descriptor_def)
  show ?thesis
    using server_table_never_holds_closed [OF run] run l by (intro exI [of _ sv2]) simp
qed

section \<open>Publication reaches the subscribers\<close>

lemma publish_loop_delivers:
  assumes "\<forall>(i, c) \<in> set cs. c_topic_id c = topic \<longrightarrow> sk_open (c_socket c) \<and> sk_writes (c_socket c) = []"
  shows "publish_loop host topic res cs w =
    (map (\<lambda>(i, c). if c_topic_id c = topic
        then (i, (set_last_time w c)\<lparr>c_socket := (c_socket c)\<lparr>sk_tx := sk_tx (c_socket c)
               @ response_frame host (c_cross_ending c) res topic\<rparr>\<rparr>) else (i, c)) cs, w)"
  using assms by (induction cs) (auto simp: response_success)

text \<open>
  A publication writes one frame, of type 1 and with the digest of the topic, to every connection
  that is subscribed to the topic, and nothing to any other connection; no connection is lost.
\<close>

theorem publish_reaches_subscribers:
  assumes "w_quits w = []"
    and "\<forall>(i, c) \<in> set (sv_conns sv). c_topic_id c = hash_name topic \<longrightarrow> sk_open (c_socket c) \<and> sk_writes (c_socket c) = []"
    and "publish host env topic t v sv w = (sv', w')"
  shows "map fst (sv_conns sv') = map fst (sv_conns sv) \<and> w' = w
    \<and> map (\<lambda>(i, c). sk_tx (c_socket c)) (sv_conns sv') =
      map (\<lambda>(i, c). sk_tx (c_socket c) @
        (if c_topic_id c = hash_name topic
         then response_frame host (c_cross_ending c) (rpc_result_of_string (pack_args env [(t, v)])) (hash_name topic)
         else [])) (sv_conns sv)"
  using assms publish_loop_delivers [OF assms(2), of host "packed_result env [(t, v)]" w]
  by (auto simp: publish_def run_quits_simp response_frame_packed split: prod.splits)

theorem publish_reaches_subscribers_witness:
  "\<exists>sv'. publish Little (default_env True) [97] T_int32 (V_int 7)
      ((rpc_server_new [] [] 1)\<lparr>sv_conns := [(0, (new_connection (fresh_socket []) 0 False 0)\<lparr>c_topic_id := hash_name [97]\<rparr>)]\<rparr>)
      (world0 ()) = (sv', world0 ())
    \<and> map (\<lambda>(i, c). sk_tx (c_socket c)) (sv_conns sv')
      = [response_frame Little False (rpc_result_of_string (pack_args (default_env True) [(T_int32, V_int 7)])) (hash_name [97])]"
proof -
  let ?sv = "(rpc_server_new [] [] 1)\<lparr>sv_conns := [(0, (new_connection (fresh_socket []) 0 False 0)\<lparr>c_topic_id := hash_name [97]\<rparr>)]\<rparr>"
  obtain sv' w' where p: "publish Little (default_env True) [97] T_int32 (V_int 7) ?sv (world0 ()) = (sv', w')" by fastforce
  show ?thesis
    using publish_reaches_subscribers [OF _ _ p] p
    by (auto simp: world0_def new_connection_def fresh_socket_def)
qed

section \<open>Idle connections, stopping, starting\<close>

text \<open>
  A tick of the check timer closes and removes exactly the connections whose last activity lies
  longer back than the timeout, without a callback, and keeps the others as they are; after a stop
  a tick does nothing.
\<close>

theorem check_timer_closes_idle:
  "check_timer_step ec sv w =
     (if ec_set ec \<or> sv_stop_timer sv then None
      else Some (sv\<lparr>sv_conns := [p \<leftarrow> sv_conns sv. w_now w - c_last_rwtime (snd p) \<le> sv_timeout_duration sv]\<rparr>,
        map (\<lambda>p. if c_has_closed (snd p) then snd p
                 else (snd p)\<lparr>c_socket := sk_close (c_socket (snd p)), c_has_closed := True\<rparr>)
          [p \<leftarrow> sv_conns sv. sv_timeout_duration sv < w_now w - c_last_rwtime (snd p)]))"
  by (auto simp: check_timer_step_def check_timeout_def conn_close_def Let_def not_less intro!: map_cong)

lemma read_request_keeps_time:
  assumes "\<not> c_check_timeout c"
  shows "c_last_rwtime (fst (snd (read_request host lim rt c w))) = c_last_rwtime c
    \<and> \<not> c_check_timeout (fst (snd (read_request host lim rt c w)))"
  using assms
  by (auto simp: read_request_def read_frame_def route_request_def response_def conn_close_def set_last_time_def Let_def
      split: prod.splits if_splits)

text \<open>
  A connection that was accepted before \<open>set_conn_max_age\<close> never records its activity, so that it
  is closed as idle when it is older than the timeout, however recently it was served.
\<close>

theorem early_connection_closed_while_active:
  assumes "\<not> c_check_timeout c" "read_request host lim rt c w = (r, c', w')"
    and "sv_timeout_duration sv < w_now w2 - c_last_rwtime c" "\<not> sv_stop_timer sv" "(i, c') \<in> set (sv_conns sv)"
  shows "\<exists>sv' closed. check_timer_step no_error sv w2 = Some (sv', closed) \<and> (i, c') \<notin> set (sv_conns sv')"
  using assms read_request_keeps_time [OF assms(1), of host lim rt w]
  by (auto simp: check_timer_step_def check_timeout_def Let_def)

theorem early_connection_closed_while_active_witness:
  "\<exists>c' w' sv' closed.
     read_request Little 100 empty_router (new_connection (fresh_socket (request_frame Little False 5 [])) 0 False 0)
       ((world0 ())\<lparr>w_now := 20\<rparr>) = (None, c', w')
     \<and> check_timer_step no_error ((set_conn_max_age 10 (rpc_server_new [] [] 1))\<lparr>sv_conns := [(0, c')]\<rparr>)
         ((world0 ())\<lparr>w_now := 20\<rparr>) = Some (sv', closed) \<and> (0, c') \<notin> set (sv_conns sv')"
proof -
  let ?c = "new_connection (fresh_socket (request_frame Little False 5 [])) 0 False 0"
  let ?w = "(world0 ())\<lparr>w_now := 20\<rparr>"
  obtain r c' w' where rr: "read_request Little 100 empty_router ?c ?w = (r, c', w')" by (metis prod_cases3)
  let ?sv = "(set_conn_max_age 10 (rpc_server_new [] [] 1))\<lparr>sv_conns := [(0, c')]\<rparr>"
  have "r = None"
    using rr read_request_frame [of ?c Little 5 "[]" "[]" 100 empty_router ?w]
    by (auto simp: new_connection_def fresh_socket_def route_def empty_router_def set_connection_def world0_def
        response_def async_write_success set_last_time_def Let_def)
  moreover have "\<exists>sv' closed. check_timer_step no_error ?sv ?w = Some (sv', closed) \<and> (0, c') \<notin> set (sv_conns sv')"
    by (rule early_connection_closed_while_active [OF _ rr])
       (simp_all add: new_connection_def set_conn_max_age_def rpc_server_new_def Let_def)
  ultimately show ?thesis using rr by blast
qed

text \<open>
  Stopping closes every connection of the table without a callback, empties the table, closes the
  acceptor, ends the timer and drops the work guards of the pool. Stopping again does nothing, and
  a stopped server cannot be started.
\<close>

theorem server_stop_behaviour:
  assumes "\<not> sv_has_stop sv" "\<not> sv_stop_flag sv" "server_stop sv w = (sv', closed)"
  shows "sv_conns sv' = [] \<and> \<not> sv_acceptor_open sv' \<and> works (sv_pool sv') = (if pool_stop_flag (sv_pool sv) then works (sv_pool sv) else [])
    \<and> length closed = length (sv_conns sv) \<and> (\<forall>c \<in> set closed. c_has_closed c)
    \<and> server_stop sv' w2 = (sv', []) \<and> check_timer_step ec sv' w2 = None
    \<and> start_impl le static_ec sv' = (operation_canceled, static_ec, sv')"
proof -
  have sv': "sv' = sv\<lparr>sv_stop_flag := True, sv_has_stop := True, sv_acceptor_open := False, sv_stop_timer := True,
        sv_conns := [], sv_pool := pool_stop (sv_pool sv)\<rparr>"
    and cl: "closed = map (\<lambda>p. fst (conn_close False (snd p) w)) (sv_conns sv)"
    using assms by (simp_all add: server_stop_def)
  have "\<forall>c \<in> set closed. c_has_closed c" by (auto simp: cl conn_close_def)
  moreover have "length closed = length (sv_conns sv)" by (simp add: cl)
  moreover have "server_stop sv' w2 = (sv', [])" "check_timer_step ec sv' w2 = None"
    "start_impl le static_ec sv' = (operation_canceled, static_ec, sv')" "sv_conns sv' = []" "\<not> sv_acceptor_open sv'"
    by (simp_all add: sv' server_stop_def check_timer_step_def start_impl_def)
  moreover have "works (sv_pool sv') = (if pool_stop_flag (sv_pool sv) then works (sv_pool sv) else [])"
    by (simp add: sv' pool_stop_def)
  ultimately show ?thesis by blast
qed

definition listen_ok :: listen_env where
  "listen_ok = \<lparr>le_resolve = no_error, le_open = no_error, le_bind = no_error, le_listen = no_error\<rparr>"

theorem server_stop_behaviour_witness:
  "\<exists>sv' closed. server_stop (rpc_server_new [] [] 2 :: unit server) (world0 ()) = (sv', closed)
     \<and> start_impl listen_ok no_error sv' = (operation_canceled, no_error, sv')"
proof -
  let ?sv = "rpc_server_new [] [] 2 :: unit server"
  obtain sv' closed where s: "server_stop ?sv (world0 ()) = (sv', closed)" by fastforce
  have n: "\<not> sv_has_stop ?sv" "\<not> sv_stop_flag ?sv" by (simp_all add: rpc_server_new_def Let_def)
  show ?thesis
    using server_stop_behaviour [OF n s, of "world0 ()" no_error listen_ok no_error] s by blast
qed

text \<open>
  An accept that fails, for instance for want of file descriptors, ends the accept loop with an
  exception in the default configuration: only \<open>operation_aborted\<close> and \<open>bad_descriptor\<close> are looked at,
  and setting the option of the unopened socket throws. No client is accepted afterwards.
\<close>

theorem accept_error_ends_accepting:
  assumes "sv_tcp_no_delay sv" "ec \<noteq> operation_aborted" "ec \<noteq> bad_descriptor"
  shows "\<exists>sv'. accept_step (Accept_error ec) sv w = (Accept_threw, sv') \<and> \<not> sv_accepting sv' \<and> sv_conns sv' = sv_conns sv"
  using assms by (simp add: accept_step_def Let_def fresh_socket_def)

theorem accept_error_ends_accepting_witness:
  "\<exists>sv'. accept_step (Accept_error \<lparr>ec_value = 24, ec_category = system_category\<rparr>) (rpc_server_new [] [] 1) (world0 ())
     = (Accept_threw, sv')"
  using accept_error_ends_accepting [of "rpc_server_new [] [] 1" "\<lparr>ec_value = 24, ec_category = system_category\<rparr>" "world0 ()"]
  by (auto simp: rpc_server_new_def Let_def operation_aborted_def bad_descriptor_def)

text \<open>
  The error code of \<open>start\<close> is one static object for all servers of the program. A server that
  failed to listen is told success by its next \<open>start\<close> once another server has started.
\<close>

theorem start_error_shared_between_servers:
  assumes "start_impl le0 ec0 failed = (e, ec1, failed')" "\<not> sv_has_stop failed" "\<not> sv_start_flag failed" "ec_set e"
    and "start_impl le1 ec1 other = (e', ec2, other')" "\<not> sv_has_stop other" "\<not> sv_start_flag other" "\<not> ec_set e'"
  shows "\<exists>e''. start_impl le2 ec2 failed' = (e'', ec2, failed') \<and> \<not> ec_set e'' \<and> sv_accepting failed' = sv_accepting failed"
  using assms
  by (auto simp: start_impl_def server_listen_def Let_def split: if_splits prod.splits)

definition address_in_use :: error_code where
  "address_in_use = \<lparr>ec_value = 98, ec_category = system_category\<rparr>"

theorem start_error_shared_between_servers_witness:
  "\<exists>failed' other' ec1 ec2 e''.
     start_impl (listen_ok\<lparr>le_bind := address_in_use\<rparr>) no_error (rpc_server_new [] [] 1 :: unit server) = (address_in_use, ec1, failed')
     \<and> start_impl listen_ok ec1 (rpc_server_new [] [] 1 :: unit server) = (no_error, ec2, other')
     \<and> start_impl listen_ok ec2 failed' = (e'', ec2, failed') \<and> \<not> ec_set e''"
proof -
  let ?sv = "rpc_server_new [] [] 1 :: unit server"
  obtain a1 ec1 failed' where a: "start_impl (listen_ok\<lparr>le_bind := address_in_use\<rparr>) no_error ?sv = (a1, ec1, failed')"
    by (metis prod_cases3)
  obtain b1 ec2 other' where b: "start_impl listen_ok ec1 ?sv = (b1, ec2, other')" by (metis prod_cases3)
  have n: "\<not> sv_has_stop ?sv" "\<not> sv_start_flag ?sv" by (simp_all add: rpc_server_new_def Let_def)
  have set: "ec_set address_in_use" by (simp add: ec_set_def address_in_use_def)
  have v: "a1 = address_in_use" "b1 = no_error"
    using a b n set by (auto simp: start_impl_def server_listen_def listen_ok_def Let_def)
  have e: "ec_set a1" "\<not> ec_set b1" using v set by simp_all
  show ?thesis
    using start_error_shared_between_servers [OF a n e(1) b n e(2), of listen_ok] a b v by blast
qed

end
