(* ===== verification/Client.thy ===== *)
theory Client
  imports Server "HOL-Library.AList"
begin

text \<open>
  The client, include/rest_rpc/rpc_client.hpp: connecting and resetting, calls with a timeout,
  subscriptions, closing. The answers of the resolver, of the connection attempt and of the
  watchdog timer are inputs of the operations. A coroutine ends by returning or by an exception;
  it may also be left waiting for ever, complete the same subscription twice, or read outside an
  object, which the model keeps apart as outcomes of their own.
\<close>

section \<open>State\<close>

text \<open>
  A \<open>sub_operation\<close>: no completion handler yet, waiting with one, or completed with the result. A
  completed operation keeps its handler.
\<close>

datatype sub_operation = Sub_empty | Sub_waiting | Sub_done bool

record client =
  cl_impl :: socket
  cl_has_closed :: bool
  cl_body :: bytes
  cl_sub_ops :: "(u32 \<times> sub_operation) list"
  cl_tcp_no_delay :: bool
  cl_cross_ending :: bool
  cl_should_reset :: bool

definition closed_socket :: socket where
  "closed_socket = (fresh_socket [])\<lparr>sk_open := False\<rparr>"

definition rpc_client_new :: client where
  "rpc_client_new = \<lparr>cl_impl = closed_socket, cl_has_closed = True, cl_body = [], cl_sub_ops = [],
     cl_tcp_no_delay = True, cl_cross_ending = False, cl_should_reset = False\<rparr>"

record call_result =
  cr_ec :: rpc_errc
  cr_value :: cval

text \<open>\<open>call_result<R> result{}\<close>\<close>

definition init_result :: "ctype \<Rightarrow> call_result" where
  "init_result R = \<lparr>cr_ec = ok, cr_value = default_val R\<rparr>"

datatype 'a outcome =
    Returned 'a
  | Threw exn
  | Completed_twice
  | Out_of_bounds
  | Waits_forever

section \<open>Closing, connecting\<close>

definition close_socket :: "client \<Rightarrow> client" where
  "close_socket cl = cl\<lparr>cl_impl := sk_close (cl_impl cl), cl_has_closed := True\<rparr>"

definition client_close :: "client \<Rightarrow> client" where
  "client_close cl = (if cl_has_closed cl then cl else close_socket cl)"

text \<open>The destructor.\<close>

definition client_destroy :: "client \<Rightarrow> client" where
  "client_destroy cl = client_close cl"

text \<open>
  \<open>reset\<close> makes a new socket and opens it; the subscriptions stay. The new socket is not connected, and
  whether it could be opened or not, every read and write on it fails as on a closed one.
\<close>

definition client_reset :: "client \<Rightarrow> client" where
  "client_reset cl =
     (let cl = (if \<not> cl_has_closed cl then close_socket cl else cl)
      in cl\<lparr>cl_impl := closed_socket\<rparr>)"

text \<open>Which side of \<open>watchdog(duration) || operation\<close> is first, with the operation's error code.\<close>

datatype race = Watchdog | Finished error_code

text \<open>The timer: cancelled, with an error code, when the operation was first.\<close>

definition watchdog :: "error_code \<Rightarrow> client \<Rightarrow> error_code \<times> client" where
  "watchdog ec cl = (if \<not> ec_set ec then (ec, close_socket cl) else (ec, cl))"

definition connect ::
  "race \<Rightarrow> race \<Rightarrow> socket \<Rightarrow> client \<Rightarrow> error_code \<times> client"
where
  "connect resolved connected sock cl =
     (let cl = (if cl_should_reset cl then client_reset cl else cl\<lparr>cl_should_reset := True\<rparr>) in
      case resolved of
        Watchdog \<Rightarrow> (make_error_code resolve_timeout, snd (watchdog no_error cl))
      | Finished ec \<Rightarrow>
          if ec_set ec then (ec, cl)
          else case connected of
            Watchdog \<Rightarrow> (make_error_code connection_timeout, snd (watchdog no_error cl))
          | Finished conn_ec \<Rightarrow>
              if ec_set conn_ec then (conn_ec, cl)
              else (no_error, cl\<lparr>cl_impl := sock, cl_has_closed := False\<rparr>))"

text \<open>\<open>connect(address)\<close>: the resolver answers for the two parts of the address.\<close>

definition connect_address ::
  "(string \<Rightarrow> string \<Rightarrow> race) \<Rightarrow> race \<Rightarrow> socket \<Rightarrow> string \<Rightarrow> client \<Rightarrow> error_code \<times> client"
where
  "connect_address resolve connected sock address cl =
     (case split_address address of (host, port) \<Rightarrow> connect (resolve host port) connected sock cl)"

definition has_closed :: "client \<Rightarrow> bool" where
  "has_closed cl = cl_has_closed cl"

definition client_enable_tcp_no_delay :: "bool \<Rightarrow> client \<Rightarrow> client" where
  "client_enable_tcp_no_delay r cl = cl\<lparr>cl_tcp_no_delay := r\<rparr>"

definition client_enable_cross_ending :: "bool \<Rightarrow> client \<Rightarrow> client" where
  "client_enable_cross_ending r cl = cl\<lparr>cl_cross_ending := r\<rparr>"

section \<open>Subscriptions\<close>

text \<open>\<open>sub_operation::complete\<close>\<close>

fun sub_complete :: "bool \<Rightarrow> sub_operation \<Rightarrow> sub_operation outcome" where
  "sub_complete r Sub_empty = Threw (Std_exception ''bad_function_call'')"
| "sub_complete r Sub_waiting = Returned (Sub_done r)"
| "sub_complete r (Sub_done _) = Completed_twice"

text \<open>
  The loop of \<open>comple_all\<close>: what was completed before an exception stays completed.
\<close>

fun comple_ops :: "(u32 \<times> sub_operation) list \<Rightarrow> unit outcome \<times> (u32 \<times> sub_operation) list" where
  "comple_ops [] = (Returned (), [])"
| "comple_ops ((i, s) # ops) =
     (case sub_complete False s of
        Returned s' \<Rightarrow> (case comple_ops ops of (out, ops') \<Rightarrow> (out, (i, s') # ops'))
      | Threw e \<Rightarrow> (Threw e, (i, s) # ops)
      | Completed_twice \<Rightarrow> (Completed_twice, (i, s) # ops)
      | Out_of_bounds \<Rightarrow> (Out_of_bounds, (i, s) # ops)
      | Waits_forever \<Rightarrow> (Waits_forever, (i, s) # ops))"

text \<open>\<open>comple_all(); co_return result;\<close>\<close>

definition comple_all :: "call_result \<Rightarrow> client \<Rightarrow> call_result outcome \<times> client" where
  "comple_all result cl =
     (case comple_ops (cl_sub_ops cl) of (out, ops) \<Rightarrow> (map_outcome (\<lambda>_. result) out, cl\<lparr>cl_sub_ops := ops\<rparr>))"

section \<open>Calls\<close>

text \<open>The end of \<open>wait_response\<close>: a publication completes the subscription to its topic.\<close>

definition complete_topic :: "rest_rpc_header \<Rightarrow> call_result \<Rightarrow> client \<Rightarrow> call_result outcome \<times> client" where
  "complete_topic resp_header result cl =
     (if msg_type resp_header = 1
      then (case map_of (cl_sub_ops cl) (function_id resp_header) of
              None \<Rightarrow> (Returned result, cl)
            | Some s \<Rightarrow>
                (case sub_complete True s of
                   Returned s' \<Rightarrow> (Returned result,
                     cl\<lparr>cl_sub_ops := AList.update (function_id resp_header) s' (cl_sub_ops cl)\<rparr>)
                 | Threw e \<Rightarrow> (Threw e, cl)
                 | Completed_twice \<Rightarrow> (Completed_twice, cl)
                 | Out_of_bounds \<Rightarrow> (Out_of_bounds, cl)
                 | Waits_forever \<Rightarrow> (Waits_forever, cl)))
      else (Returned result, cl))"

definition wait_response ::
  "endian \<Rightarrow> nat \<Rightarrow> codec_env \<Rightarrow> ctype \<Rightarrow> client \<Rightarrow> call_result outcome \<times> client"
where
  "wait_response host mem_limit env R cl =
     (let result = init_result R in
      case async_read header_size (cl_impl cl) of (ec, hb, s) \<Rightarrow>
      let cl = cl\<lparr>cl_impl := s\<rparr> in
      if ec_set ec then comple_all (result\<lparr>cr_ec := read_error\<rparr>) (close_socket cl)
      else
        let resp_header = header_of_bytes host hb in
        if magic resp_header \<noteq> 39 then comple_all (result\<lparr>cr_ec := protocol_error\<rparr>) cl
        else
          let resp_header = (if cl_cross_ending cl then parse_recieved host resp_header else resp_header) in
          if mem_limit < unat (body_len resp_header) then (Threw (Std_exception ''basic_string::reserve''), cl)
          else
            case async_read (unat (body_len resp_header)) (cl_impl cl) of (ec, bs, s) \<Rightarrow>
            let cl = cl\<lparr>cl_impl := s, cl_body := bs\<rparr> in
            if ec_set ec then comple_all (result\<lparr>cr_ec := read_error\<rparr>) (close_socket cl)
            else
              let result = result\<lparr>cr_ec := errc_of_byte (if bs = [] then 0 else hd bs)\<rparr> in
              if is_void R then complete_topic resp_header result cl
              else if bs = [] then (Out_of_bounds, cl) \<comment> \<open>a view of \<open>0 - 1\<close> characters\<close>
              else case unpack env R (tl bs) of
                     Inl e \<Rightarrow> (Threw e, cl)
                   | Inr v \<Rightarrow> complete_topic resp_header (result\<lparr>cr_value := v\<rparr>) cl)"

definition call_frame :: "endian \<Rightarrow> bool \<Rightarrow> codec_env \<Rightarrow> rest_rpc_header \<Rightarrow> (ctype \<times> cval) list \<Rightarrow> bytes" where
  "call_frame host cross env header args =
     (let buf = get_buffer env args;
          header = header\<lparr>body_len := of_nat (length buf)\<rparr>;
          header = (if cross then prepare_for_send host header else header)
      in header_bytes host header @ (if args \<noteq> [] then buf else []))"

definition call_impl ::
  "endian \<Rightarrow> nat \<Rightarrow> codec_env \<Rightarrow> ctype \<Rightarrow> rest_rpc_header \<Rightarrow> (ctype \<times> cval) list \<Rightarrow> client
     \<Rightarrow> call_result outcome \<times> client"
where
  "call_impl host lim env R header args cl =
     (case async_write (call_frame host (cl_cross_ending cl) env header args) (cl_impl cl) of
        (ec, s) \<Rightarrow>
          let cl = cl\<lparr>cl_impl := s\<rparr> in
          if ec_set ec then (Returned ((init_result R)\<lparr>cr_ec := write_error\<rparr>), close_socket cl)
          else wait_response host lim env R cl)"

text \<open>
  Where \<open>call_impl\<close> is when the watchdog fires and closes the socket: in the write of the request, with
  \<open>k\<close> bytes gone out; in a read of the answer, with \<open>n\<close> bytes taken from the socket; or between two of
  these, its operation completed but itself not yet resumed, with \<open>body_\<close> as it then is.
\<close>

datatype timeout = Fired_writing nat | Fired_reading nat | Fired_between bytes

text \<open>
  The way of \<open>call_impl\<close> once the watchdog has fired. A write that is aborted ends as a write error. A read that
  is aborted ends as a read error, after which \<open>wait_response\<close> goes on as after any other: it completes
  the subscriptions. Between two operations the next \<open>co_await\<close> throws.
\<close>

definition aborted_call_impl ::
  "timeout \<Rightarrow> endian \<Rightarrow> nat \<Rightarrow> codec_env \<Rightarrow> ctype \<Rightarrow> rest_rpc_header \<Rightarrow> (ctype \<times> cval) list \<Rightarrow> client
     \<Rightarrow> call_result outcome \<times> client"
where
  "aborted_call_impl fired host lim env R header args cl =
     (let frame = call_frame host (cl_cross_ending cl) env header args;
          sent = (\<lambda>k. cl\<lparr>cl_impl := snd (async_write (take k frame) (cl_impl cl))\<rparr>);
          all = sent (length frame)
      in case fired of
           Fired_writing k \<Rightarrow> (Returned ((init_result R)\<lparr>cr_ec := write_error\<rparr>), close_socket (sent k))
         | Fired_reading n \<Rightarrow> wait_response host lim env R (all\<lparr>cl_impl := (cl_impl all)
             \<lparr>sk_rx := take n (sk_rx (cl_impl all)), sk_end := operation_aborted\<rparr>\<rparr>)
         | Fired_between b \<Rightarrow> (Threw (Std_exception ''system_error''), all\<lparr>cl_body := b\<rparr>))"

text \<open>
  The timer has fired: its side of \<open>||\<close> is the result, the socket is closed, and what the other side returns
  or throws is dropped. Only behaviour that is not defined remains.
\<close>

definition timed_out :: "ctype \<Rightarrow> call_result outcome \<times> client \<Rightarrow> call_result outcome \<times> client" where
  "timed_out R rcl =
     (let result = (Returned ((init_result R)\<lparr>cr_ec := request_timeout\<rparr>), snd (watchdog no_error (snd rcl)))
      in case fst rcl of Returned _ \<Rightarrow> result | Threw _ \<Rightarrow> result | _ \<Rightarrow> rcl)"

text \<open>
  \<open>||\<close> waits for one side to succeed: when \<open>call_impl\<close> throws before the time is up, it goes on waiting for
  the watchdog, which then fires.
\<close>

definition or_watchdog :: "ctype \<Rightarrow> call_result outcome \<times> client \<Rightarrow> call_result outcome \<times> client" where
  "or_watchdog R rcl = (case fst rcl of Threw _ \<Rightarrow> timed_out R rcl | _ \<Rightarrow> rcl)"

text \<open>\<open>call_for\<close>; \<open>fired\<close> says that the watchdog was first, and where it met the call.\<close>

definition call_for ::
  "endian \<Rightarrow> nat \<Rightarrow> codec_env \<Rightarrow> timeout option \<Rightarrow> u32 \<Rightarrow> ctype \<Rightarrow> (ctype \<times> cval) list \<Rightarrow> client
     \<Rightarrow> call_result outcome \<times> client"
where
  "call_for host lim env fired key R args cl =
     (let header = init_header\<lparr>function_id := key\<rparr> in
      case fired of
        None \<Rightarrow> or_watchdog R (call_impl host lim env R header args cl)
      | Some f \<Rightarrow> timed_out R (aborted_call_impl f host lim env R header args cl))"

text \<open>\<open>call<func>\<close>: the key is that of the function's name, the time five seconds.\<close>

definition call ::
  "endian \<Rightarrow> nat \<Rightarrow> codec_env \<Rightarrow> timeout option \<Rightarrow> compiler \<Rightarrow> string \<Rightarrow> ctype \<Rightarrow> (ctype \<times> cval) list \<Rightarrow> client
     \<Rightarrow> (call_result outcome \<times> client) option"
where
  "call host lim env fired c signature ret args cl =
     map_option (\<lambda>key. call_for host lim env fired key (return_type_t ret) args cl) (get_key c signature)"

text \<open>
  \<open>subscribe\<close>: the operation is started, then the request is sent, unless the topic is known already,
  and an answer awaited; \<open>&&\<close> ends when both the operation and the answer are there, the answer with a
  result or with an exception. An exception cancels the operation, but a \<open>sub_operation\<close> does not listen to
  that: unless it is completed already, \<open>&&\<close> waits for ever.
\<close>

definition sub_join :: "u32 \<Rightarrow> call_result outcome \<times> client \<Rightarrow> call_result outcome \<times> client" where
  "sub_join topic_id rcl =
     (let both = (case map_of (cl_sub_ops (snd rcl)) topic_id of
                    Some (Sub_done _) \<Rightarrow> rcl
                  | _ \<Rightarrow> (Waits_forever, snd rcl))
      in case fst rcl of Returned _ \<Rightarrow> both | Threw _ \<Rightarrow> both | _ \<Rightarrow> rcl)"

definition subscribe ::
  "endian \<Rightarrow> nat \<Rightarrow> codec_env \<Rightarrow> ctype \<Rightarrow> bytes \<Rightarrow> client \<Rightarrow> call_result outcome \<times> client"
where
  "subscribe host lim env R topic cl =
     (let topic_id = hash_name topic;
          cl' = cl\<lparr>cl_sub_ops := AList.update topic_id Sub_waiting (cl_sub_ops cl)\<rparr>
      in case map_of (cl_sub_ops cl) topic_id of
           None \<Rightarrow>
             sub_join topic_id
               (call_impl host lim env R (init_header\<lparr>msg_type := 1, function_id := topic_id\<rparr>) [] cl')
         | Some _ \<Rightarrow> sub_join topic_id (wait_response host lim env R cl'))"

section \<open>What goes over the wire\<close>

lemma errc_of_byte_0 [simp]: "errc_of_byte 0 = ok"
  by (simp add: errc_of_byte_def enumerators_def)

lemma call_frame_request:
  "call_frame host cross env (init_header\<lparr>function_id := key\<rparr>) args = request_frame host cross key (get_buffer env args)"
  by (cases args) (simp_all add: call_frame_def request_frame_def get_buffer_def pack_args_def Let_def)

lemma call_frame_subscribe:
  "call_frame host cross env (init_header\<lparr>msg_type := 1, function_id := topic\<rparr>) [] = subscribe_frame host cross topic"
  by (simp add: call_frame_def subscribe_frame_def get_buffer_def pack_args_def Let_def init_header_def)

text \<open>A response frame is read back: its code, its data and the topic it belongs to.\<close>

lemma wait_response_frame:
  assumes "sk_open (cl_impl cl)" "sk_rx (cl_impl cl) = response_frame host (cl_cross_ending cl) res k @ r"
    and "length (rr_data res) < lim" "length (rr_data res) < 2 ^ 64 - 1"
  shows "wait_response host lim env R cl =
    (let cl1 = cl\<lparr>cl_impl := (cl_impl cl)\<lparr>sk_rx := r\<rparr>, cl_body := errc_byte (rr_ec res) # rr_data res\<rparr>;
         result = (init_result R)\<lparr>cr_ec := errc_of_byte (errc_byte (rr_ec res))\<rparr>;
         header = response_header host False res k
     in if is_void R then complete_topic header result cl1
        else case unpack env R (rr_data res) of
          Inl e \<Rightarrow> (Threw e, cl1) | Inr v \<Rightarrow> complete_topic header (result\<lparr>cr_value := v\<rparr>) cl1)"
proof -
  let ?h = "response_header host (cl_cross_ending cl) res k" and ?b = "errc_byte (rr_ec res) # rr_data res"
  have hdr: "response_header host True res k = prepare_for_send host (response_header host False res k)"
    by (simp add: response_header_def Let_def)
  have mg: "magic ?h = 39" by (simp add: response_header_def Let_def init_header_def)
  have rx: "sk_rx (cl_impl cl) = header_bytes host ?h @ ?b @ r"
    using assms(2) rr_data_empty [of res] by (auto simp: response_frame_def)
  have rd: "async_read header_size (cl_impl cl) = (no_error, header_bytes host ?h, (cl_impl cl)\<lparr>sk_rx := ?b @ r\<rparr>)"
    using assms(1) rx by (intro async_read_full) simp_all
  have len: "unat (body_len (response_header host False res k)) = length ?b"
  proof -
    have "body_len (response_header host False res k) = of_nat (length ?b)"
      by (simp add: response_header_def Let_def rr_size_data add.commute)
    moreover have "unat (of_nat (length ?b) :: u64) = length ?b"
      using assms(4) by (intro unat_of_nat_small) simp
    ultimately show ?thesis by simp
  qed
  have rd2: "async_read (length ?b) ((cl_impl cl)\<lparr>sk_rx := ?b @ r\<rparr>) = (no_error, ?b, (cl_impl cl)\<lparr>sk_rx := r\<rparr>)"
    using assms(1) async_read_full [of "(cl_impl cl)\<lparr>sk_rx := ?b @ r\<rparr>" ?b r "length ?b"] by simp
  show ?thesis
    unfolding wait_response_def rd Let_def prod.case header_of_bytes_header_bytes mg
    using assms(3) len rd2 by (cases "cl_cross_ending cl") (simp_all add: hdr split: sum.split)
qed

section \<open>Calls that fail\<close>

lemma unpack_int_text:
  assumes "data = c # rest" "\<not> is_digit c" "c \<noteq> 45"
  shows "unpack env (T_int s w) data = Inl (Std_exception ''unpack failed: Args not match!'')"
  using assms by (simp add: unpack_def is_fundamental_def from_chars_def Let_def)

text \<open>
  An error answer does not reach the caller as an error code when the function returns an
  integer: the client unpacks the message as if it were the result, and the call throws
  \<open>std::invalid_argument\<close> instead of returning the code. This is so for every error the router
  reports, an unknown function, an exception of the handler or an unknown exception.
\<close>

theorem error_answer_throws:
  assumes "sk_open (cl_impl cl)" "sk_rx (cl_impl cl) = response_frame host (cl_cross_ending cl) res 0 @ r"
    and "length (rr_data res) < lim" "length (rr_data res) < 2 ^ 64 - 1"
    and "route rt key data w = (res, w')" "rr_ec res \<noteq> ok"
  shows "fst (wait_response host lim env (T_int s wd) cl) = Threw (Std_exception ''unpack failed: Args not match!'')"
proof -
  have "\<exists>c rest. rr_data res = c # rest \<and> \<not> is_digit c \<and> c \<noteq> 45"
    using assms(5, 6)
    by (auto simp: route_def Let_def rr_data_def rpc_result_init_def str_bytes_def is_digit_def
        split: option.splits prod.splits sum.splits exn.splits)
  then have "unpack env (T_int s wd) (rr_data res) = Inl (Std_exception ''unpack failed: Args not match!'')"
    using unpack_int_text by blast
  then show ?thesis
    by (simp add: wait_response_frame [OF assms(1 - 4)] is_void_def Let_def)
qed

theorem error_answer_throws_witness:
  "fst (wait_response Little 1000 (default_env True) T_int32
     (rpc_client_new\<lparr>cl_impl := fresh_socket (response_frame Little False (fst (route empty_router 7 [] (world0 ()))) 0)\<rparr>))
   = Threw (Std_exception ''unpack failed: Args not match!'')"
proof -
  have l: "length (dec_digits 7) < 10" by (simp add: dec_digits.simps)
  obtain res w' where r: "route empty_router 7 [] (world0 ()) = (res, w')" by fastforce
  then have e: "rr_ec res = no_such_function" "length (rr_data res) < 100"
    using l by (auto simp: route_def empty_router_def rr_data_def rpc_result_init_def get_name_by_key_def to_string_def Let_def)
  show ?thesis
    unfolding r fst_conv
    by (rule error_answer_throws [OF _ _ _ _ r, where r = "[]"]) (use e in \<open>simp_all add: fresh_socket_def rpc_client_new_def\<close>)
qed

text \<open>
  Losing the connection after a subscription was served completes the operation of that
  subscription a second time: the read error of any later call runs \<open>comple_all\<close> over operations
  that are done. Without subscriptions the same call returns \<open>read_error\<close> and closes the socket.
\<close>

theorem lost_connection_completes_twice:
  assumes "length (sk_rx (cl_impl cl)) < header_size"
  shows "(cl_sub_ops cl = [(topic, Sub_done b)] \<longrightarrow> fst (wait_response host lim env R cl) = Completed_twice)
    \<and> (cl_sub_ops cl = [] \<longrightarrow> (\<exists>cl'. wait_response host lim env R cl
      = (Returned ((init_result R)\<lparr>cr_ec := read_error\<rparr>), cl') \<and> cl_has_closed cl' \<and> \<not> sk_open (cl_impl cl')))"
  using assms
  by (auto simp: wait_response_def async_read_def comple_all_def close_socket_def header_size_def Let_def)

theorem lost_connection_completes_twice_witness:
  "fst (wait_response Little 10 (default_env True) T_int32
     (rpc_client_new\<lparr>cl_impl := fresh_socket [], cl_sub_ops := [(5, Sub_done True)]\<rparr>)) = Completed_twice"
  using lost_connection_completes_twice [of "rpc_client_new\<lparr>cl_impl := fresh_socket [], cl_sub_ops := [(5, Sub_done True)]\<rparr>"
      5 True Little 10 "default_env True" T_int32]
  by (simp add: fresh_socket_def header_size_def rpc_client_new_def)

section \<open>Subscriptions\<close>

text \<open>
  The first subscription to a topic sends one frame that makes the connection a subscriber, and
  returns the value of the next publication to that topic, with the operation completed.
\<close>

lemma subscribe_returns_publication:
  assumes "sk_open (cl_impl cl)" "sk_writes (cl_impl cl) = []" "cl_sub_ops cl = []" "hash_name topic \<noteq> 0"
    and "sk_rx (cl_impl cl) = response_frame host (cl_cross_ending cl) res (hash_name topic) @ r"
    and "rr_ec res = ok" "unpack env R (rr_data res) = Inr v" "\<not> is_void R"
    and "length (rr_data res) < lim" "length (rr_data res) < 2 ^ 64 - 1"
  shows "\<exists>cl'. subscribe host lim env R topic cl = (Returned \<lparr>cr_ec = ok, cr_value = v\<rparr>, cl')
    \<and> sk_tx (cl_impl cl') = sk_tx (cl_impl cl) @ subscribe_frame host (cl_cross_ending cl) (hash_name topic)
    \<and> cl_sub_ops cl' = [(hash_name topic, Sub_done True)] \<and> sk_rx (cl_impl cl') = r"
proof -
  let ?id = "hash_name topic"
  let ?cl = "cl\<lparr>cl_sub_ops := [(?id, Sub_waiting)],
      cl_impl := (cl_impl cl)\<lparr>sk_tx := sk_tx (cl_impl cl) @ subscribe_frame host (cl_cross_ending cl) ?id\<rparr>\<rparr>"
  have "call_impl host lim env R (init_header\<lparr>msg_type := 1, function_id := ?id\<rparr>) []
      (cl\<lparr>cl_sub_ops := [(?id, Sub_waiting)]\<rparr>) = wait_response host lim env R ?cl"
    using assms(1, 2) by (simp add: call_impl_def call_frame_subscribe async_write_success Let_def)
  moreover have "wait_response host lim env R ?cl =
      (Returned \<lparr>cr_ec = ok, cr_value = v\<rparr>, ?cl\<lparr>cl_impl := (cl_impl ?cl)\<lparr>sk_rx := r\<rparr>,
         cl_body := errc_byte ok # rr_data res, cl_sub_ops := [(?id, Sub_done True)]\<rparr>)"
    using assms(1, 4 - 8) wait_response_frame [of ?cl host res ?id r lim env R] assms(9, 10)
    by (simp add: Let_def complete_topic_def response_header_def init_header_def init_result_def)
  ultimately show ?thesis using assms(3) by (simp add: subscribe_def sub_join_def Let_def)
qed

text \<open>
  A subscription whose request cannot be written never returns: the write error is stored in the
  result, but the operation it is joined with is not completed.
\<close>

theorem subscribe_write_error_hangs:
  assumes "map_of (cl_sub_ops cl) (hash_name topic) = None"
    and "\<not> sk_open (cl_impl cl) \<or> (\<exists>ec k ws. sk_writes (cl_impl cl) = Some (ec, k) # ws)"
  shows "fst (subscribe host lim env R topic cl) = Waits_forever"
  using assms by (auto simp: subscribe_def call_impl_def async_write_def sub_join_def close_socket_def
      update_conv Let_def)

theorem subscribe_write_error_hangs_witness:
  "fst (subscribe Little 100 (default_env True) T_string [97] rpc_client_new) = Waits_forever"
  by (rule subscribe_write_error_hangs) (simp_all add: rpc_client_new_def closed_socket_def)

lemma comple_all_impl: "cl_impl (snd (comple_all result cl)) = cl_impl cl"
  by (simp add: comple_all_def split: prod.split)

lemma complete_topic_impl: "cl_impl (snd (complete_topic h result cl)) = cl_impl cl"
  by (auto simp: complete_topic_def split: option.splits outcome.splits)

lemma async_read_tx: "async_read n s = (ec, bs, s') \<Longrightarrow> sk_tx s' = sk_tx s"
  by (auto simp: async_read_def split: if_splits)

lemma wait_response_tx: "sk_tx (cl_impl (snd (wait_response host lim env R cl))) = sk_tx (cl_impl cl)"
  by (auto simp: wait_response_def Let_def comple_all_impl complete_topic_impl close_socket_def
      split: prod.splits sum.splits dest!: async_read_tx)

lemma sub_join_client: "snd (sub_join topic_id rcl) = snd rcl"
  by (cases rcl) (auto simp: sub_join_def Let_def split: outcome.splits option.splits sub_operation.splits)

text \<open>
  After a reconnection a known topic is not requested again: resetting keeps the operations of the
  old socket, and \<open>subscribe\<close> sends nothing for a topic it knows, so the new connection never becomes
  a subscriber.
\<close>

theorem resubscribe_after_reconnect_sends_nothing:
  assumes "cl_should_reset cl" "map_of (cl_sub_ops cl) (hash_name topic) \<noteq> None"
    and "connect (Finished no_error) (Finished no_error) sock cl = (ec, cl')"
    and "subscribe host lim env R topic cl' = (out, cl'')"
  shows "\<not> ec_set ec \<and> sk_tx (cl_impl cl'') = sk_tx sock"
proof -
  have cl': "cl' = (client_reset cl)\<lparr>cl_impl := sock, cl_has_closed := False\<rparr>" "\<not> ec_set ec"
    using assms(1, 3) by (auto simp: connect_def Let_def)
  then have ops: "cl_sub_ops cl' = cl_sub_ops cl" "cl_impl cl' = sock"
    by (auto simp: client_reset_def close_socket_def Let_def)
  then obtain s where "map_of (cl_sub_ops cl') (hash_name topic) = Some s" using assms(2) by auto
  then have "cl'' = snd (sub_join (hash_name topic) (wait_response host lim env R
      (cl'\<lparr>cl_sub_ops := AList.update (hash_name topic) Sub_waiting (cl_sub_ops cl')\<rparr>)))"
    using assms(4) by (simp add: subscribe_def Let_def)
  then show ?thesis using cl'(2) ops(2) by (simp add: sub_join_client wait_response_tx)
qed

theorem resubscribe_after_reconnect_sends_nothing_witness:
  "\<exists>ec cl' out cl''. connect (Finished no_error) (Finished no_error) (fresh_socket [])
       (rpc_client_new\<lparr>cl_should_reset := True, cl_sub_ops := [(hash_name [97], Sub_done True)]\<rparr>) = (ec, cl')
     \<and> subscribe Little 100 (default_env True) T_string [97] cl' = (out, cl'') \<and> sk_tx (cl_impl cl'') = []"
proof -
  let ?cl = "rpc_client_new\<lparr>cl_should_reset := True, cl_sub_ops := [(hash_name [97], Sub_done True)]\<rparr>"
  obtain ec cl' where c: "connect (Finished no_error) (Finished no_error) (fresh_socket []) ?cl = (ec, cl')"
    by fastforce
  obtain out cl'' where s: "subscribe Little 100 (default_env True) T_string [97] cl' = (out, cl'')" by fastforce
  have "sk_tx (cl_impl cl'') = sk_tx (fresh_socket [])"
    using resubscribe_after_reconnect_sends_nothing [OF _ _ c s] by simp
  then show ?thesis using c s by (auto simp: fresh_socket_def)
qed

section \<open>Connecting\<close>

lemma substr_whole: "sv_substr s (of_nat i) npos = Some (drop i s)" if "i \<le> length s" "length s < 2 ^ 63"
proof -
  have "unat (of_nat i :: size_t) = i" using that by (intro unat_of_nat_small) simp
  moreover have "unat npos = 2 ^ 64 - 1" by (simp add: npos_def unsigned_minus_1_eq_mask mask_eq_exp_minus_1)
  ultimately show ?thesis using that by (simp add: sv_substr_def)
qed

lemma split_address_colon:
  assumes "length h + length p < 2 ^ 62" "CHR '':'' \<notin> set h"
  shows "split_address (h @ '':'' @ p) = (h, p)"
proof -
  have f: "sv_find (h @ '':'' @ p) '':'' = of_nat (length h)"
    using find_index_char [of "CHR '':''" h p] assms by (simp add: sv_find_def position_def)
  have n: "of_nat (length h) \<noteq> npos"
    using position_small(1) [of "length h"] assms by (simp add: position_def)
  have u: "unat (of_nat (length h) :: size_t) = length h" using assms by (intro unat_of_nat_small) simp
  have "sv_substr (h @ '':'' @ p) (of_nat (length h) + 1) npos = Some p"
    using substr_whole [of "Suc (length h)" "h @ '':'' @ p"] assms by (simp add: add.commute)
  moreover have "sv_substr (h @ '':'' @ p) 0 (of_nat (length h)) = Some h"
    by (simp add: sv_substr_def u)
  ultimately show ?thesis using f n by (simp add: split_address_def Let_def)
qed

text \<open>
  An address is split at its first colon, into the host in front of it and the port behind it;
  without a colon both are empty. For host names and IPv4 addresses this gives host and port back;
  a bracketed IPv6 address is cut inside the brackets.
\<close>

theorem split_address_first_colon:
  assumes "length h + length p < 2 ^ 62" "CHR '':'' \<notin> set h"
  shows "split_address (h @ '':'' @ p) = (h, p) \<and> split_address h = ('''', '''')
    \<and> split_address ''[::1]:9005'' = (''['', '':1]:9005'')"
proof -
  have "sv_find h '':'' = npos" by (rule sv_find_absent [of "CHR '':''"]) (use assms(2) in auto)
  then show ?thesis using split_address_colon [OF assms] split_address_colon [of "''[''" "'':1]:9005''"]
    by (simp add: split_address_def Let_def)
qed

theorem split_address_first_colon_witness:
  "split_address (''127.0.0.1'' @ '':'' @ ''9005'') = (''127.0.0.1'', ''9005'')
   \<and> split_address ([] @ '':'' @ '':1:9005'') = ('''', '':1:9005'')"
  using split_address_first_colon [of "''127.0.0.1''" "''9005''"] split_address_first_colon [of "[]" "'':1:9005''"]
  by simp

section \<open>Calls return typed results\<close>

lemma comple_all_result: "fst (comple_all result cl) = Returned res \<Longrightarrow> res = result"
  by (cases "comple_ops (cl_sub_ops cl)", cases "fst (comple_ops (cl_sub_ops cl))") (auto simp: comple_all_def)

lemma complete_topic_result: "fst (complete_topic h result cl) = Returned res \<Longrightarrow> res = result"
  by (auto simp: complete_topic_def split: if_splits option.splits outcome.splits)

lemma wait_response_result:
  assumes "fst (wait_response host lim env R cl) = Returned res"
  shows "cr_value res = default_val R
    \<or> (\<exists>data v. \<not> is_void R \<and> length data < lim \<and> unpack env R data = Inr v \<and> cr_value res = v)"
proof -
  obtain ec hb s where r1: "async_read header_size (cl_impl cl) = (ec, hb, s)" by (metis prod_cases3)
  define h where "h = (if cl_cross_ending cl then parse_recieved host (header_of_bytes host hb) else header_of_bytes host hb)"
  obtain ec2 bs s2 where r2: "async_read (unat (body_len h)) s = (ec2, bs, s2)" by (metis prod_cases3)
  have "length (tl bs) < lim" if "\<not> ec_set ec2" "\<not> lim < unat (body_len h)" "bs \<noteq> []"
    using async_read_success(1) [OF r2 that(1)] that(2, 3) by (cases bs) auto
  then show ?thesis using assms r2 [unfolded h_def]
    by (auto simp: wait_response_def r1 Let_def init_result_def h_def split: if_splits sum.splits
        dest!: comple_all_result complete_topic_result)
qed

text \<open>
  C29: whatever the server sends, a call that returns has a value of the function's result type, where
  that type has no \<open>bool\<close> in it: a \<open>bool\<close> is copied from the byte that arrives, which need not be 0 or 1. It
  is the value that was unpacked, or the value-initialised one when the connection failed, the
  header was wrong, the request could not be written, the answer could not be unpacked or the time ran out.
\<close>

theorem call_result_typed:
  assumes "R = T_void \<or> sp_type R \<and> unpack_compiles env R" "no_bool R" "lim \<le> max_container" "user_codec_typed env"
    and "fst (call_for host lim env fired key R args cl) = Returned res"
  shows "has_type R (cr_value res)"
proof -
  have d: "has_type R (default_val R)" using assms(1) default_val_has_type(1) by auto
  have w: "has_type R (cr_value res)" if "fst (wait_response host lim env R cl') = Returned res" for cl'
    using wait_response_result [OF that]
  proof
    assume "\<exists>data v. \<not> is_void R \<and> length data < lim \<and> unpack env R data = Inr v \<and> cr_value res = v"
    then obtain data where u: "\<not> is_void R" "length data < lim" "unpack env R data = Inr (cr_value res)" by blast
    have "unpack_compiles env R" using assms(1) u(1) by (auto simp: is_void_def)
    then show ?thesis
      using unpack_typed [OF _ assms(2) _ u(3) user_codec_typedD [OF assms(4)]] u(2) assms(3) by simp
  qed (use d in simp)
  have t: "has_type R (cr_value res)" if "fst (timed_out R rcl) = Returned res" for rcl
    using that d by (auto simp: timed_out_def init_result_def Let_def split: outcome.splits)
  have c: "has_type R (cr_value res)" if "fst (call_impl host lim env R h args cl) = Returned res" for h
    using that d w by (auto simp: call_impl_def init_result_def Let_def split: prod.splits if_splits)
  show ?thesis
    using assms(5) t c by (auto simp: call_for_def or_watchdog_def Let_def split: option.splits outcome.splits)
qed

text \<open>A call that reads its answer, the text of a number, and one that times out after three bytes of it.\<close>

theorem call_result_typed_witness:
  "\<exists>res cl1 res' cl2. call_for Little 100 (default_env True) None 5 T_int32 []
       (rpc_client_new\<lparr>cl_impl := fresh_socket (response_frame Little False (rpc_result_of_string (str_bytes ''42'')) 0)\<rparr>) = (Returned res, cl1)
     \<and> res = \<lparr>cr_ec = ok, cr_value = V_int 42\<rparr> \<and> has_type T_int32 (cr_value res)
     \<and> call_for Little 100 (default_env True) (Some (Fired_reading 3)) 5 T_int32 []
       (rpc_client_new\<lparr>cl_impl := fresh_socket (response_frame Little False (rpc_result_of_string (str_bytes ''42'')) 0)\<rparr>) = (Returned res', cl2)
     \<and> cr_ec res' = request_timeout \<and> has_type T_int32 (cr_value res')"
proof -
  let ?rx = "response_frame Little False (rpc_result_of_string (str_bytes ''42'')) 0"
  let ?cl = "rpc_client_new\<lparr>cl_impl := fresh_socket ?rx\<rparr>"
  let ?cl' = "?cl\<lparr>cl_impl := (cl_impl ?cl)\<lparr>sk_tx := request_frame Little False 5 (get_buffer (default_env True) [])\<rparr>\<rparr>"
  have d: "rr_data (rpc_result_of_string (str_bytes ''42'')) = [52, 50]" "rr_ec (rpc_result_of_string (str_bytes ''42'')) = ok"
    by (simp_all add: rpc_result_of_string_def rpc_result_init_def rr_data_def str_bytes_def)
  have b: "str_bytes ''42'' = [52, 50]" by (simp add: str_bytes_def)
  have u: "unpack (default_env True) T_int32 [52, 50] = Inr (V_int 42)" by code_simp
  have w: "wait_response Little 100 (default_env True) T_int32 ?cl' =
      (Returned \<lparr>cr_ec = ok, cr_value = V_int 42\<rparr>, ?cl'\<lparr>cl_impl := (cl_impl ?cl')\<lparr>sk_rx := []\<rparr>, cl_body := [0, 52, 50]\<rparr>)"
    by (subst wait_response_frame [where res = "rpc_result_of_string (str_bytes ''42'')" and k = 0 and r = "[]"])
       (simp_all add: fresh_socket_def rpc_client_new_def b d u rpc_result_of_string_def rpc_result_init_def rr_data_def is_void_def Let_def complete_topic_def response_header_def
         init_header_def init_result_def)
  have c: "call_for Little 100 (default_env True) None 5 T_int32 [] ?cl =
      (Returned \<lparr>cr_ec = ok, cr_value = V_int 42\<rparr>, ?cl'\<lparr>cl_impl := (cl_impl ?cl')\<lparr>sk_rx := []\<rparr>, cl_body := [0, 52, 50]\<rparr>)"
    using w by (simp add: call_for_def or_watchdog_def call_impl_def call_frame_request async_write_success fresh_socket_def rpc_client_new_def Let_def)
  obtain res' cl2 where t: "call_for Little 100 (default_env True) (Some (Fired_reading 3)) 5 T_int32 [] ?cl = (Returned res', cl2)"
    "cr_ec res' = request_timeout"
    by (auto simp: call_for_def or_watchdog_def aborted_call_impl_def async_write_success fresh_socket_def rpc_client_new_def timed_out_def
        wait_response_def async_read_def header_size_def comple_all_def close_socket_def Let_def as_error_def operation_aborted_def ec_set_def)
  have "has_type T_int32 (cr_value res)" if "fst (call_for Little 100 (default_env True) f 5 T_int32 [] ?cl) = Returned res" for f res
    by (rule call_result_typed [OF _ _ _ _ that]) (simp_all add: unpack_compiles_def is_fundamental_def max_container_def)
  from this [of None] this [of "Some (Fired_reading 3)"] show ?thesis using c t by auto
qed

end
