(* ===== verification/Calls.thy ===== *)
theory Calls
  imports Client
begin

text \<open>
  Client and connection together: how a call, or several calls one after the other, go from
  \<open>rpc_client\<close> (include/rest_rpc/rpc_client.hpp) to \<open>rpc_connection\<close> (include/rest_rpc/rpc_connection.hpp)
  and back.
\<close>

section \<open>A call, from the client to the handler and back\<close>

text \<open>The result of a handler that returns, and the type the client unpacks it as.\<close>

lemma return_type_void: "is_void_v t \<Longrightarrow> is_void (return_type_t t) \<and> default_val (return_type_t t) = V_unit"
  by (auto simp: is_void_v_def is_void_def return_type_t_def remove_cvref_def)

lemma object_type_not_void: "object_type t \<Longrightarrow> \<not> is_void t"
  by (cases t) (auto simp: is_void_def)

lemma complete_topic_reply: "complete_topic (response_header host cross res 0) result cl = (Returned result, cl)"
  by (simp add: complete_topic_def response_header_def Let_def init_header_def)

text \<open>The answer of a handler that returned, in front of what the client has still to read.\<close>

definition result_frame :: "endian \<Rightarrow> bool \<Rightarrow> codec_env \<Rightarrow> ctype \<Rightarrow> cval \<Rightarrow> bytes" where
  "result_frame host cross sv t v =
     response_frame host cross (rpc_result_of_string (if is_void_v t then [] else pack_args sv [(return_type_t t, v)])) 0"

lemma client_reads_result:
  assumes "sk_open (cl_impl cl)" "sk_rx (cl_impl cl) = result_frame host (cl_cross_ending cl) sv t v @ r"
    and "if is_void_v t then v = V_unit else codec_ok sv env (return_type_t t) v"
    and "length (pack_args sv [(return_type_t t, v)]) < lim" "length (pack_args sv [(return_type_t t, v)]) < 2 ^ 64 - 1"
  shows "\<exists>b. wait_response host lim env (return_type_t t) cl
    = (Returned \<lparr>cr_ec = ok, cr_value = v\<rparr>, cl\<lparr>cl_impl := (cl_impl cl)\<lparr>sk_rx := r\<rparr>, cl_body := b\<rparr>)"
proof -
  let ?d = "if is_void_v t then [] else pack_args sv [(return_type_t t, v)]"
  let ?res = "rpc_result_of_string ?d"
  have e: "rr_ec ?res = ok" by (simp add: rpc_result_of_string_def rpc_result_init_def)
  have len: "length (rr_data ?res) < lim" "length (rr_data ?res) < 2 ^ 64 - 1" using assms(4, 5) by auto
  have rx: "sk_rx (cl_impl cl) = response_frame host (cl_cross_ending cl) ?res 0 @ r"
    using assms(2) by (simp add: result_frame_def)
  note w = wait_response_frame [OF assms(1) rx len, of env "return_type_t t"]
  show ?thesis
  proof (cases "is_void_v t")
    case True
    then show ?thesis using return_type_void [OF True] assms(3) e
      by (auto simp: w complete_topic_reply init_result_def Let_def)
  next
    case False
    then have "\<not> is_void (return_type_t t)" "unpack env (return_type_t t) (rr_data ?res) = Inr v"
      using assms(3) object_type_not_void unpack_pack_value by (auto simp: codec_ok_def)
    then show ?thesis using False e
      by (auto simp: w complete_topic_reply init_result_def Let_def)
  qed
qed

lemma client_reads_reply:
  assumes "sk_open (cl_impl cl)" "sk_rx (cl_impl cl) = response_frame host (cl_cross_ending cl) (rpc_result_of_string
        (if is_void_v t then [] else pack_args sv [(return_type_t t, v)])) 0"
    and "if is_void_v t then v = V_unit else codec_ok sv env (return_type_t t) v"
    and "length (pack_args sv [(return_type_t t, v)]) < lim" "length (pack_args sv [(return_type_t t, v)]) < 2 ^ 64 - 1"
  shows "fst (wait_response host lim env (return_type_t t) cl) = Returned \<lparr>cr_ec = ok, cr_value = v\<rparr>"
proof -
  have "sk_rx (cl_impl cl) = result_frame host (cl_cross_ending cl) sv t v @ []"
    using assms(2) by (simp add: result_frame_def)
  from client_reads_result [OF assms(1) this assms(3 - 5)] show ?thesis by auto
qed

lemma or_watchdog_returned [simp]: "fst rcl = Returned out \<Longrightarrow> or_watchdog R rcl = rcl"
  by (simp add: or_watchdog_def)

lemma timed_out_result: "fst (timed_out R rcl) = Returned res \<Longrightarrow> res = (init_result R)\<lparr>cr_ec := request_timeout\<rparr>"
  by (auto simp: timed_out_def Let_def split: outcome.splits)

lemma timed_out_tx: "sk_tx (cl_impl (snd (timed_out R rcl))) = sk_tx (cl_impl (snd rcl))"
  by (simp add: timed_out_def watchdog_def close_socket_def Let_def split: outcome.split)

lemma or_watchdog_tx: "sk_tx (cl_impl (snd (or_watchdog R rcl))) = sk_tx (cl_impl (snd rcl))"
  by (simp add: or_watchdog_def timed_out_tx split: outcome.split)

text \<open>The client of a request that was written in full.\<close>

abbreviation requested :: "endian \<Rightarrow> codec_env \<Rightarrow> u32 \<Rightarrow> (ctype \<times> cval) list \<Rightarrow> client \<Rightarrow> client" where
  "requested host env key args cl \<equiv> cl\<lparr>cl_impl := (cl_impl cl)\<lparr>sk_tx :=
     sk_tx (cl_impl cl) @ request_frame host (cl_cross_ending cl) key (get_buffer env args)\<rparr>\<rparr>"

lemma call_for_sends:
  assumes "sk_open (cl_impl cl)" "sk_writes (cl_impl cl) = []"
  shows "call_for host lim env None key R args cl = or_watchdog R (wait_response host lim env R (requested host env key args cl))"
  using assms by (simp add: call_for_def call_impl_def call_frame_request async_write_success Let_def)

text \<open>
  C34: an error answer does not reach the caller of a function with an integer result as an error code:
  the answer's code is read, its body is unpacked as if it were the result, which throws inside the
  call, \<open>||\<close> goes on waiting for the watchdog, and once the time is up the call returns
  \<open>request_timeout\<close> with the value zero, the socket closed and the client marked as closed. This is so
  for an unknown function, an exception of the handler and any other result whose code is not \<open>ok\<close>.
\<close>

theorem error_answer_becomes_timeout:
  assumes "sk_open (cl_impl cl)" "sk_writes (cl_impl cl) = []"
    and "sk_rx (cl_impl cl) = response_frame host (cl_cross_ending cl) res 0 @ r"
    and "length (rr_data res) < lim" "length (rr_data res) < 2 ^ 64 - 1"
    and "route rt key' data w = (res, w')" "rr_ec res \<noteq> ok"
  shows "\<exists>cl'. call_for host lim env None key (T_int s wd) args cl
      = (Returned \<lparr>cr_ec = request_timeout, cr_value = V_int 0\<rparr>, cl') \<and> has_closed cl' \<and> \<not> sk_open (cl_impl cl')"
proof -
  have "fst (wait_response host lim env (T_int s wd) (requested host env key args cl))
      = Threw (Std_exception ''unpack failed: Args not match!'')"
    by (rule error_answer_throws [OF _ _ assms(4 - 7)]) (use assms(1, 3) in simp_all)
  then show ?thesis
    by (simp add: call_for_sends [OF assms(1, 2)] or_watchdog_def timed_out_def init_result_def watchdog_def no_error_def ec_set_def
        close_socket_def has_closed_def Let_def)
qed

theorem error_answer_becomes_timeout_witness:
  "let res = fst (route (empty_router :: nat router) 7 [] 0);
       cl = rpc_client_new\<lparr>cl_impl := fresh_socket (response_frame Little False res 0)\<rparr>
   in rr_ec res = no_such_function
     \<and> (\<exists>cl'. call_for Little 100 (default_env True) None 7 T_int32 [] cl
           = (Returned \<lparr>cr_ec = request_timeout, cr_value = V_int 0\<rparr>, cl') \<and> has_closed cl' \<and> \<not> sk_open (cl_impl cl'))"
proof -
  let ?res = "\<lparr>rr_ec = no_such_function, rr_result = str_bytes ''unknown function: '' @ to_string 7, rr_view = []\<rparr>"
  have r: "route (empty_router :: nat router) 7 [] 0 = (?res, 0)"
    using route_unknown_function [OF router_inv_empty, of 7 "[]" 0] by (simp add: empty_router_def)
  have "length (rr_data ?res) < 100"
    by (simp add: rr_data_def str_bytes_def to_string_def dec_digits.simps)
  then show ?thesis
    using error_answer_becomes_timeout [OF _ _ _ _ _ r, where host = Little and lim = 100 and r = "[]"
        and cl = "rpc_client_new\<lparr>cl_impl := fresh_socket (response_frame Little False ?res 0)\<rparr>"
        and env = "default_env True" and key = 7 and args = "[]" and s = True and wd = W32] r
    by (simp add: rpc_client_new_def fresh_socket_def Let_def)
qed

text \<open>
  A request on its way: the client sends it, the connection dispatches it and writes the answer, and
  the call ends as reading that answer ends.
\<close>

lemma remote_call:
  assumes "map_invokers rt (hash_name name) = Some (make_invoker sv f)" "handler_compiles sv f"
    and "passable env sv (h_params f) args"
    and "call_spec sv rt name f (map snd args) (set_connection conn w) = (res, w1)" "\<not> tls_delay (w_tls w1)"
    and "length (get_buffer env args) \<le> lim" "length (get_buffer env args) < 2 ^ 64"
    and "serving c conn (cl_cross_ending cl) cb" "sk_tx (c_socket c) = []"
    and "sk_rx (c_socket c) = request_frame host (cl_cross_ending cl) (hash_name name) (get_buffer env args) @ r"
    and "sk_open (cl_impl cl)" "sk_writes (cl_impl cl) = []"
    and reply: "\<And>cl'. sk_open (cl_impl cl') \<Longrightarrow> sk_rx (cl_impl cl') = response_frame host (cl_cross_ending cl') res 0 \<Longrightarrow>
      fst (wait_response host lim' env R cl') = Returned out"
  shows "\<exists>c' cl'. start host lim rt c w = start host lim rt c' w1
    \<and> serving c' conn (cl_cross_ending cl) cb \<and> sk_rx (c_socket c') = r
    \<and> call_for host lim' env None (hash_name name) R args (cl\<lparr>cl_impl := (cl_impl cl)\<lparr>sk_rx := sk_tx (c_socket c')\<rparr>\<rparr>)
        = (Returned out, cl')
    \<and> sk_tx (cl_impl cl') @ r = sk_tx (cl_impl cl) @ sk_rx (c_socket c)"
proof -
  let ?cross = "cl_cross_ending cl" and ?req = "(hash_name name, get_buffer env args)"
  have "route rt (hash_name name) (get_buffer env args) (set_connection conn w) = (res, w1)"
    using route_registered [OF assms(1 - 3), of "set_connection conn w"] assms(4) by simp
  then have serve: "serve host ?cross rt conn [?req] w = (response_frame host ?cross res 0, w1)"
    using assms(5) by simp
  have rx: "sk_rx (c_socket c) = concat (map (\<lambda>(key, body). request_frame host ?cross key body) [?req]) @ r"
    using assms(10) by simp
  obtain c' where c': "serving c' conn ?cross cb" "sk_rx (c_socket c') = r"
    "sk_tx (c_socket c') = response_frame host ?cross res 0" "start host lim rt c w = start host lim rt c' w1"
    using start_requests [OF assms(8) rx, of lim rt w] assms(6, 7, 9) serve by auto
  let ?cl = "cl\<lparr>cl_impl := (cl_impl cl)\<lparr>sk_rx := sk_tx (c_socket c')\<rparr>\<rparr>"
  let ?sent = "?cl\<lparr>cl_impl := (cl_impl ?cl)\<lparr>sk_tx := sk_tx (cl_impl ?cl)
      @ request_frame host (cl_cross_ending ?cl) (hash_name name) (get_buffer env args)\<rparr>\<rparr>"
  have out: "fst (wait_response host lim' env R ?sent) = Returned out"
    by (rule reply) (use assms(11) c'(3) in simp_all)
  have call: "call_for host lim' env None (hash_name name) R args ?cl = wait_response host lim' env R ?sent"
    using call_for_sends [of ?cl host lim' env "hash_name name" R args] or_watchdog_returned [OF out] assms(11, 12) by simp
  note out
  moreover have "sk_tx (cl_impl (snd (wait_response host lim' env R ?sent))) = sk_tx (cl_impl ?sent)"
    by (rule wait_response_tx)
  ultimately show ?thesis
    using c' call assms(10) by (intro exI [of _ c'] exI [of _ "snd (wait_response host lim' env R ?sent)"]) (simp add: prod_eq_iff)
qed

section \<open>Calls one after the other\<close>

text \<open>A client that awaits one call after the other: the key, the result type and the arguments of each.\<close>

fun call_seq ::
  "endian \<Rightarrow> nat \<Rightarrow> codec_env \<Rightarrow> (u32 \<times> ctype \<times> (ctype \<times> cval) list) list \<Rightarrow> client \<Rightarrow> call_result outcome list \<times> client"
where
  "call_seq host lim env [] cl = ([], cl)"
| "call_seq host lim env ((key, R, args) # cs) cl =
     (case call_for host lim env None key R args cl of (out, cl1) \<Rightarrow>
      case call_seq host lim env cs cl1 of (outs, cl2) \<Rightarrow> (out # outs, cl2))"

text \<open>
  The same calls as local calls: the functions are registered, the arguments fit, and each handler
  returns a value that can travel. \<open>lim\<close> and \<open>lim'\<close> bound the bodies on the two sides.
\<close>

inductive calls_return ::
  "codec_env \<Rightarrow> codec_env \<Rightarrow> 'u world router \<Rightarrow> nat \<Rightarrow> nat \<Rightarrow> u64 \<Rightarrow> (bytes \<times> 'u world handler \<times> (ctype \<times> cval) list) list
     \<Rightarrow> 'u world \<Rightarrow> cval list \<Rightarrow> 'u world \<Rightarrow> bool"
  for sv :: codec_env and env :: codec_env and rt :: "'u world router" and lim :: nat and lim' :: nat and conn :: u64
where
  no_call: "calls_return sv env rt lim lim' conn [] w [] w"
| one_call: "map_invokers rt (hash_name name) = Some (make_invoker sv f) \<Longrightarrow> handler_compiles sv f \<Longrightarrow>
    passable env sv (h_params f) args \<Longrightarrow>
    length (get_buffer env args) \<le> lim \<Longrightarrow> length (get_buffer env args) < 2 ^ 64 \<Longrightarrow>
    h_body f (map snd args) (set_connection conn w) = (Inr v, w1) \<Longrightarrow> \<not> tls_delay (w_tls w1) \<Longrightarrow>
    (if is_void_v (h_ret f) then v = V_unit else codec_ok sv env (return_type_t (h_ret f)) v) \<Longrightarrow>
    length (pack_args sv [(return_type_t (h_ret f), v)]) < lim' \<Longrightarrow>
    length (pack_args sv [(return_type_t (h_ret f), v)]) < 2 ^ 64 - 1 \<Longrightarrow>
    calls_return sv env rt lim lim' conn cs w1 vs w2 \<Longrightarrow>
    calls_return sv env rt lim lim' conn ((name, f, args) # cs) w (v # vs) w2"

abbreviation call_request :: "codec_env \<Rightarrow> bytes \<times> 'u world handler \<times> (ctype \<times> cval) list \<Rightarrow> u32 \<times> bytes" where
  "call_request env c \<equiv> (case c of (name, f, args) \<Rightarrow> (hash_name name, get_buffer env args))"

abbreviation client_call :: "bytes \<times> 'u world handler \<times> (ctype \<times> cval) list \<Rightarrow> u32 \<times> ctype \<times> (ctype \<times> cval) list" where
  "client_call c \<equiv> (case c of (name, f, args) \<Rightarrow> (hash_name name, return_type_t (h_ret f), args))"

definition call_frames :: "endian \<Rightarrow> bool \<Rightarrow> codec_env \<Rightarrow> (bytes \<times> 'u world handler \<times> (ctype \<times> cval) list) list \<Rightarrow> bytes" where
  "call_frames host cross env calls =
     concat (map (\<lambda>(key, body). request_frame host cross key body) (map (call_request env) calls))"

fun result_frames :: "endian \<Rightarrow> bool \<Rightarrow> codec_env \<Rightarrow> (bytes \<times> 'u world handler \<times> (ctype \<times> cval) list) list \<Rightarrow> cval list \<Rightarrow> bytes" where
  "result_frames host cross sv ((name, f, args) # cs) (v # vs) =
     result_frame host cross sv (h_ret f) v @ result_frames host cross sv cs vs"
| "result_frames host cross sv _ _ = []"

lemma serve_calls:
  assumes "calls_return sv env rt lim lim' conn calls w vs w'"
  shows "serve host cross rt conn (map (call_request env) calls) w = (result_frames host cross sv calls vs, w')
    \<and> (\<forall>(key, body) \<in> set (map (call_request env) calls). length body \<le> lim \<and> length body < 2 ^ 64)"
  using assms
proof (induction rule: calls_return.induct)
  case (one_call name f args w v w1 cs vs w2)
  have "route rt (hash_name name) (get_buffer env args) (set_connection conn w) = (rpc_result_of_string
      (if is_void_v (h_ret f) then [] else pack_args sv [(return_type_t (h_ret f), v)]), w1)"
    using route_registered [OF one_call(1 - 3), of "set_connection conn w"] one_call(6) by (simp add: call_spec_def)
  then show ?case using one_call by (auto simp: result_frame_def)
qed simp

lemma client_calls:
  assumes "calls_return sv env rt lim lim' conn calls w vs w'"
    and "sk_open (cl_impl cl)" "sk_writes (cl_impl cl) = []"
    and "sk_rx (cl_impl cl) = result_frames host (cl_cross_ending cl) sv calls vs @ r"
  shows "\<exists>cl'. call_seq host lim' env (map client_call calls) cl = (map (\<lambda>v. Returned \<lparr>cr_ec = ok, cr_value = v\<rparr>) vs, cl')
    \<and> sk_tx (cl_impl cl') = sk_tx (cl_impl cl) @ call_frames host (cl_cross_ending cl) env calls \<and> sk_rx (cl_impl cl') = r"
  using assms
proof (induction arbitrary: cl rule: calls_return.induct)
  case (no_call w)
  then show ?case by (simp add: call_frames_def)
next
  case (one_call name f args w v w1 cs vs w2)
  let ?cross = "cl_cross_ending cl"
  let ?sent = "cl\<lparr>cl_impl := (cl_impl cl)\<lparr>sk_tx := sk_tx (cl_impl cl)
      @ request_frame host ?cross (hash_name name) (get_buffer env args)\<rparr>\<rparr>"
  have "call_for host lim' env None (hash_name name) (return_type_t (h_ret f)) args cl
      = or_watchdog (return_type_t (h_ret f)) (wait_response host lim' env (return_type_t (h_ret f)) ?sent)"
    using one_call.prems by (intro call_for_sends) simp_all
  moreover obtain b where "wait_response host lim' env (return_type_t (h_ret f)) ?sent
      = (Returned \<lparr>cr_ec = ok, cr_value = v\<rparr>, ?sent\<lparr>cl_impl := (cl_impl ?sent)\<lparr>sk_rx :=
          result_frames host ?cross sv cs vs @ r\<rparr>, cl_body := b\<rparr>)"
    using client_reads_result [of ?sent host sv "h_ret f" v "result_frames host ?cross sv cs vs @ r" env lim']
      one_call.prems one_call.hyps(8 - 10) by auto
  ultimately have call: "call_for host lim' env None (hash_name name) (return_type_t (h_ret f)) args cl
      = (Returned \<lparr>cr_ec = ok, cr_value = v\<rparr>, ?sent\<lparr>cl_impl := (cl_impl ?sent)\<lparr>sk_rx :=
          result_frames host ?cross sv cs vs @ r\<rparr>, cl_body := b\<rparr>)" by simp
  obtain cl' where "call_seq host lim' env (map client_call cs) (?sent\<lparr>cl_impl := (cl_impl ?sent)\<lparr>sk_rx :=
          result_frames host ?cross sv cs vs @ r\<rparr>, cl_body := b\<rparr>)
      = (map (\<lambda>v. Returned \<lparr>cr_ec = ok, cr_value = v\<rparr>) vs, cl')"
    "sk_tx (cl_impl cl') = sk_tx (cl_impl ?sent) @ call_frames host ?cross env cs" "sk_rx (cl_impl cl') = r"
    using one_call.IH [of "?sent\<lparr>cl_impl := (cl_impl ?sent)\<lparr>sk_rx :=
          result_frames host ?cross sv cs vs @ r\<rparr>, cl_body := b\<rparr>"] one_call.prems by auto
  then show ?case using call by (intro exI [of _ cl']) (simp add: call_frames_def)
qed

text \<open>The calls of a client, answered by the connection that receives them.\<close>

lemma calls_answered_steps:
  assumes "calls_return sv env rt lim lim' conn calls w vs w'"
    and "serving c conn (cl_cross_ending cl) cb" "sk_tx (c_socket c) = []"
    and "sk_rx (c_socket c) = call_frames host (cl_cross_ending cl) env calls @ r"
    and "sk_open (cl_impl cl)" "sk_writes (cl_impl cl) = []"
  shows "\<exists>c' cl'. (read_step host lim rt)\<^sup>*\<^sup>* (c, w) (c', w')
    \<and> serving c' conn (cl_cross_ending cl) cb \<and> sk_rx (c_socket c') = r
    \<and> call_seq host lim' env (map client_call calls) (cl\<lparr>cl_impl := (cl_impl cl)\<lparr>sk_rx := sk_tx (c_socket c')\<rparr>\<rparr>)
        = (map (\<lambda>v. Returned \<lparr>cr_ec = ok, cr_value = v\<rparr>) vs, cl')
    \<and> sk_tx (cl_impl cl') @ r = sk_tx (cl_impl cl) @ sk_rx (c_socket c)"
proof -
  let ?cross = "cl_cross_ending cl" and ?reqs = "map (call_request env) calls"
  note s = serve_calls [OF assms(1), of host ?cross]
  obtain c' where c': "serving c' conn ?cross cb" "sk_rx (c_socket c') = r"
    "sk_tx (c_socket c') = result_frames host ?cross sv calls vs" "(read_step host lim rt)\<^sup>*\<^sup>* (c, w) (c', w')"
    using read_steps_requests [OF assms(2), of host ?reqs r lim rt w] assms(3, 4) s unfolding call_frames_def by auto
  let ?cl = "cl\<lparr>cl_impl := (cl_impl cl)\<lparr>sk_rx := sk_tx (c_socket c')\<rparr>\<rparr>"
  obtain cl' where "call_seq host lim' env (map client_call calls) ?cl = (map (\<lambda>v. Returned \<lparr>cr_ec = ok, cr_value = v\<rparr>) vs, cl')"
    "sk_tx (cl_impl cl') = sk_tx (cl_impl ?cl) @ call_frames host ?cross env calls"
    using client_calls [OF assms(1), of ?cl host "[]"] assms(5, 6) c'(3) by auto
  then show ?thesis using c' assms(4) by (intro exI [of _ c'] exI [of _ cl']) simp
qed

lemma calls_answered:
  assumes "calls_return sv env rt lim lim' conn calls w vs w'"
    and "serving c conn (cl_cross_ending cl) cb" "sk_tx (c_socket c) = []"
    and "sk_rx (c_socket c) = call_frames host (cl_cross_ending cl) env calls @ r"
    and "sk_open (cl_impl cl)" "sk_writes (cl_impl cl) = []"
  shows "\<exists>c' cl'. start host lim rt c w = start host lim rt c' w'
    \<and> serving c' conn (cl_cross_ending cl) cb \<and> sk_rx (c_socket c') = r
    \<and> call_seq host lim' env (map client_call calls) (cl\<lparr>cl_impl := (cl_impl cl)\<lparr>sk_rx := sk_tx (c_socket c')\<rparr>\<rparr>)
        = (map (\<lambda>v. Returned \<lparr>cr_ec = ok, cr_value = v\<rparr>) vs, cl')
    \<and> sk_tx (cl_impl cl') @ r = sk_tx (cl_impl cl) @ sk_rx (c_socket c)"
  using calls_answered_steps [OF assms] start_read_steps by blast

end
