(* ===== verification/Logger.thy ===== *)
theory Logger
  imports Prelude
begin

text \<open>
  The loggers, include/rest_rpc/logger.hpp: a statement \<open>REST_LOG_X << a << b;\<close> creates a logger,
  which the preprocessor chooses by level, by \<open>NDEBUG\<close> and by the program's own definitions, puts
  the operands into a stream and ends the line when it is destroyed. The operands are texts here,
  formatted by their own \<open>operator<<\<close>.
\<close>

datatype logger = null_logger_t | cout_logger_t | cerr_logger_t

datatype log_level = Log_error | Log_warning | Log_info | Log_debug | Log_trace

record console =
  con_out :: string
  con_err :: string

text \<open>\<open>operator<<\<close> of the three loggers.\<close>

fun log_put :: "logger \<Rightarrow> string \<Rightarrow> console \<Rightarrow> console" where
  "log_put null_logger_t t con = con"
| "log_put cout_logger_t t con = con\<lparr>con_out := con_out con @ t\<rparr>"
| "log_put cerr_logger_t t con = con\<lparr>con_err := con_err con @ t\<rparr>"

text \<open>The destructors.\<close>

definition newline :: string where
  "newline = [CHR 0x0A]"

fun log_end :: "logger \<Rightarrow> console \<Rightarrow> console" where
  "log_end null_logger_t con = con"
| "log_end cout_logger_t con = con\<lparr>con_out := con_out con @ newline\<rparr>"
| "log_end cerr_logger_t con = con\<lparr>con_err := con_err con @ newline\<rparr>"

text \<open>
  The macros; \<open>user\<close> gives the loggers of the levels that the program has defined itself, \<open>ndebug\<close>
  says that \<open>NDEBUG\<close> is defined.
\<close>

fun rest_log :: "(log_level \<Rightarrow> logger option) \<Rightarrow> bool \<Rightarrow> log_level \<Rightarrow> logger" where
  "rest_log user ndebug Log_error = (case user Log_error of Some l \<Rightarrow> l | None \<Rightarrow> cerr_logger_t)"
| "rest_log user ndebug Log_warning =
     (case user Log_warning of Some l \<Rightarrow> l | None \<Rightarrow> if \<not> ndebug then cerr_logger_t else null_logger_t)"
| "rest_log user ndebug Log_info =
     (case user Log_info of Some l \<Rightarrow> l | None \<Rightarrow> if \<not> ndebug then cout_logger_t else null_logger_t)"
| "rest_log user ndebug Log_debug =
     (case user Log_debug of Some l \<Rightarrow> l | None \<Rightarrow> if \<not> ndebug then cout_logger_t else null_logger_t)"
| "rest_log user ndebug Log_trace =
     (case user Log_trace of Some l \<Rightarrow> l | None \<Rightarrow> if \<not> ndebug then cout_logger_t else null_logger_t)"

definition log_statement :: "logger \<Rightarrow> string list \<Rightarrow> console \<Rightarrow> console" where
  "log_statement l parts con = log_end l (fold (log_put l) parts con)"

section \<open>What a statement writes\<close>

lemma fold_log_put:
  "fold (log_put l) parts con =
     (case l of null_logger_t \<Rightarrow> con
      | cout_logger_t \<Rightarrow> con\<lparr>con_out := con_out con @ concat parts\<rparr>
      | cerr_logger_t \<Rightarrow> con\<lparr>con_err := con_err con @ concat parts\<rparr>)"
  by (induction parts arbitrary: con) (simp_all split: logger.split)

text \<open>
  A statement writes its operands in order as one line, to the error stream for errors and
  warnings and to the output stream for the other levels; a release build writes errors only.
\<close>

theorem log_statement_line:
  "log_statement (rest_log (\<lambda>_. None) ndebug level) parts con =
     (if level = Log_error \<or> level = Log_warning \<and> \<not> ndebug
      then con\<lparr>con_err := con_err con @ concat parts @ newline\<rparr>
      else if ndebug then con\<lparr>con_out := con_out con\<rparr>
      else con\<lparr>con_out := con_out con @ concat parts @ newline\<rparr>)"
  by (cases level) (simp_all add: log_statement_def fold_log_put)

end
