(* ===== verification/Scheduler.thy ===== *)
theory Scheduler
  imports Codec Io_Context_Pool
begin

text \<open>
  Coroutines and the threads that run them: \<open>asio::awaitable\<close> as far as the order of execution goes,
  and the helpers of include/rest_rpc/asio_util.hpp that hand a coroutine to an executor. Between two
  suspensions a coroutine runs without being interleaved with others of its executor; which of them
  goes on is up to the executor. A coroutine cannot run forever between two suspensions, and neither
  can it suspend forever: both are a matter of the user's functions, which the model takes to end.
\<close>

section \<open>Coroutines\<close>

text \<open>A coroutine has returned, or it continues from where it suspended in a given world.\<close>

datatype ('w, 'r) coro =
    Co_return 'r
  | Co_resume "'w \<Rightarrow> 'w \<times> ('w, 'r) coro"

text \<open>One slice, from a suspension to the next; \<open>None\<close> when there is nothing left to run.\<close>

definition co_slice :: "('w, 'r) coro \<Rightarrow> 'w \<Rightarrow> (('w, 'r) coro \<times> 'w) option" where
  "co_slice k w = (case k of Co_return r \<Rightarrow> None | Co_resume f \<Rightarrow> (case f w of (w', k') \<Rightarrow> Some (k', w')))"

text \<open>A coroutine alone on its thread.\<close>

primrec co_run :: "('w, 'r) coro \<Rightarrow> 'w \<Rightarrow> 'r \<times> 'w" where
  "co_run (Co_return r) = (\<lambda>w. (r, w))"
| "co_run (Co_resume f) = (\<lambda>w. case map_prod id co_run (f w) of (w', g) \<Rightarrow> g w')"

text \<open>Going on with the result: \<open>co_await\<close>.\<close>

primrec co_bind :: "('w, 'r) coro \<Rightarrow> ('r \<Rightarrow> ('w, 's) coro) \<Rightarrow> ('w, 's) coro" where
  "co_bind (Co_return r) = (\<lambda>g. g r)"
| "co_bind (Co_resume f) = (\<lambda>g. Co_resume (\<lambda>w. map_prod id (\<lambda>k. k g) (map_prod id co_bind (f w))))"

lemma co_run_resume: "co_run (Co_resume f) w = co_run (snd (f w)) (fst (f w))"
  by (simp add: case_prod_unfold)

lemma co_run_bind: "co_run (co_bind k g) w = (case co_run k w of (r, w') \<Rightarrow> co_run (g r) w')"
proof (induction k arbitrary: w)
  case (Co_resume f)
  have "co_run (co_bind (snd (f w)) g) (fst (f w)) = (case co_run (snd (f w)) (fst (f w)) of (r, w') \<Rightarrow> co_run (g r) w')"
    using Co_resume [OF rangeI [of f w], of "snd (f w)" "fst (f w)"] by (cases "f w") simp
  then show ?case by (simp add: case_prod_unfold)
qed simp

section \<open>Threads\<close>

text \<open>
  Any of the tasks of a thread may run its next slice; \<open>step\<close> gives what is left of it and the world,
  or \<open>None\<close> when the task is over.
\<close>

inductive sched_step :: "('t \<Rightarrow> 'w \<Rightarrow> ('t \<times> 'w) option) \<Rightarrow> 't list \<times> 'w \<Rightarrow> 't list \<times> 'w \<Rightarrow> bool"
  for step :: "'t \<Rightarrow> 'w \<Rightarrow> ('t \<times> 'w) option"
where
  slice: "i < length ts \<Longrightarrow> step (ts ! i) w = Some (t', w') \<Longrightarrow> sched_step step (ts, w) (ts[i := t'], w')"

inductive_cases sched_stepE: "sched_step step (ts, w) s'"

inductive_simps sched_step_simps: "sched_step step (ts, w) s'"

definition finished :: "('t \<Rightarrow> 'w \<Rightarrow> ('t \<times> 'w) option) \<Rightarrow> 't list \<times> 'w \<Rightarrow> bool" where
  "finished step s \<longleftrightarrow> (\<forall>t \<in> set (fst s). step t (snd s) = None)"

lemma finished_iff: "finished step s \<longleftrightarrow> (\<nexists>s'. sched_step step s s')"
proof
  assume "finished step s"
  then show "\<nexists>s'. sched_step step s s'" by (auto simp: finished_def elim!: sched_step.cases)
next
  assume none: "\<nexists>s'. sched_step step s s'"
  obtain ts w where s: "s = (ts, w)" by fastforce
  have "step t w = None" if t: "t \<in> set ts" for t
  proof (rule ccontr)
    assume "step t w \<noteq> None"
    then obtain t' w' where "step t w = Some (t', w')" by auto
    moreover obtain i where "i < length ts" "ts ! i = t" using t by (auto simp: in_set_conv_nth)
    ultimately show False using slice [of i ts step w t' w'] none s by auto
  qed
  then show "finished step s" by (simp add: s finished_def)
qed

text \<open>A schedule as a list of the tasks that run next; entries that cannot run are passed over.\<close>

primrec run_schedule :: "('t \<Rightarrow> 'w \<Rightarrow> ('t \<times> 'w) option) \<Rightarrow> nat list \<Rightarrow> 't list \<times> 'w \<Rightarrow> 't list \<times> 'w" where
  "run_schedule step [] s = s"
| "run_schedule step (i # is) s =
     run_schedule step is
       (case s of (ts, w) \<Rightarrow>
          if i < length ts then (case step (ts ! i) w of None \<Rightarrow> (ts, w) | Some (t', w') \<Rightarrow> (ts[i := t'], w')) else (ts, w))"

lemma run_schedule_steps: "(sched_step step)\<^sup>*\<^sup>* s (run_schedule step is s)"
proof (induction "is" arbitrary: s)
  case (Cons i "is")
  obtain ts w where s: "s = (ts, w)" by fastforce
  have "(sched_step step)\<^sup>*\<^sup>* s (case s of (ts, w) \<Rightarrow>
      if i < length ts then (case step (ts ! i) w of None \<Rightarrow> (ts, w) | Some (t', w') \<Rightarrow> (ts[i := t'], w')) else (ts, w))"
    unfolding s by (auto split: option.split intro!: r_into_rtranclp slice)
  then show ?case using Cons.IH by (simp) (rule rtranclp_trans)
qed simp

text \<open>
  Tasks whose slices go down in a well-founded order: every schedule comes to an end, and where it
  ends every task is over.
\<close>

locale terminating_tasks =
  fixes step :: "'t \<Rightarrow> 'w \<Rightarrow> ('t \<times> 'w) option" and less :: "('t \<times> 't) set"
  assumes wf_less: "wf less"
    and step_less: "step t w = Some (t', w') \<Longrightarrow> (t', t) \<in> less"
begin

lemma wf_sched: "wf {(s', s). sched_step step s s'}"
proof (rule wf_subset)
  show "wf (inv_image (listrel1 less) fst)" using wf_less by simp
  show "{(s', s). sched_step step s s'} \<subseteq> inv_image (listrel1 less) fst"
  proof (clarsimp simp: in_inv_image)
    fix ts' w' ts w
    assume "sched_step step (ts, w) (ts', w')"
    then obtain i t' where i: "i < length ts" "step (ts ! i) w = Some (t', w')" "ts' = ts[i := t']"
      by (auto elim: sched_stepE)
    then show "(ts', ts) \<in> listrel1 less"
      using step_less [OF i(2)] listrel1I [of t' "ts ! i" less ts' "take i ts" "drop (Suc i) ts" ts]
      by (simp add: upd_conv_take_nth_drop id_take_nth_drop [symmetric])
  qed
qed

lemma finishes: "\<exists>s'. (sched_step step)\<^sup>*\<^sup>* s s' \<and> finished step s'"
proof (induction s rule: wf_induct_rule [OF wf_sched])
  case (1 s)
  show ?case
  proof (cases "finished step s")
    case False
    then obtain s1 where "sched_step step s s1" by (auto simp: finished_iff)
    then show ?thesis using 1 by (meson CollectI case_prodI converse_rtranclp_into_rtranclp)
  qed blast
qed

lemma no_endless_schedule: "\<not> (\<exists>r :: nat \<Rightarrow> 't list \<times> 'w. \<forall>n. sched_step step (r n) (r (Suc n)))"
  using wf_sched unfolding wf_iff_no_infinite_down_chain by auto

end

inductive co_child :: "('w, 'r) coro \<Rightarrow> ('w, 'r) coro \<Rightarrow> bool" where
  "f w = (w', k) \<Longrightarrow> co_child k (Co_resume f)"

lemma co_child_simps [simp]: "\<not> co_child k (Co_return r)" "co_child k (Co_resume f) \<longleftrightarrow> (\<exists>w. k = snd (f w))"
  by (auto simp: co_child.simps) (metis snd_conv, metis surjective_pairing)

lemma wf_co_child: "wf {(k', k). co_child k' k}"
proof (rule wfUNIVI)
  fix P :: "('w, 'r) coro \<Rightarrow> bool" and k
  assume step: "\<forall>x. (\<forall>y. (y, x) \<in> {(k', k). co_child k' k} \<longrightarrow> P y) \<longrightarrow> P x"
  show "P k"
  proof (induction k)
    case (Co_return r)
    then show ?case using step by simp
  next
    case (Co_resume f)
    have "P (snd (f w))" for w
      using Co_resume [OF rangeI [of f w], of "snd (f w)"] by (cases "f w") simp
    then show ?case using step [rule_format, of "Co_resume f"] by auto
  qed
qed

interpretation coroutines: terminating_tasks co_slice "{(k', k). co_child k' k}"
  by unfold_locales (auto simp: wf_co_child co_slice_def simp del: co_child_simps(2) intro: co_child.intros
      split: coro.splits prod.splits)

section \<open>Handing coroutines to an executor\<close>

text \<open>
  The state of an executor: the coroutines that were given to it, and the world they work on. A
  coroutine that throws returns the exception on the left. \<open>co_spawn\<close> adds a coroutine; its future is
  its position.
\<close>

type_synonym ('w, 'a) executor = "('w, exn + 'a) coro list \<times> 'w"

definition async_start :: "('w, exn + 'a) coro \<Rightarrow> ('w, 'a) executor \<Rightarrow> ('w, 'a) executor" where
  "async_start coro ex = (fst ex @ [coro], snd ex)"

definition async_future :: "('w, exn + 'a) coro \<Rightarrow> ('w, 'a) executor \<Rightarrow> nat \<times> ('w, 'a) executor" where
  "async_future coro ex = (length (fst ex), async_start coro ex)"

text \<open>\<open>future.get()\<close>: \<open>None\<close> as long as it has to wait.\<close>

definition future_get :: "nat \<Rightarrow> ('w, 'a) executor \<Rightarrow> (exn + 'a) option" where
  "future_get n ex = (case fst ex ! n of Co_return r \<Rightarrow> Some r | Co_resume _ \<Rightarrow> None)"

text \<open>\<open>sync_wait\<close> waits in the calling thread while the executor's thread runs, in the order \<open>sched\<close>.\<close>

definition sync_wait ::
  "nat list \<Rightarrow> ('w, exn + 'a) coro \<Rightarrow> ('w, 'a) executor \<Rightarrow> (exn + 'a) option \<times> ('w, 'a) executor"
where
  "sync_wait sched coro ex =
     (case async_future coro ex of (n, ex1) \<Rightarrow>
      let ex2 = run_schedule co_slice sched ex1 in (future_get n ex2, ex2))"

text \<open>The overload with a callback, which gets the exception or the result.\<close>

definition async_start_callback ::
  "('w, exn + 'a) coro \<Rightarrow> (exn + 'a \<Rightarrow> 'w \<Rightarrow> 'w) \<Rightarrow> ('w, unit) executor \<Rightarrow> ('w, unit) executor"
where
  "async_start_callback coro callback ex =
     async_start (co_bind coro (\<lambda>r. Co_resume (\<lambda>w. (callback r w, Co_return (Inr ()))))) ex"

section \<open>The global executor\<close>

text \<open>
  The overloads without an executor use \<open>get_global_executor\<close>: each call takes the next context of one
  pool. \<open>ge_tasks\<close> holds what each context of that pool was given, and the threads of the contexts work
  on one world.
\<close>

record ('w, 'a) global_executors =
  ge_pool :: "io_context_pool option"
  ge_tasks :: "nat \<Rightarrow> ('w, exn + 'a) coro list"
  ge_world :: 'w

definition on_global ::
  "size_t \<Rightarrow> (('w, 'a) executor \<Rightarrow> 'b \<times> ('w, 'a) executor) \<Rightarrow> ('w, 'a) global_executors \<Rightarrow> nat \<times> 'b \<times> ('w, 'a) global_executors"
where
  "on_global concurrency f g =
     (case get_global_executor concurrency (ge_pool g) of (k, pool) \<Rightarrow>
      case f (ge_tasks g k, ge_world g) of (r, tasks, w) \<Rightarrow>
        (k, r, \<lparr>ge_pool = pool, ge_tasks = (ge_tasks g)(k := tasks), ge_world = w\<rparr>))"

definition async_start_global ::
  "size_t \<Rightarrow> ('w, exn + 'a) coro \<Rightarrow> ('w, 'a) global_executors \<Rightarrow> nat \<times> unit \<times> ('w, 'a) global_executors"
where
  "async_start_global concurrency coro = on_global concurrency (\<lambda>ex. ((), async_start coro ex))"

definition async_future_global ::
  "size_t \<Rightarrow> ('w, exn + 'a) coro \<Rightarrow> ('w, 'a) global_executors \<Rightarrow> nat \<times> nat \<times> ('w, 'a) global_executors"
where
  "async_future_global concurrency coro = on_global concurrency (async_future coro)"

text \<open>Here \<open>sched\<close> is the order in which the thread of the chosen context runs.\<close>

definition sync_wait_global ::
  "size_t \<Rightarrow> nat list \<Rightarrow> ('w, exn + 'a) coro \<Rightarrow> ('w, 'a) global_executors
     \<Rightarrow> nat \<times> (exn + 'a) option \<times> ('w, 'a) global_executors"
where
  "sync_wait_global concurrency sched coro = on_global concurrency (sync_wait sched coro)"

text \<open>The pool is made by the first call; every call takes the next context.\<close>

lemma get_global_executor_next:
  "get_global_executor n g = (k, g') \<Longrightarrow> \<exists>p p'. g' = Some p' \<and> get_io_context p = (k, p') \<and>
     (case g of None \<Rightarrow> p = pool_run (io_context_pool_new n) | Some p0 \<Rightarrow> p = p0)"
  by (auto simp: get_global_executor_def pool_get_executor_def Let_def split: prod.splits option.splits)

lemma run_schedule_length: "length (fst (run_schedule step sched s)) = length (fst s)"
  by (induction sched arbitrary: s) (auto split: prod.splits option.splits)

text \<open>Tasks that are over stay as they are, so a coroutine among them runs alone.\<close>

lemma run_schedule_alone:
  assumes "\<forall>t \<in> set ts. \<exists>r. t = Co_return r"
  shows "\<exists>k' w'. run_schedule co_slice sched (ts @ [k], w) = (ts @ [k'], w') \<and> co_run k' w' = co_run k w"
proof (induction sched arbitrary: k w)
  case (Cons i sched)
  show ?case
  proof (cases "i = length ts")
    case True
    show ?thesis
    proof (cases k)
      case (Co_return r)
      then show ?thesis using True Cons.IH [of k w] by (simp add: co_slice_def)
    next
      case (Co_resume f)
      then have "run_schedule co_slice (i # sched) (ts @ [k], w) = run_schedule co_slice sched (ts @ [snd (f w)], fst (f w))"
        using True by (simp add: co_slice_def case_prod_unfold)
      then show ?thesis using Cons.IH [of "snd (f w)" "fst (f w)"] unfolding Co_resume co_run_resume by simp
    qed
  next
    case False
    then have "i < length ts \<Longrightarrow> \<exists>r. (ts @ [k]) ! i = Co_return r" using assms by (simp add: nth_append)
    then show ?thesis using False Cons.IH [of k w] by (fastforce simp: co_slice_def)
  qed
qed simp

lemma waited_for_returns:
  assumes "sync_wait sched coro ex = (res, ex')" "finished co_slice ex'"
  shows "\<exists>r. res = Some r \<and> fst ex' ! length (fst ex) = Co_return r"
proof -
  have ex': "ex' = run_schedule co_slice sched (fst ex @ [coro], snd ex)" "res = future_get (length (fst ex)) ex'"
    using assms(1) by (auto simp: sync_wait_def async_future_def async_start_def Let_def)
  have "length (fst ex') = Suc (length (fst ex))" using ex'(1) by (simp add: run_schedule_length)
  then have "co_slice (fst ex' ! length (fst ex)) (snd ex') = None" using assms(2) by (simp add: finished_def)
  then obtain r where "fst ex' ! length (fst ex) = Co_return r"
    by (cases "fst ex' ! length (fst ex)") (auto simp: co_slice_def split: prod.splits)
  then show ?thesis by (simp add: ex'(2) future_get_def)
qed

text \<open>
  Waiting for a coroutine from a thread that is not the executor's: once the executor has nothing
  left to run, \<open>sync_wait\<close> has the coroutine's result or its exception, and on an executor with
  nothing else to do that is the result of running the coroutine from start to end. That the
  executor gets there is the assumption on the user's functions made above: coroutines are finite.
  Waiting on the executor's own thread, where the coroutine would never be resumed, is not
  represented. A callback given to \<open>async_start\<close> is called with the result.
\<close>

lemma sync_wait_returns:
  assumes "sync_wait sched coro ex = (res, ex')" "finished co_slice ex'"
  shows "(\<exists>r. res = Some r)
    \<and> ((\<forall>t \<in> set (fst ex). \<exists>r. t = Co_return r) \<longrightarrow> res = Some (fst (co_run coro (snd ex))) \<and> snd ex' = snd (co_run coro (snd ex)))
    \<and> \<not> (\<exists>run :: nat \<Rightarrow> _. \<forall>n. sched_step co_slice (run n) (run (Suc n)))
    \<and> co_run (last (fst (async_start_callback coro cb ex2))) w
        = (case co_run coro w of (r, w1) \<Rightarrow> (Inr (), cb r w1))"
proof -
  obtain ts w where ex: "ex = (ts, w)" by fastforce
  have ex': "ex' = run_schedule co_slice sched (ts @ [coro], w)" "res = future_get (length ts) ex'"
    using assms(1) by (auto simp: ex sync_wait_def async_future_def async_start_def Let_def)
  obtain r where res: "res = Some r" and r: "fst ex' ! length ts = Co_return r"
    using waited_for_returns [OF assms] ex by auto
  have "r = fst (co_run coro w) \<and> snd ex' = snd (co_run coro w)" if over: "\<forall>t \<in> set ts. \<exists>r. t = Co_return r"
  proof -
    obtain k' w' where k: "ex' = (ts @ [k'], w')" "co_run k' w' = co_run coro w"
      using run_schedule_alone [OF over, of sched coro w] ex'(1) by auto
    then show ?thesis using r by (simp add: nth_append) (metis fst_conv snd_conv)
  qed
  then show ?thesis using res ex coroutines.no_endless_schedule
    by (auto simp: async_start_callback_def async_start_def co_run_bind co_run_resume split: prod.splits simp del: co_run.simps(2))
qed

lemma sync_wait_example:
  "sync_wait [0, 1, 0] (Co_resume (\<lambda>w :: nat. (w + 1, Co_resume (\<lambda>w. (w + 1, Co_return (Inr w)))))) ([], 5)
     = (Some (Inr 6), [Co_return (Inr 6)], 7)"
proof -
  let ?k = "Co_resume (\<lambda>w :: nat. (w + 1, Co_resume (\<lambda>w. (w + 1, Co_return (Inr w))))) :: (nat, exn + nat) coro"
  obtain res ex' where s: "sync_wait [0, 1, 0] ?k ([], 5) = (res, ex')" 
    using surj_pair [of "sync_wait [0, 1, 0] ?k ([], 5)"] by blast
  then have ex': "ex' = ([Co_return (Inr 6)], 7)"
    by (simp add: sync_wait_def async_future_def async_start_def co_slice_def Let_def)
  then have "finished co_slice ex'" by (simp add: finished_def co_slice_def)
  then show ?thesis using sync_wait_returns [OF s, where cb = "\<lambda>_ w. w" and ?ex2.0 = "([], 0)" and w = 0] ex' s by auto
qed

text \<open>
  A coroutine waited for on the global executor: the call takes one context of the pool, and when that
  context has nothing left to run the coroutine has ended; the other contexts are left alone.
\<close>

lemma sync_wait_global_returns:
  assumes "sync_wait_global n sched coro g = (k, res, g')" "finished co_slice (ge_tasks g' k, ge_world g')"
  shows "\<exists>r. res = Some r" "j \<noteq> k \<Longrightarrow> ge_tasks g' j = ge_tasks g j"
proof -
  obtain k' pool where ge: "get_global_executor n (ge_pool g) = (k', pool)" by fastforce
  obtain res' ts w where s: "sync_wait sched coro (ge_tasks g k', ge_world g) = (res', ts, w)" by (metis prod_cases3)
  have g': "k' = k" "res' = res" "g' = \<lparr>ge_pool = pool, ge_tasks = (ge_tasks g)(k := ts), ge_world = w\<rparr>"
    using assms(1) ge s by (auto simp: sync_wait_global_def on_global_def)
  then show "j \<noteq> k \<Longrightarrow> ge_tasks g' j = ge_tasks g j" by simp
  have "finished co_slice (ts, w)" using assms(2) g'(3) by simp
  from waited_for_returns [OF s this] show "\<exists>r. res = Some r" using g'(2) by blast
qed

end
