(* ===== verification/Examples.thy ===== *)
theory Examples
  imports Calls Logger Scheduler
begin

text \<open>
  The two example programs, examples/server.cpp and examples/client.cpp: the functions they register,
  the calls they make with their checks and their output, the publisher that reads words from the
  console and the subscriber that prints them. They use the library the way its users do, so what
  is proved of the library has to give what the programs assert. The texts from which a compiler
  makes the names of functions are a parameter, \<open>sig\<close>.
\<close>

section \<open>The functions of the server\<close>

definition echo :: "'u world handler" where
  "echo = \<lparr>h_params = [T_string_view], h_ret = T_string_view, h_self = False,
     h_body = (\<lambda>args w. case args of [str] \<Rightarrow> (Inr str, w) | _ \<Rightarrow> (Inl Unknown_exception, w))\<rparr>"

definition echo_coro :: "'u world handler" where
  "echo_coro = \<lparr>h_params = [T_string_view], h_ret = T_awaitable T_string_view, h_self = False,
     h_body = (\<lambda>args w. case args of [str] \<Rightarrow> (Inr str, w) | _ \<Rightarrow> (Inl Unknown_exception, w))\<rparr>"

text \<open>\<open>a + b\<close> on \<open>int\<close>; a sum out of range is undefined in C++, \<open>ovf\<close> stands for what comes out of it.\<close>

definition int_plus :: "(int \<Rightarrow> int \<Rightarrow> int) \<Rightarrow> int \<Rightarrow> int \<Rightarrow> int" where
  "int_plus ovf a b = (if in_range True W32 (a + b) then a + b else ovf a b)"

definition add :: "(int \<Rightarrow> int \<Rightarrow> int) \<Rightarrow> 'u world handler" where
  "add ovf = \<lparr>h_params = [T_int32, T_int32], h_ret = T_int32, h_self = False,
     h_body = (\<lambda>args w. case args of [V_int a, V_int b] \<Rightarrow> (Inr (V_int (int_plus ovf a b)), w)
                         | _ \<Rightarrow> (Inl Unknown_exception, w))\<rparr>"

definition dummy_add :: "(int \<Rightarrow> int \<Rightarrow> int) \<Rightarrow> 'u world handler" where
  "dummy_add ovf = (add ovf)\<lparr>h_self := True\<rparr>"

definition person :: ctype where
  "person = T_struct [T_int32, T_string, T_int32]"

definition get_person :: "'u world handler" where
  "get_person = \<lparr>h_params = [person], h_ret = person, h_self = False,
     h_body = (\<lambda>args w. case args of [V_seq [i, name, age]] \<Rightarrow> (Inr (V_seq [i, V_str (str_bytes ''jack''), age]), w)
                         | _ \<Rightarrow> (Inl Unknown_exception, w))\<rparr>"

section \<open>Registration\<close>

fun register_all ::
  "codec_env \<Rightarrow> compiler \<Rightarrow> (string \<times> 'u world handler) list \<Rightarrow> 'u server \<Rightarrow> (exn + 'u server) option"
where
  "register_all env c [] sv = Some (Inr sv)"
| "register_all env c ((signature, f) # fs) sv =
     (case server_register_func env c signature f sv of
        None \<Rightarrow> None
      | Some (Inl e) \<Rightarrow> Some (Inl e)
      | Some (Inr sv') \<Rightarrow> register_all env c fs sv')"

text \<open>The functions by name, as \<open>basict_usage\<close> and \<open>publish\<close> register them.\<close>

definition basict_functions :: "(int \<Rightarrow> int \<Rightarrow> int) \<Rightarrow> (string \<times> 'u world handler) list" where
  "basict_functions ovf =
     [(''echo'', echo), (''echo_coro'', echo_coro), (''dummy::add'', dummy_add ovf), (''get_person'', get_person)]"

definition publish_functions :: "(int \<Rightarrow> int \<Rightarrow> int) \<Rightarrow> (string \<times> 'u world handler) list" where
  "publish_functions ovf = [(''echo'', echo), (''add'', add ovf)]"

definition example_server ::
  "codec_env \<Rightarrow> compiler \<Rightarrow> (string \<Rightarrow> string) \<Rightarrow> (string \<times> 'u world handler) list \<Rightarrow> (exn + 'u server) option"
where
  "example_server env c sig fs =
     register_all env c (map (\<lambda>(name, f). (sig name, f)) fs) (rpc_server_of_address ''127.0.0.1:9004'' 4)"

text \<open>Registration of functions whose names have different keys succeeds and finds each of them.\<close>

lemma register_all_finds:
  assumes "\<forall>(name, f) \<in> set fs. get_func_name c (sig name) = Some name"
    and "distinct (map (\<lambda>p. hash_name (str_bytes (fst p))) fs)"
    and "router_inv (sv_router sv)" "\<forall>(name, f) \<in> set fs. map_invokers (sv_router sv) (hash_name (str_bytes name)) = None"
  shows "\<exists>rt. register_all env c (map (\<lambda>(name, f). (sig name, f)) fs) sv = Some (Inr (sv\<lparr>sv_router := rt\<rparr>)) \<and> router_inv rt
    \<and> (\<forall>(name, f) \<in> set fs. map_invokers rt (hash_name (str_bytes name)) = Some (make_invoker env f))
    \<and> (\<forall>key. key \<notin> (\<lambda>p. hash_name (str_bytes (fst p))) ` set fs \<longrightarrow> map_invokers rt key = map_invokers (sv_router sv) key)"
  using assms
proof (induction fs arbitrary: sv)
  case Nil
  then show ?case by (intro exI [of _ "sv_router sv"]) simp
next
  case (Cons nf fs)
  obtain name f where nf: "nf = (name, f)" by fastforce
  let ?key = "hash_name (str_bytes name)"
  have free: "map_invokers (sv_router sv) ?key = None" using Cons.prems(4) nf by auto
  obtain rt where rt: "register_handler env (str_bytes name) f (sv_router sv) = Inr rt" "router_inv rt"
    using router.register_fresh [OF Cons.prems(3), of "str_bytes name"] free by blast
  have find: "map_invokers rt k = (if k = ?key then Some (make_invoker env f) else map_invokers (sv_router sv) k)" for k
    using rt(1) free router_inv_agree [OF Cons.prems(3) free]
    by (auto simp: register_handler_def register_handler_impl_def register_func_impl_def)
  let ?sv = "sv\<lparr>sv_router := rt\<rparr>"
  have reg: "server_register_func env c (sig name) f sv = Some (Inr ?sv)"
    using Cons.prems(1) nf rt(1) by (simp add: server_register_func_def register_handler_func_def)
  have other: "?key \<notin> (\<lambda>p. hash_name (str_bytes (fst p))) ` set fs" using Cons.prems(2) nf by auto
  then have "\<forall>(n, g) \<in> set fs. map_invokers (sv_router ?sv) (hash_name (str_bytes n)) = None"
    using Cons.prems(4) find by (auto simp: image_iff split_beta)
  then obtain rt' where rt': "register_all env c (map (\<lambda>(name, f). (sig name, f)) fs) ?sv = Some (Inr (sv\<lparr>sv_router := rt'\<rparr>))"
    "router_inv rt'" "\<forall>(name, f) \<in> set fs. map_invokers rt' (hash_name (str_bytes name)) = Some (make_invoker env f)"
    "\<forall>key. key \<notin> (\<lambda>p. hash_name (str_bytes (fst p))) ` set fs \<longrightarrow> map_invokers rt' key = map_invokers rt key"
    using Cons.IH [of ?sv] Cons.prems(1, 2) rt(2) by auto
  then show ?case using reg nf find other by (intro exI [of _ rt']) auto
qed

section \<open>The keys of the names\<close>

text \<open>The digests of the names, evaluated: a short name is one block.\<close>

lemma key_echo: "hash_name (str_bytes ''echo'') = 0xcbb11ed8"
  by (rule hash_name_value; code_simp)

lemma key_echo_coro: "hash_name (str_bytes ''echo_coro'') = 0xbac3e659"
  by (rule hash_name_value; code_simp)

lemma key_dummy_add: "hash_name (str_bytes ''dummy::add'') = 0xb5c999c1"
  by (rule hash_name_value; code_simp)

lemma key_get_person: "hash_name (str_bytes ''get_person'') = 0x55b96248"
  by (rule hash_name_value; code_simp)

lemma key_add: "hash_name (str_bytes ''add'') = 0x34ec78fc"
  by (rule hash_name_value; code_simp)

lemma key_topic1: "hash_name (str_bytes ''topic1'') = 0x4dadd7ee"
  by (rule hash_name_value; code_simp)

lemmas keys = key_echo key_echo_coro key_dummy_add key_get_person key_add key_topic1

section \<open>The calls of the examples\<close>

text \<open>How a coroutine of the examples ends; a failed assertion ends the program.\<close>

datatype example_end =
    Ex_returned
  | Ex_assertion
  | Ex_threw exn
  | Ex_undefined
  | Ex_waits
  | Ex_ill_formed

text \<open>
  A call with what is done about its result: the member that is looked at, the value it is compared
  with, and whether that happens under \<open>if (r.ec == rpc_errc::ok)\<close>, after a line of output.
\<close>

record example_call =
  ex_name :: string
  ex_ret :: ctype
  ex_args :: "(ctype \<times> cval) list"
  ex_field :: "cval \<Rightarrow> cval"
  ex_expected :: cval
  ex_checked :: bool

text \<open>A string literal as an argument: an array with a terminating zero.\<close>

definition literal :: "string \<Rightarrow> ctype \<times> cval" where
  "literal s = (T_lref (T_const (T_char_array (Suc (length s)))), V_str (str_bytes s @ [0]))"

definition person_name :: "cval \<Rightarrow> cval" where
  "person_name p = (case p of V_seq [i, name, age] \<Rightarrow> name | _ \<Rightarrow> V_unit)"

definition basict_calls :: "example_call list" where
  "basict_calls =
     [\<lparr>ex_name = ''echo'', ex_ret = T_string_view, ex_args = [literal ''test''],
        ex_field = id, ex_expected = V_str (str_bytes ''test''), ex_checked = True\<rparr>,
      \<lparr>ex_name = ''echo_coro'', ex_ret = T_awaitable T_string_view, ex_args = [literal ''test1''],
        ex_field = id, ex_expected = V_str (str_bytes ''test1''), ex_checked = False\<rparr>,
      \<lparr>ex_name = ''dummy::add'', ex_ret = T_int32, ex_args = [(T_int32, V_int 1), (T_int32, V_int 2)],
        ex_field = id, ex_expected = V_int 3, ex_checked = True\<rparr>,
      \<lparr>ex_name = ''get_person'', ex_ret = person,
        ex_args = [(T_lref person, V_seq [V_int 1, V_str (str_bytes ''tom''), V_int 20])],
        ex_field = person_name, ex_expected = V_str (str_bytes ''jack''), ex_checked = True\<rparr>]"

definition basic_usage_calls :: "example_call list" where
  "basic_usage_calls =
     [\<lparr>ex_name = ''echo'', ex_ret = T_string_view, ex_args = [literal ''test''],
        ex_field = id, ex_expected = V_str (str_bytes ''test''), ex_checked = True\<rparr>,
      \<lparr>ex_name = ''add'', ex_ret = T_int32, ex_args = [(T_int32, V_int 1), (T_int32, V_int 2)],
        ex_field = id, ex_expected = V_int 3, ex_checked = True\<rparr>]"

text \<open>Output: the default loggers, in the build that \<open>env\<close> says.\<close>

definition ex_log :: "codec_env \<Rightarrow> log_level \<Rightarrow> string list \<Rightarrow> console \<Rightarrow> console" where
  "ex_log env level parts con = log_statement (rest_log (\<lambda>_. None) (\<not> ce_debug env) level) parts con"

definition value_text :: "cval \<Rightarrow> string" where
  "value_text v = (case v of V_str bs \<Rightarrow> bytes_str bs | V_int i \<Rightarrow> bytes_str (to_string i) | _ \<Rightarrow> [])"

text \<open>
  What the client logs on the way: why it could not connect, and that the body of an answer could not be
  read; \<open>message\<close> is \<open>std::error_code::message\<close>.
\<close>

fun connect_log :: "race \<Rightarrow> race \<Rightarrow> string list" where
  "connect_log Watchdog connected = [''resolve timeout'']"
| "connect_log (Finished ec) connected =
     (if ec_set ec then [''resolve failed'']
      else case connected of
        Watchdog \<Rightarrow> [''connect timeout'']
      | Finished conn_ec \<Rightarrow> if ec_set conn_ec then [''connect failed''] else [])"

definition body_log :: "endian \<Rightarrow> nat \<Rightarrow> (error_code \<Rightarrow> string) \<Rightarrow> client \<Rightarrow> string list" where
  "body_log host lim message cl =
     (case async_read header_size (cl_impl cl) of (ec, hb, s) \<Rightarrow>
      let resp_header = header_of_bytes host hb in
      if ec_set ec \<or> magic resp_header \<noteq> 39 then []
      else
        let resp_header = (if cl_cross_ending cl then parse_recieved host resp_header else resp_header) in
        if lim < unat (body_len resp_header) then []
        else case async_read (unat (body_len resp_header)) s of (ec, _, _) \<Rightarrow>
             if ec_set ec then [''read body error: '', message ec] else [])"

definition call_log ::
  "endian \<Rightarrow> nat \<Rightarrow> codec_env \<Rightarrow> (error_code \<Rightarrow> string) \<Rightarrow> u32 \<Rightarrow> (ctype \<times> cval) list \<Rightarrow> client \<Rightarrow> string list"
where
  "call_log host lim env message key args cl =
     (case async_write (call_frame host (cl_cross_ending cl) env (init_header\<lparr>function_id := key\<rparr>) args) (cl_impl cl) of
        (ec, s) \<Rightarrow> if ec_set ec then [] else body_log host lim message (cl\<lparr>cl_impl := s\<rparr>))"

definition ex_log_if :: "codec_env \<Rightarrow> log_level \<Rightarrow> string list \<Rightarrow> console \<Rightarrow> console" where
  "ex_log_if env level parts con = (if parts = [] then con else ex_log env level parts con)"

fun example_calls ::
  "endian \<Rightarrow> nat \<Rightarrow> codec_env \<Rightarrow> compiler \<Rightarrow> (string \<Rightarrow> string) \<Rightarrow> (error_code \<Rightarrow> string) \<Rightarrow> example_call list \<Rightarrow> client \<Rightarrow> console
     \<Rightarrow> example_end \<times> client \<times> console"
where
  "example_calls host lim env c sig message [] cl con = (Ex_returned, cl, con)"
| "example_calls host lim env c sig message (st # sts) cl con0 =
     (let con = (case get_key c (sig (ex_name st)) of
                   None \<Rightarrow> con0
                 | Some key \<Rightarrow> ex_log_if env Log_warning (call_log host lim env message key (ex_args st) cl) con0)
      in case call host lim env None c (sig (ex_name st)) (ex_ret st) (ex_args st) cl of
        None \<Rightarrow> (Ex_ill_formed, cl, con)
      | Some (Returned r, cl1) \<Rightarrow>
          let v = ex_field st (cr_value r);
              looked = (ex_checked st \<longrightarrow> cr_ec r = ok);
              con1 = (if ex_checked st \<and> cr_ec r = ok then ex_log env Log_info [''call result: '', value_text v] con else con)
          in if ce_debug env \<and> looked \<and> v \<noteq> ex_expected st then (Ex_assertion, cl1, con1)
             else example_calls host lim env c sig message sts cl1 con1
      | Some (Threw e, cl1) \<Rightarrow> (Ex_threw e, cl1, con)
      | Some (Waits_forever, cl1) \<Rightarrow> (Ex_waits, cl1, con)
      | Some (Completed_twice, cl1) \<Rightarrow> (Ex_undefined, cl1, con)
      | Some (Out_of_bounds, cl1) \<Rightarrow> (Ex_undefined, cl1, con))"

text \<open>
  The coroutine \<open>rpc_call\<close>. Its client is destroyed when it ends; a failed assertion ends the program instead.
\<close>

definition rpc_call ::
  "endian \<Rightarrow> nat \<Rightarrow> codec_env \<Rightarrow> compiler \<Rightarrow> (string \<Rightarrow> string) \<Rightarrow> (error_code \<Rightarrow> string)
     \<Rightarrow> (string \<Rightarrow> string \<Rightarrow> race) \<Rightarrow> race \<Rightarrow> socket \<Rightarrow> example_call list \<Rightarrow> console \<Rightarrow> example_end \<times> client \<times> console"
where
  "rpc_call host lim env c sig message resolve connected sock calls con =
     (case connect_address resolve connected sock ''127.0.0.1:9004'' rpc_client_new of (ec0, cl) \<Rightarrow>
      let con1 = ex_log_if env Log_error (connect_log (resolve ''127.0.0.1'' ''9004'') connected) con in
      case (if ec_set ec0 then (Ex_returned, cl, ex_log env Log_error [message ec0] con1)
            else example_calls host lim env c sig message calls cl con1) of
        (e, cl, con2) \<Rightarrow> (e, if e = Ex_returned then client_destroy cl else cl, con2))"

text \<open>
  \<open>basic_usage\<close> of the client, and \<open>basict_usage\<close> of the server, which starts listening before it calls itself;
  \<open>le\<close> and \<open>static_ec\<close> are what starting meets. When \<open>basict_usage\<close> returns, the server is destroyed, which stops
  it. The console holds what \<open>basict_usage\<close>, its coroutine and the functions they call write; the threads of the
  server write lines of their own in between, for the connection they accept and close, which are not in it.
\<close>

definition basic_usage ::
  "endian \<Rightarrow> nat \<Rightarrow> codec_env \<Rightarrow> compiler \<Rightarrow> (string \<Rightarrow> string) \<Rightarrow> (error_code \<Rightarrow> string)
     \<Rightarrow> (string \<Rightarrow> string \<Rightarrow> race) \<Rightarrow> race \<Rightarrow> socket \<Rightarrow> console \<Rightarrow> example_end \<times> client \<times> console"
where
  "basic_usage host lim env c sig message resolve connected sock con =
     rpc_call host lim env c sig message resolve connected sock basic_usage_calls con"

definition destroy_server :: "codec_env \<Rightarrow> 'u server \<Rightarrow> 'u world \<Rightarrow> console \<Rightarrow> 'u server \<times> console" where
  "destroy_server env sv w con =
     (fst (server_destroy sv w),
      if sv_has_stop sv \<or> sv_stop_flag sv then con else ex_log env Log_info [''server stoping''] con)"

definition basict_usage ::
  "endian \<Rightarrow> nat \<Rightarrow> codec_env \<Rightarrow> compiler \<Rightarrow> (string \<Rightarrow> string) \<Rightarrow> (string \<times> 'u world handler) list \<Rightarrow> (error_code \<Rightarrow> string)
     \<Rightarrow> listen_env \<Rightarrow> error_code \<Rightarrow> (string \<Rightarrow> string \<Rightarrow> race) \<Rightarrow> race \<Rightarrow> socket \<Rightarrow> 'u world \<Rightarrow> console
     \<Rightarrow> example_end \<times> 'u server option \<times> console"
where
  "basict_usage host lim env c sig fs message le static_ec resolve connected sock w con =
     (case example_server env c sig fs of
        None \<Rightarrow> (Ex_ill_formed, None, con)
      | Some (Inl e) \<Rightarrow> (Ex_threw e, None, con)
      | Some (Inr server) \<Rightarrow>
          (case server_async_start le static_ec server of (ec, _, server1) \<Rightarrow>
           case (if ec_set ec then (Ex_returned, ex_log env Log_error [message ec] con)
                 else (case rpc_call host lim env c sig message resolve connected sock basict_calls con of
                         (e, _, con1) \<Rightarrow> (e, con1))) of
             (e, con1) \<Rightarrow>
               if e = Ex_returned
               then (case destroy_server env server1 w con1 of (server2, con2) \<Rightarrow> (e, Some server2, con2))
               else (e, Some server1, con1)))"

section \<open>The examples do what they assert\<close>

text \<open>A literal travels as the text without the terminating zero, like a \<open>std::string_view\<close> of it.\<close>

lemma get_buffer_literal:
  assumes "0 \<notin> set (str_bytes s)"
  shows "get_buffer env [literal s] = get_buffer env [(T_string_view, V_str (str_bytes s))]"
proof -
  have "takeWhile (\<lambda>b. b \<noteq> 0) (str_bytes s @ [0]) = str_bytes s @ takeWhile (\<lambda>b. b \<noteq> 0) [0]"
    using assms by (intro takeWhile_append2) auto
  then show ?thesis
    by (simp add: literal_def get_buffer_def pack_args_def is_basic_v_def CharArray_def CharArrayRef_def string_concept_def
        remove_cvref_def pack_one_def is_fundamental_def)
qed

lemma call_for_literal:
  assumes "0 \<notin> set (str_bytes s)"
  shows "call_for host lim env fired key R [literal s] cl = call_for host lim env fired key R [(T_string_view, V_str (str_bytes s))] cl"
  by (simp add: call_for_def call_impl_def aborted_call_impl_def call_frame_def get_buffer_literal [OF assms] Let_def split: option.split timeout.split)

text \<open>A call that returns \<open>ok\<close> has read its answer in full, and logs nothing.\<close>

lemma body_log_ok:
  assumes "fst (wait_response host lim env R cl) = Returned res" "cr_ec res = ok"
  shows "body_log host lim message cl = []"
proof -
  obtain ec hb s where r1: "async_read header_size (cl_impl cl) = (ec, hb, s)" by (metis prod_cases3)
  define h where "h = (if cl_cross_ending cl then parse_recieved host (header_of_bytes host hb) else header_of_bytes host hb)"
  obtain ec2 bs s2 where r2: "async_read (unat (body_len h)) s = (ec2, bs, s2)" by (metis prod_cases3)
  have "False" if "ec_set ec2" "\<not> ec_set ec" "magic (header_of_bytes host hb) = 39" "\<not> lim < unat (body_len h)"
    using assms that r2 [unfolded h_def]
    by (auto simp: wait_response_def r1 Let_def h_def dest: comple_all_result)
  then show ?thesis using r2 [unfolded h_def]
    by (auto simp: body_log_def r1 Let_def h_def)
qed

lemma call_log_ok:
  assumes "fst (call_for host lim env None key R args cl) = Returned res" "cr_ec res = ok"
  shows "call_log host lim env message key args cl = []"
proof -
  obtain ec s where w: "async_write (call_frame host (cl_cross_ending cl) env (init_header\<lparr>function_id := key\<rparr>) args) (cl_impl cl) = (ec, s)"
    by fastforce
  have t: False if "fst (timed_out R rcl) = Returned res" for rcl
    using timed_out_result [OF that] assms(2) by simp
  have "fst (wait_response host lim env R (cl\<lparr>cl_impl := s\<rparr>)) = Returned res" if "\<not> ec_set ec"
    using assms that by (auto simp: call_for_def call_impl_def w or_watchdog_def Let_def split: outcome.splits dest: t)
  from body_log_ok [OF this assms(2)] show ?thesis by (simp add: call_log_def w)
qed

text \<open>Calls that return what is expected of them go through to the end.\<close>

abbreviation ex_key :: "example_call \<Rightarrow> u32" where
  "ex_key st \<equiv> hash_name (str_bytes (ex_name st))"

lemma example_calls_return:
  assumes "call_seq host lim env (map (\<lambda>st. (ex_key st, return_type_t (ex_ret st), ex_args st)) sts) cl
      = (map (\<lambda>v. Returned \<lparr>cr_ec = ok, cr_value = v\<rparr>) vs, cl')"
    and "\<forall>st \<in> set sts. get_func_name c (sig (ex_name st)) = Some (ex_name st)"
    and "list_all2 (\<lambda>st v. ex_field st v = ex_expected st) sts vs"
  shows "example_calls host lim env c sig message sts cl con = (Ex_returned, cl',
    fold (\<lambda>st. ex_log env Log_info [''call result: '', value_text (ex_expected st)]) (filter ex_checked sts) con)"
  using assms
proof (induction sts arbitrary: vs cl con)
  case (Cons st sts)
  obtain v vs' where vs: "vs = v # vs'" "ex_field st v = ex_expected st" "list_all2 (\<lambda>st v. ex_field st v = ex_expected st) sts vs'"
    using Cons.prems(3) by (auto simp: list_all2_Cons1)
  obtain out cl1 where call: "call_for host lim env None (ex_key st) (return_type_t (ex_ret st)) (ex_args st) cl = (out, cl1)"
    by fastforce
  have out: "out = Returned \<lparr>cr_ec = ok, cr_value = v\<rparr>"
    and rest: "call_seq host lim env (map (\<lambda>st. (ex_key st, return_type_t (ex_ret st), ex_args st)) sts) cl1
      = (map (\<lambda>v. Returned \<lparr>cr_ec = ok, cr_value = v\<rparr>) vs', cl')"
    using Cons.prems(1) call vs(1) by (auto split: prod.splits)
  have log: "call_log host lim env message (ex_key st) (ex_args st) cl = []"
    by (rule call_log_ok [where R = "return_type_t (ex_ret st)" and res = "\<lparr>cr_ec = ok, cr_value = v\<rparr>"]) (simp_all add: call out)
  show ?case using Cons.IH [OF rest _ vs(3)] Cons.prems(2) call out vs(2)
    by (simp add: call_def get_key_def ex_log_if_def log Let_def)
qed simp


text \<open>The calls of \<open>basict_usage\<close> as local calls.\<close>

definition basict_local :: "(int \<Rightarrow> int \<Rightarrow> int) \<Rightarrow> (bytes \<times> 'u world handler \<times> (ctype \<times> cval) list) list" where
  "basict_local ovf =
     [(str_bytes ''echo'', echo, [(T_string_view, V_str (str_bytes ''test''))]),
      (str_bytes ''echo_coro'', echo_coro, [(T_string_view, V_str (str_bytes ''test1''))]),
      (str_bytes ''dummy::add'', dummy_add ovf, [(T_int32, V_int 1), (T_int32, V_int 2)]),
      (str_bytes ''get_person'', get_person, [(T_lref person, V_seq [V_int 1, V_str (str_bytes ''tom''), V_int 20])])]"

definition basict_results :: "cval list" where
  "basict_results = [V_str (str_bytes ''test''), V_str (str_bytes ''test1''), V_int 3,
     V_seq [V_int 1, V_str (str_bytes ''jack''), V_int 20]]"

lemmas ex_types = is_void_v_def return_type_t_def is_basic_v_def is_fundamental_def string_concept_def CharArray_def
  CharArrayRef_def remove_cvref_def unpack_compiles_def in_range_def int_min_def int_max_def max_container_def

lemma functions_compile:
  "handler_compiles (default_env d) echo" "handler_compiles (default_env d) echo_coro"
  "handler_compiles (default_env d) (add ovf)" "handler_compiles (default_env d) (dummy_add ovf)"
  "handler_compiles (default_env d) get_person"
  by (simp_all add: handler_compiles_def echo_def echo_coro_def add_def dummy_add_def get_person_def person_def ex_types)

lemma example_lengths:
  "length (get_buffer (default_env d) [(T_string_view, V_str (str_bytes s))]) = length s"
  "length (pack_args (default_env d) [(T_string_view, V_str (str_bytes s))]) = length s"
  "length (get_buffer (default_env d) [(T_int32, V_int 1), (T_int32, V_int 2)]) \<le> 100"
  "length (pack_args (default_env d) [(T_int32, V_int 3)]) = 1"
  "length (get_buffer (default_env d) [(T_lref person, V_seq [V_int 1, V_str (str_bytes ''tom''), V_int 20])]) \<le> 100"
  "length (pack_args (default_env d) [(person, V_seq [V_int 1, V_str (str_bytes ''jack''), V_int 20])]) \<le> 100"
proof -
  show "length (get_buffer (default_env d) [(T_string_view, V_str (str_bytes s))]) = length s"
    "length (pack_args (default_env d) [(T_string_view, V_str (str_bytes s))]) = length s"
    "length (pack_args (default_env d) [(T_int32, V_int 3)]) = 1"
    by (simp_all add: get_buffer_def pack_args_def pack_one_def ex_types to_string_def dec_digits.simps)
  show "length (get_buffer (default_env d) [(T_int32, V_int 1), (T_int32, V_int 2)]) \<le> 100"
    by (simp add: get_buffer_tuple length_sp_serialize ex_types get_serialize_runtime_info_def)
  show "length (get_buffer (default_env d) [(T_lref person, V_seq [V_int 1, V_str (str_bytes ''tom''), V_int 20])]) \<le> 100"
    by (simp add: get_buffer_tuple length_sp_serialize ex_types get_serialize_runtime_info_def person_def Let_def size_code_def code_width_def)
  show "length (pack_args (default_env d) [(person, V_seq [V_int 1, V_str (str_bytes ''jack''), V_int 20])]) \<le> 100"
    by (simp add: pack_args_def length_sp_serialize ex_types get_serialize_runtime_info_def person_def Let_def size_code_def code_width_def default_env_def)
qed

text \<open>One call of each function in front of further calls.\<close>

lemma echo_call:
  assumes "f = echo \<or> f = echo_coro" "map_invokers rt (hash_name name) = Some (make_invoker (default_env d) f)"
    and "length s \<le> lim" "length s < lim'" "length s < 2 ^ 63" "\<not> tls_delay (w_tls w)"
    and "calls_return (default_env d) (default_env d') rt lim lim' conn cs (set_connection conn w) vs w'"
  shows "calls_return (default_env d) (default_env d') rt lim lim' conn
    ((name, f, [(T_string_view, V_str (str_bytes s))]) # cs) w (V_str (str_bytes s) # vs) w'"
  using assms(1, 3 - 6) functions_compile(1, 2) [of d] example_lengths(1, 2) [of _ s]
  by (intro one_call [OF assms(2) _ _ _ _ _ _ _ _ _ assms(7)])
     (auto simp: echo_def echo_coro_def passable_def codec_ok_def ex_types set_connection_def)

lemma add_call:
  assumes "f = add ovf \<or> f = dummy_add ovf" "map_invokers rt (hash_name name) = Some (make_invoker (default_env d) f)"
    and "100 \<le> lim" "100 < lim'" "\<not> tls_delay (w_tls w)"
    and "calls_return (default_env d) (default_env d') rt lim lim' conn cs (set_connection conn w) vs w'"
  shows "calls_return (default_env d) (default_env d') rt lim lim' conn
    ((name, f, [(T_int32, V_int 1), (T_int32, V_int 2)]) # cs) w (V_int 3 # vs) w'"
  using assms(1, 3 - 5) functions_compile(3, 4) [of d ovf] example_lengths(3, 4) [of d'] example_lengths(4) [of d]
  by (intro one_call [OF assms(2) _ _ _ _ _ _ _ _ _ assms(6)])
     (auto simp: add_def dummy_add_def int_plus_def passable_def codec_ok_def ex_types set_connection_def)

lemma person_call:
  assumes "map_invokers rt (hash_name name) = Some (make_invoker (default_env d) get_person)"
    and "100 \<le> lim" "100 < lim'" "\<not> tls_delay (w_tls w)"
    and "calls_return (default_env d) (default_env d') rt lim lim' conn cs (set_connection conn w) vs w'"
  shows "calls_return (default_env d) (default_env d') rt lim lim' conn
    ((name, get_person, [(T_lref person, V_seq [V_int 1, V_str (str_bytes ''tom''), V_int 20])]) # cs) w
    (V_seq [V_int 1, V_str (str_bytes ''jack''), V_int 20] # vs) w'"
  using assms(2 - 4) example_lengths(5) [of d'] example_lengths(6) [of d]
  by (intro one_call [OF assms(1) functions_compile(5) _ _ _ _ _ _ _ _ assms(5)])
     (auto simp: get_person_def person_def passable_def codec_ok_def ex_types set_connection_def)

lemma basict_local_returns:
  assumes "\<forall>(name, f) \<in> set (basict_functions ovf). map_invokers rt (hash_name (str_bytes name)) = Some (make_invoker (default_env d) f)"
    and "100 \<le> lim" "100 < lim'" "\<not> tls_delay (w_tls w)"
  shows "calls_return (default_env d) (default_env d') rt lim lim' conn (basict_local ovf) w basict_results (set_connection conn w)"
proof -
  have again: "set_connection conn (set_connection conn w) = set_connection conn w" "\<not> tls_delay (w_tls (set_connection conn w))"
    using assms(4) by (simp_all add: set_connection_def)
  show ?thesis unfolding basict_local_def basict_results_def
    by (intro echo_call add_call person_call)
       (use assms again in \<open>auto simp: basict_functions_def intro: no_call\<close>)
qed

text \<open>The requests of an example as they travel.\<close>

definition example_frames :: "endian \<Rightarrow> codec_env \<Rightarrow> example_call list \<Rightarrow> bytes" where
  "example_frames host env sts =
     concat (map (\<lambda>st. request_frame host False (ex_key st) (get_buffer env (ex_args st))) sts)"

text \<open>The steps of an example are these calls of local functions, with string views for literals.\<close>

definition same_call :: "codec_env \<Rightarrow> example_call \<Rightarrow> bytes \<times> 'u world handler \<times> (ctype \<times> cval) list \<Rightarrow> bool" where
  "same_call env st lc = (case lc of (name, f, args) \<Rightarrow>
     str_bytes (ex_name st) = name \<and> ex_ret st = h_ret f \<and>
     (ex_args st = args \<or> (\<exists>s. 0 \<notin> set (str_bytes s) \<and> ex_args st = [literal s] \<and> args = [(T_string_view, V_str (str_bytes s))])))"

lemma same_calls_frames:
  "list_all2 (same_call env) sts calls \<Longrightarrow> example_frames host env sts = call_frames host False env calls"
  by (induction rule: list_all2_induct)
     (auto simp: example_frames_def call_frames_def same_call_def get_buffer_literal)

lemma same_calls_seq:
  "list_all2 (same_call env) sts calls \<Longrightarrow>
    call_seq host lim env (map (\<lambda>st. (ex_key st, return_type_t (ex_ret st), ex_args st)) sts) cl
      = call_seq host lim env (map client_call calls) cl"
  by (induction arbitrary: cl rule: list_all2_induct)
     (auto simp: same_call_def call_for_literal split: prod.splits)

lemma example_session:
  assumes "calls_return sv env rt lim lim' conn calls w vs w'" "list_all2 (same_call env) sts calls"
    and "list_all2 (\<lambda>st v. ex_field st v = ex_expected st) sts vs"
    and "\<forall>st \<in> set sts. get_func_name c (sig (ex_name st)) = Some (ex_name st)"
    and "resolve ''127.0.0.1'' ''9004'' = Finished no_error"
  shows "\<exists>c' cl'. start host lim rt (new_connection (fresh_socket (example_frames host env sts)) conn False t) w = start host lim rt c' w'
    \<and> sk_rx (c_socket c') = [] \<and> \<not> c_has_closed c'
    \<and> rpc_call host lim' env c sig message resolve (Finished no_error) (fresh_socket (sk_tx (c_socket c'))) sts con
      = (Ex_returned, cl', fold (\<lambda>st. ex_log env Log_info [''call result: '', value_text (ex_expected st)]) (filter ex_checked sts) con)
    \<and> sk_tx (cl_impl cl') = example_frames host env sts"
proof -
  let ?c = "new_connection (fresh_socket (example_frames host env sts)) conn False t"
  let ?cl = "rpc_client_new\<lparr>cl_should_reset := True, cl_impl := fresh_socket [], cl_has_closed := False\<rparr>"
  have srv: "serving ?c conn (cl_cross_ending ?cl) False" "sk_tx (c_socket ?c) = []"
    "sk_rx (c_socket ?c) = call_frames host (cl_cross_ending ?cl) env calls @ []" "sk_open (cl_impl ?cl)" "sk_writes (cl_impl ?cl) = []"
    using same_calls_frames [OF assms(2), of host]
    by (simp_all add: serving_def new_connection_def fresh_socket_def rpc_client_new_def)
  obtain c' cl' where c': "start host lim rt ?c w = start host lim rt c' w'" "serving c' conn (cl_cross_ending ?cl) False"
    "sk_rx (c_socket c') = []"
    "call_seq host lim' env (map client_call calls) (?cl\<lparr>cl_impl := (cl_impl ?cl)\<lparr>sk_rx := sk_tx (c_socket c')\<rparr>\<rparr>)
        = (map (\<lambda>v. Returned \<lparr>cr_ec = ok, cr_value = v\<rparr>) vs, cl')"
    "sk_tx (cl_impl cl') @ [] = sk_tx (cl_impl ?cl) @ sk_rx (c_socket ?c)"
    using calls_answered [OF assms(1) srv] by blast
  have addr: "split_address ''127.0.0.1:9004'' = (''127.0.0.1'', ''9004'')"
    using split_address_colon [of "''127.0.0.1''" "''9004''"] by simp
  have conn: "connect_address resolve (Finished no_error) (fresh_socket (sk_tx (c_socket c'))) ''127.0.0.1:9004'' rpc_client_new
      = (no_error, ?cl\<lparr>cl_impl := (cl_impl ?cl)\<lparr>sk_rx := sk_tx (c_socket c')\<rparr>\<rparr>)"
    by (simp add: connect_address_def addr assms(5) connect_def rpc_client_new_def fresh_socket_def)
  show ?thesis using c' same_calls_seq [OF assms(2)]
      example_calls_return [OF _ assms(4) assms(3), of host lim' env]
    by (intro exI [of _ c'] exI [of _ "client_destroy cl'"])
       (simp add: rpc_call_def conn assms(5) ex_log_if_def client_destroy_def client_close_def close_socket_def,
        simp add: serving_def fresh_socket_def new_connection_def)
qed

text \<open>The server of an example finds every function it registers.\<close>

lemma example_server_finds:
  assumes "\<forall>name \<in> fst ` set fs. get_func_name c (sig name) = Some name"
    and "distinct (map (\<lambda>p. hash_name (str_bytes (fst p))) fs)"
  shows "\<exists>sv. example_server env c sig fs = Some (Inr sv) \<and> \<not> sv_cross_ending sv \<and> \<not> sv_has_stop sv \<and> \<not> sv_start_flag sv \<and> \<not> sv_stop_flag sv
    \<and> (\<forall>(name, f) \<in> set fs. map_invokers (sv_router sv) (hash_name (str_bytes name)) = Some (make_invoker env f))"
proof -
  let ?sv = "rpc_server_of_address ''127.0.0.1:9004'' 4"
  have new: "sv_router ?sv = empty_router" "\<not> sv_cross_ending ?sv" "\<not> sv_has_stop ?sv" "\<not> sv_start_flag ?sv" "\<not> sv_stop_flag ?sv"
    by (simp_all add: rpc_server_of_address_def rpc_server_new_def Let_def split: prod.split)
  have names: "\<forall>(name, f) \<in> set fs. get_func_name c (sig name) = Some name" using assms(1) by force
  have "router_inv (sv_router ?sv)" "\<forall>(name, f) \<in> set fs. map_invokers (sv_router ?sv) (hash_name (str_bytes name)) = None"
    using router_inv_empty by (auto simp: new empty_router_def)
  from register_all_finds [OF names assms(2) this, of env] show ?thesis
    using new unfolding example_server_def by auto
qed

lemma ex_log_info: "ex_log (default_env d) Log_info parts con =
    (if d then con\<lparr>con_out := con_out con @ concat parts @ newline\<rparr> else con)"
  by (cases d) (simp_all add: ex_log_def default_env_def log_statement_def fold_log_put)

lemma ex_log_error: "ex_log env Log_error parts con = con\<lparr>con_err := con_err con @ concat parts @ newline\<rparr>"
  by (simp add: ex_log_def log_statement_def fold_log_put)

lemma bytes_str_digit: "bytes_str (to_string 3) = ''3''"
  by code_simp

text \<open>
  C24: the example of the server does what it asserts. Registering its four functions succeeds, since
  their names have different keys; when it can listen and the client it starts connects, the calls go one
  after the other and return \<open>"test"\<close>, \<open>"test1"\<close>, 3 and a person called jack, so that no assertion fails. The
  connection has then answered every request and waits for more; the example closes its client and stops the
  server. When it cannot listen it prints the reason. What it writes itself, in between the lines of the server's
  own threads, is in a debug build the three results and that the server stops, in a release build nothing.
\<close>

theorem basict_usage_succeeds:
  fixes w :: "'u world"
  assumes "\<forall>name \<in> {''echo'', ''echo_coro'', ''dummy::add'', ''get_person''}. get_func_name c (sig name) = Some name"
    and "100 \<le> lim" "100 < lim'" "\<not> tls_delay (w_tls w)" "resolve ''127.0.0.1'' ''9004'' = Finished no_error"
  shows "\<exists>sv c' sv'. example_server (default_env d) c sig (basict_functions ovf) = Some (Inr sv)
    \<and> start host lim (sv_router sv) (new_connection (fresh_socket (example_frames host (default_env d) basict_calls)) conn
        (sv_cross_ending sv) t) w = start host lim (sv_router sv) c' (set_connection conn w)
    \<and> sk_rx (c_socket c') = [] \<and> \<not> c_has_closed c' \<and> sv_has_stop sv'
    \<and> basict_usage host lim' (default_env d) c sig (basict_functions ovf :: (string \<times> 'u world handler) list) message le static_ec resolve
        (Finished no_error) (fresh_socket (sk_tx (c_socket c'))) w con
      = (Ex_returned, Some sv',
         let ec = fst (server_listen le sv);
             lines = (if ec_set ec then [] else [''call result: test'', ''call result: 3'', ''call result: jack'']) @ [''server stoping'']
         in con\<lparr>con_out := con_out con @ (if d then concat (map (\<lambda>l. l @ newline) lines) else []),
                con_err := con_err con @ (if ec_set ec then message ec @ newline else [])\<rparr>)"
proof -
  obtain sv :: "'u server" where sv: "example_server (default_env d) c sig (basict_functions ovf) = Some (Inr sv)" "\<not> sv_cross_ending sv"
    "\<not> sv_has_stop sv" "\<not> sv_start_flag sv" "\<not> sv_stop_flag sv"
    "\<forall>(name, f) \<in> set (basict_functions ovf). map_invokers (sv_router sv) (hash_name (str_bytes name)) = Some (make_invoker (default_env d) f)"
    using example_server_finds [of "basict_functions ovf" c sig "default_env d"] assms(1) keys
    by (auto simp: basict_functions_def)
  note ret = basict_local_returns [OF sv(6) assms(2 - 4), of d conn]
  have same: "list_all2 (same_call (default_env d)) basict_calls (basict_local ovf)"
    by (simp add: basict_calls_def basict_local_def same_call_def echo_def echo_coro_def dummy_add_def add_def get_person_def)
       (auto simp: str_bytes_def)
  have exp: "list_all2 (\<lambda>st v. ex_field st v = ex_expected st) basict_calls basict_results"
    by (simp add: basict_calls_def basict_results_def person_name_def)
  have names: "\<forall>st \<in> set basict_calls. get_func_name c (sig (ex_name st)) = Some (ex_name st)"
    using assms(1) by (simp add: basict_calls_def)
  have out: "fold (\<lambda>st. ex_log (default_env d) Log_info [''call result: '', value_text (ex_expected st)]) (filter ex_checked basict_calls) con
      = (if d then con\<lparr>con_out := con_out con @ ''call result: test'' @ newline @ ''call result: 3'' @ newline
           @ ''call result: jack'' @ newline\<rparr> else con)"
    by (simp add: basict_calls_def ex_log_info value_text_def bytes_str_digit)
  obtain ec se sv1 where st: "server_async_start le static_ec sv = (ec, se, sv1)" by (metis prod_cases3)
  then have sv1: "ec = fst (server_listen le sv)" "\<not> sv_has_stop sv1" "\<not> sv_stop_flag sv1"
    using sv(3 - 5) by (auto simp: server_async_start_def start_impl_def server_listen_def Let_def split: prod.splits if_splits)
  then have stop: "sv_has_stop (fst (server_destroy sv1 w))" by (simp add: server_destroy_def server_stop_def)
  obtain c' cl' where run: "start host lim (sv_router sv) (new_connection (fresh_socket (example_frames host (default_env d) basict_calls)) conn
        False t) w = start host lim (sv_router sv) c' (set_connection conn w)"
    "sk_rx (c_socket c') = []" "\<not> c_has_closed c'"
    "rpc_call host lim' (default_env d) c sig message resolve (Finished no_error) (fresh_socket (sk_tx (c_socket c'))) basict_calls con
      = (Ex_returned, cl', if d then con\<lparr>con_out := con_out con @ ''call result: test'' @ newline @ ''call result: 3'' @ newline
           @ ''call result: jack'' @ newline\<rparr> else con)"
    using example_session [where sig = sig and resolve = resolve, OF ret same exp names assms(5), of host t message con]
    unfolding out by blast
  show ?thesis
    by (intro exI [of _ sv] exI [of _ c'] exI [of _ "fst (server_destroy sv1 w)"])
       (use sv(1, 2) run sv1 stop in \<open>simp add: basict_usage_def st destroy_server_def ex_log_error ex_log_info Let_def\<close>)
qed

text \<open>The text GCC makes of a function.\<close>

definition gcc_signature :: "string \<Rightarrow> string" where
  "gcc_signature name = ''constexpr auto rest_rpc::detail::qualified_name_of_impl() [with auto Func = '' @ name @ '']''"

theorem basict_usage_succeeds_witness:
  "\<exists>sv c' sv' w'. sv_has_stop sv' \<and> example_server (default_env True) GCC gcc_signature (basict_functions (\<lambda>a b. 0)) = Some (Inr sv)
    \<and> start Little 100 (sv_router sv) (new_connection (fresh_socket (example_frames Little (default_env True) basict_calls)) 1
        (sv_cross_ending sv) 0) (world0 ()) = start Little 100 (sv_router sv) c' w'
    \<and> basict_usage Little 200 (default_env True) GCC gcc_signature (basict_functions (\<lambda>a b. 0) :: (string \<times> unit world handler) list)
        (\<lambda>ec. []) \<lparr>le_resolve = no_error, le_open = no_error, le_bind = no_error, le_listen = no_error\<rparr> no_error
        (\<lambda>h p. Finished no_error) (Finished no_error) (fresh_socket (sk_tx (c_socket c'))) (world0 ()) \<lparr>con_out = [], con_err = []\<rparr>
      = (Ex_returned, Some sv', \<lparr>con_out = ''call result: test'' @ newline @ ''call result: 3'' @ newline
           @ ''call result: jack'' @ newline @ ''server stoping'' @ newline, con_err = []\<rparr>)"
proof -
  have "get_func_name GCC (gcc_signature ''echo'') = Some ''echo''"
    "get_func_name GCC (gcc_signature ''echo_coro'') = Some ''echo_coro''"
    "get_func_name GCC (gcc_signature ''dummy::add'') = Some ''dummy::add''"
    "get_func_name GCC (gcc_signature ''get_person'') = Some ''get_person''"
    by code_simp+
  then have names: "\<forall>name \<in> {''echo'', ''echo_coro'', ''dummy::add'', ''get_person''}. get_func_name GCC (gcc_signature name) = Some name"
    by blast
  let ?le = "\<lparr>le_resolve = no_error, le_open = no_error, le_bind = no_error, le_listen = no_error\<rparr>"
  have listen: "\<not> ec_set (fst (server_listen ?le sv))" for sv :: "unit server"
    by (simp add: server_listen_def ec_set_def no_error_def)
  show ?thesis
    using basict_usage_succeeds [OF names, where lim = 100 and lim' = 200 and w = "world0 ()" and resolve = "\<lambda>h p. Finished no_error"
        and d = True and ovf = "\<lambda>a b. 0" and host = Little and conn = 1 and t = 0 and message = "\<lambda>ec. []"
        and le = ?le and static_ec = no_error and con = "\<lparr>con_out = [], con_err = []\<rparr>"] listen
    by (auto simp: world0_def Let_def)
qed

text \<open>The calls of the example client, served by the functions that the publishing server registers.\<close>

definition basic_usage_local :: "(int \<Rightarrow> int \<Rightarrow> int) \<Rightarrow> (bytes \<times> 'u world handler \<times> (ctype \<times> cval) list) list" where
  "basic_usage_local ovf =
     [(str_bytes ''echo'', echo, [(T_string_view, V_str (str_bytes ''test''))]),
      (str_bytes ''add'', add ovf, [(T_int32, V_int 1), (T_int32, V_int 2)])]"

lemma basic_usage_succeeds:
  fixes w :: "'u world"
  assumes "\<forall>name \<in> {''echo'', ''add''}. get_func_name c (sig name) = Some name \<and> get_func_name c' (sig' name) = Some name"
    and "100 \<le> lim" "100 < lim'" "\<not> tls_delay (w_tls w)" "resolve ''127.0.0.1'' ''9004'' = Finished no_error"
  shows "\<exists>sv cn cl. example_server (default_env d) c sig (publish_functions ovf) = Some (Inr sv)
    \<and> start host lim (sv_router sv) (new_connection (fresh_socket (example_frames host (default_env d') basic_usage_calls)) conn
        (sv_cross_ending sv) t) w = start host lim (sv_router sv) cn (set_connection conn w)
    \<and> sk_rx (c_socket cn) = [] \<and> \<not> c_has_closed cn
    \<and> basic_usage host lim' (default_env d') c' sig' message resolve (Finished no_error) (fresh_socket (sk_tx (c_socket cn))) con
      = (Ex_returned, cl, if d' then con\<lparr>con_out := con_out con @ ''call result: test'' @ newline @ ''call result: 3'' @ newline\<rparr> else con)"
proof -
  obtain sv :: "'u server" where sv: "example_server (default_env d) c sig (publish_functions ovf) = Some (Inr sv)" "\<not> sv_cross_ending sv"
    "\<forall>(name, f) \<in> set (publish_functions ovf). map_invokers (sv_router sv) (hash_name (str_bytes name)) = Some (make_invoker (default_env d) f)"
    using example_server_finds [of "publish_functions ovf" c sig "default_env d"] assms(1) keys
    by (auto simp: publish_functions_def)
  have ret: "calls_return (default_env d) (default_env d') (sv_router sv) lim lim' conn (basic_usage_local ovf) w
      [V_str (str_bytes ''test''), V_int 3] (set_connection conn w)"
    unfolding basic_usage_local_def
    by (intro echo_call add_call) (use assms(2 - 4) sv(3) in \<open>auto simp: publish_functions_def set_connection_def intro: no_call\<close>)
  have same: "list_all2 (same_call (default_env d')) basic_usage_calls (basic_usage_local ovf)"
    by (simp add: basic_usage_calls_def basic_usage_local_def same_call_def echo_def add_def) (auto simp: str_bytes_def)
  have exp: "list_all2 (\<lambda>st v. ex_field st v = ex_expected st) basic_usage_calls [V_str (str_bytes ''test''), V_int 3]"
    by (simp add: basic_usage_calls_def)
  have names: "\<forall>st \<in> set basic_usage_calls. get_func_name c' (sig' (ex_name st)) = Some (ex_name st)"
    using assms(1) by (simp add: basic_usage_calls_def)
  have out: "fold (\<lambda>st. ex_log (default_env d') Log_info [''call result: '', value_text (ex_expected st)]) (filter ex_checked basic_usage_calls) con
      = (if d' then con\<lparr>con_out := con_out con @ ''call result: test'' @ newline @ ''call result: 3'' @ newline\<rparr> else con)"
    by (simp add: basic_usage_calls_def ex_log_info value_text_def bytes_str_digit)
  show ?thesis
    using example_session [where sig = sig' and resolve = resolve, OF ret same exp names assms(5), of host t message con] sv(1, 2)
    unfolding out basic_usage_def by auto
qed

end
