(* ===== verification/Topics_Example.thy ===== *)
theory Topics_Example
  imports Examples
begin

text \<open>
  The publisher of examples/server.cpp and the subscriber of examples/client.cpp: words from the
  console go to the topic, the subscriber prints them until it reads the word \<open>close\<close> or loses the
  connection. Here the server does nothing else while the words are published; Topics_Run lets it run.
\<close>

section \<open>The publisher\<close>

abbreviation topic1 :: bytes where
  "topic1 \<equiv> str_bytes ''topic1''"

text \<open>
  The loop over the words on the console. At the end of the input \<open>std::cin >> str\<close> fails and leaves
  \<open>str\<close> as it is, so that the loop goes on for ever: \<open>None\<close>.
\<close>

fun pub_loop ::
  "endian \<Rightarrow> codec_env \<Rightarrow> string list \<Rightarrow> 'u server \<Rightarrow> 'u world \<Rightarrow> ('u server \<times> 'u world) option"
where
  "pub_loop host env [] sv w = None"
| "pub_loop host env (str # strs) sv w =
     (if str = ''quit'' then Some (sv, w)
      else case publish host env topic1 (T_lref T_string) (V_str (str_bytes str)) sv w of
             (sv1, w1) \<Rightarrow> pub_loop host env strs sv1 w1)"

text \<open>\<open>sync_wait(..., pub()); server.stop();\<close>\<close>

definition publish_and_stop ::
  "endian \<Rightarrow> codec_env \<Rightarrow> string list \<Rightarrow> 'u server \<Rightarrow> 'u world \<Rightarrow> (('u server \<times> connection list) \<times> 'u world) option"
where
  "publish_and_stop host env strs sv w = map_option (\<lambda>(sv1, w1). (server_stop sv1 w1, w1)) (pub_loop host env strs sv w)"

text \<open>\<open>sync_publish\<close> of the server, for callers outside of coroutines: the state is what the executor works on.\<close>

definition publish_coro ::
  "endian \<Rightarrow> codec_env \<Rightarrow> bytes \<Rightarrow> ctype \<Rightarrow> cval \<Rightarrow> ('u server \<times> 'u world, exn + unit) coro"
where
  "publish_coro host env topic t v = Co_resume (\<lambda>(sv, w). (publish host env topic t v sv w, Co_return (Inr ())))"

definition sync_publish ::
  "nat list \<Rightarrow> endian \<Rightarrow> codec_env \<Rightarrow> bytes \<Rightarrow> ctype \<Rightarrow> cval \<Rightarrow> ('u server \<times> 'u world, unit) executor
     \<Rightarrow> (exn + unit) option \<times> ('u server \<times> 'u world, unit) executor"
where
  "sync_publish sched host env topic t v ex = sync_wait sched (publish_coro host env topic t v) ex"

lemma sync_publish_idle:
  "sync_publish [0] host env topic t v ([], (sv, w)) = (Some (Inr ()), [Co_return (Inr ())], publish host env topic t v sv w)"
  by (simp add: sync_publish_def publish_coro_def sync_wait_def async_future_def async_start_def future_get_def co_slice_def Let_def
      split: prod.split)

section \<open>The subscriber\<close>

text \<open>A result with code \<open>ok\<close> has taken at least a header from the stream.\<close>

lemma wait_response_ok_consumes:
  assumes "wait_response host lim env R cl = (Returned r, cl')" "cr_ec r = ok"
  shows "length (sk_rx (cl_impl cl')) < length (sk_rx (cl_impl cl))"
proof -
  obtain ec hb s where r1: "async_read header_size (cl_impl cl) = (ec, hb, s)" by (metis prod_cases3)
  define h where "h = (if cl_cross_ending cl then parse_recieved host (header_of_bytes host hb) else header_of_bytes host hb)"
  obtain ec2 bs s2 where r2: "async_read (unat (body_len h)) s = (ec2, bs, s2)" by (metis prod_cases3)
  have cl': "cl' = snd (wait_response host lim env R cl)" using assms(1) by simp
  have ret: "res = result" if "comple_all result cl1 = (Returned res, cl2)" for res result cl1 cl2
    using comple_all_result [of result cl1 res] that by simp
  have "\<not> ec_set ec" using assms r1 by (auto simp: wait_response_def Let_def split: if_splits dest!: ret)
  then have s: "length (sk_rx s) < length (sk_rx (cl_impl cl))"
    using async_read_success [OF r1] by (simp add: header_size_def)
  moreover have "length (sk_rx s2) \<le> length (sk_rx s)" using async_read_frame [OF r2] by simp
  ultimately show ?thesis using r2 [unfolded h_def] unfolding cl'
    by (auto simp: wait_response_def Let_def comple_all_impl complete_topic_impl close_socket_def r1
        \<open>\<not> ec_set ec\<close> split: sum.splits)
qed

lemma subscribe_ok_consumes:
  assumes "subscribe host lim env R topic cl = (Returned r, cl')" "cr_ec r = ok"
  shows "length (sk_rx (cl_impl cl')) < length (sk_rx (cl_impl cl))"
proof -
  have join: "\<exists>cl2. rcl = (Returned r, cl2) \<and> cl2 = cl'" if "sub_join i rcl = (Returned r, cl')" for i rcl
    using that by (cases rcl) (auto simp: sub_join_def Let_def split: outcome.splits option.splits sub_operation.splits)
  show ?thesis using assms
    by (auto simp: subscribe_def call_impl_def Let_def dest!: join async_write_frame split: option.splits prod.splits if_splits
        dest: wait_response_ok_consumes)
qed

text \<open>
  The loop of the subscriber: each word is printed; the word \<open>close\<close> and any error code end it, the
  latter with a message.
\<close>

function sub_loop :: "endian \<Rightarrow> nat \<Rightarrow> codec_env \<Rightarrow> client \<Rightarrow> console \<Rightarrow> example_end \<times> client \<times> console" where
  "sub_loop host lim env cl con =
     (case subscribe host lim env T_string topic1 cl of
        (Returned r, cl1) \<Rightarrow>
          if cr_ec r \<noteq> ok
          then (Ex_returned, cl1,
                ex_log env Log_error [''subscribe failed: '', category_message (ec_value (make_error_code (cr_ec r)))] con)
          else if cr_value r = V_str (str_bytes ''close'') then (Ex_returned, cl1, con)
          else sub_loop host lim env cl1 (ex_log env Log_info [value_text (cr_value r)] con)
      | (Threw e, cl1) \<Rightarrow> (Ex_threw e, cl1, con)
      | (Waits_forever, cl1) \<Rightarrow> (Ex_waits, cl1, con)
      | (Completed_twice, cl1) \<Rightarrow> (Ex_undefined, cl1, con)
      | (Out_of_bounds, cl1) \<Rightarrow> (Ex_undefined, cl1, con))"
  by pat_completeness auto

termination
  by (relation "measure (\<lambda>(host, lim, env, cl, con). length (sk_rx (cl_impl cl)))")
     (auto intro!: subscribe_ok_consumes [OF sym])

declare sub_loop.simps [simp del]

text \<open>\<open>sub()\<close>: whether connecting succeeds is not looked at.\<close>

definition sub_program ::
  "endian \<Rightarrow> nat \<Rightarrow> codec_env \<Rightarrow> (string \<Rightarrow> string \<Rightarrow> race) \<Rightarrow> race \<Rightarrow> socket \<Rightarrow> console \<Rightarrow> example_end \<times> client \<times> console"
where
  "sub_program host lim env resolve connected sock con =
     (case connect_address resolve connected sock ''127.0.0.1:9004'' rpc_client_new of (ec, cl) \<Rightarrow>
      sub_loop host lim env cl (ex_log env Log_info [''will subscribe, waiting for publish''] con))"

section \<open>Words arrive in order\<close>

text \<open>The frame of a published word.\<close>

definition word_frame :: "endian \<Rightarrow> bool \<Rightarrow> string \<Rightarrow> bytes" where
  "word_frame host cross str = response_frame host cross (rpc_result_of_string (str_bytes str)) (hash_name topic1)"

text \<open>The state of the client between two subscriptions.\<close>

definition between_words :: "client \<Rightarrow> bool" where
  "between_words cl \<longleftrightarrow> sk_open (cl_impl cl) \<and> sk_writes (cl_impl cl) = []
     \<and> (cl_sub_ops cl = [] \<or> cl_sub_ops cl = [(hash_name topic1, Sub_done True)])"

abbreviation waiting :: "client \<Rightarrow> client" where
  "waiting cl \<equiv> cl\<lparr>cl_sub_ops := [(hash_name topic1, Sub_waiting)]\<rparr>"

text \<open>Both branches of \<open>subscribe\<close> end in waiting for an answer; the first one has sent a request.\<close>

lemma subscribe_waits:
  assumes "between_words cl"
  shows "\<exists>tx. subscribe host lim env R topic1 cl
    = sub_join (hash_name topic1) (wait_response host lim env R ((waiting cl)\<lparr>cl_impl := (cl_impl cl)\<lparr>sk_tx := tx\<rparr>\<rparr>))"
proof (cases "cl_sub_ops cl = []")
  case True
  then show ?thesis using assms
    by (intro exI [of _ "sk_tx (cl_impl cl) @ subscribe_frame host (cl_cross_ending cl) (hash_name topic1)"])
       (simp add: between_words_def subscribe_def call_impl_def call_frame_subscribe async_write_success Let_def)
next
  case False
  then show ?thesis using assms
    by (intro exI [of _ "sk_tx (cl_impl cl)"]) (simp add: between_words_def subscribe_def Let_def)
qed

lemma subscribe_word:
  assumes "between_words cl" "sk_rx (cl_impl cl) = word_frame host (cl_cross_ending cl) str @ r"
    and "length str < lim" "length str < 2 ^ 63"
  shows "\<exists>cl'. subscribe host lim env T_string topic1 cl = (Returned \<lparr>cr_ec = ok, cr_value = V_str (str_bytes str)\<rparr>, cl')
    \<and> between_words cl' \<and> sk_rx (cl_impl cl') = r \<and> cl_cross_ending cl' = cl_cross_ending cl"
proof -
  obtain tx where sub: "subscribe host lim env T_string topic1 cl = sub_join (hash_name topic1)
      (wait_response host lim env T_string ((waiting cl)\<lparr>cl_impl := (cl_impl cl)\<lparr>sk_tx := tx\<rparr>\<rparr>))"
    using subscribe_waits [OF assms(1)] by blast
  let ?cl = "(waiting cl)\<lparr>cl_impl := (cl_impl cl)\<lparr>sk_tx := tx\<rparr>\<rparr>"
  have rx: "sk_rx (cl_impl ?cl) = response_frame host (cl_cross_ending ?cl) (rpc_result_of_string (str_bytes str)) (hash_name topic1) @ r"
    using assms(2) by (simp add: word_frame_def)
  have op: "sk_open (cl_impl ?cl)" using assms(1) by (simp add: between_words_def)
  have key: "hash_name topic1 \<noteq> 0" by (simp add: keys)
  have "wait_response host lim env T_string ?cl = (Returned \<lparr>cr_ec = ok, cr_value = V_str (str_bytes str)\<rparr>,
      ?cl\<lparr>cl_impl := (cl_impl ?cl)\<lparr>sk_rx := r\<rparr>, cl_body := errc_byte ok # str_bytes str,
          cl_sub_ops := [(hash_name topic1, Sub_done True)]\<rparr>)"
    using wait_response_frame [OF op rx, of lim env T_string] assms(3, 4) key
    by (simp add: rpc_result_of_string_def rpc_result_init_def rr_data_def is_void_def unpack_def is_fundamental_def Let_def
        complete_topic_def response_header_def init_header_def init_result_def)
  then show ?thesis using sub assms(1) by (simp add: sub_join_def between_words_def)
qed

lemma subscribe_end:
  assumes "between_words cl" "sk_rx (cl_impl cl) = []"
  shows "\<exists>cl'. subscribe host lim env T_string topic1 cl = (Returned \<lparr>cr_ec = read_error, cr_value = V_str []\<rparr>, cl')
    \<and> has_closed cl'"
proof -
  obtain tx where sub: "subscribe host lim env T_string topic1 cl = sub_join (hash_name topic1)
      (wait_response host lim env T_string ((waiting cl)\<lparr>cl_impl := (cl_impl cl)\<lparr>sk_tx := tx\<rparr>\<rparr>))"
    using subscribe_waits [OF assms(1)] by blast
  show ?thesis unfolding sub using assms
    by (simp add: between_words_def wait_response_def async_read_def header_size_def Let_def comple_all_def close_socket_def
        sub_join_def init_result_def has_closed_def)
qed

text \<open>What the subscriber prints of a sequence of words.\<close>

definition printed :: "codec_env \<Rightarrow> string list \<Rightarrow> console \<Rightarrow> console" where
  "printed env strs con =
     (let con1 = fold (\<lambda>str. ex_log env Log_info [str]) (takeWhile (\<lambda>str. str \<noteq> ''close'') strs) con
      in if ''close'' \<in> set strs then con1 else ex_log env Log_error [''subscribe failed: '', ''read failed''] con1)"

lemma sub_loop_prints:
  assumes "between_words cl" "sk_rx (cl_impl cl) = concat (map (word_frame host (cl_cross_ending cl)) strs)"
    and "\<forall>str \<in> set strs. length str < lim \<and> length str < 2 ^ 63"
  shows "\<exists>cl'. sub_loop host lim env cl con = (Ex_returned, cl', printed env strs con)"
  using assms
proof (induction strs arbitrary: cl con)
  case Nil
  have "category_message (ec_value (make_error_code read_error)) = ''read failed''" by code_simp
  then show ?case using subscribe_end [of cl host lim env] Nil
    by (auto simp: sub_loop.simps [of host lim env cl con] printed_def)
next
  case (Cons str strs)
  obtain cl1 where cl1: "subscribe host lim env T_string topic1 cl = (Returned \<lparr>cr_ec = ok, cr_value = V_str (str_bytes str)\<rparr>, cl1)"
    "between_words cl1" "sk_rx (cl_impl cl1) = concat (map (word_frame host (cl_cross_ending cl1)) strs)"
    using subscribe_word [OF Cons.prems(1), of host str _ lim env] Cons.prems(2, 3) by auto
  show ?case
  proof (cases "str = ''close''")
    case False
    then show ?thesis using cl1 Cons.IH [OF cl1(2, 3)] Cons.prems(3)
      by (auto simp: sub_loop.simps [of host lim env cl con] printed_def value_text_def)
  qed (use cl1 in \<open>simp add: sub_loop.simps [of host lim env cl con] printed_def\<close>)
qed

text \<open>The program, when what it receives are the frames of words.\<close>

lemma sub_program_prints:
  assumes "tx = concat (map (word_frame host False) strs)" "resolve ''127.0.0.1'' ''9004'' = Finished no_error"
    and "\<forall>str \<in> set strs. length str < lim \<and> length str < 2 ^ 63"
  shows "\<exists>cl'. sub_program host lim env resolve (Finished no_error) (fresh_socket tx) con
    = (Ex_returned, cl', printed env strs (ex_log env Log_info [''will subscribe, waiting for publish''] con))"
proof -
  let ?cl = "rpc_client_new\<lparr>cl_should_reset := True, cl_impl := fresh_socket tx, cl_has_closed := False\<rparr>"
  have conn: "connect_address resolve (Finished no_error) (fresh_socket tx) ''127.0.0.1:9004'' rpc_client_new = (no_error, ?cl)"
    using split_address_colon [of "''127.0.0.1''" "''9004''"]
    by (simp add: connect_address_def assms(2) connect_def rpc_client_new_def)
  have cl: "between_words ?cl" "sk_rx (cl_impl ?cl) = concat (map (word_frame host (cl_cross_ending ?cl)) strs)"
    using assms(1) by (simp_all add: between_words_def fresh_socket_def rpc_client_new_def)
  show ?thesis using sub_loop_prints [OF cl assms(3), of env] unfolding sub_program_def conn prod.case by blast
qed

text \<open>A connection before and after words were published: subscribers have got every word, in order.\<close>

definition got_words :: "endian \<Rightarrow> string list \<Rightarrow> u64 \<times> connection \<Rightarrow> u64 \<times> connection \<Rightarrow> bool" where
  "got_words host strs p p' \<longleftrightarrow> fst p' = fst p \<and> c_topic_id (snd p') = c_topic_id (snd p)
     \<and> c_cross_ending (snd p') = c_cross_ending (snd p) \<and> c_socket (snd p') = (c_socket (snd p))\<lparr>sk_tx := sk_tx (c_socket (snd p))
         @ (if c_topic_id (snd p) = hash_name topic1 then concat (map (word_frame host (c_cross_ending (snd p))) strs) else [])\<rparr>"

lemma got_words_trans: "got_words host strs p q \<Longrightarrow> got_words host strs' q r \<Longrightarrow> got_words host (strs @ strs') p r"
  by (auto simp: got_words_def)

definition all_writable :: "(u64 \<times> connection) list \<Rightarrow> bool" where
  "all_writable cs \<longleftrightarrow> (\<forall>(i, c) \<in> set cs. sk_open (c_socket c) \<and> sk_writes (c_socket c) = [])"

lemma all_writable_got: "list_all2 (got_words host strs) cs cs' \<Longrightarrow> all_writable cs \<Longrightarrow> all_writable cs'"
  unfolding all_writable_def by (induction rule: list_all2_induct) (auto simp: got_words_def)

lemma pack_word [simp]: "pack_args env [(T_lref T_string, V_str bs)] = bs"
  by (simp add: pack_args_def is_basic_v_def string_concept_def CharArray_def CharArrayRef_def remove_cvref_def pack_one_def)

lemma publish_word:
  assumes "all_writable (sv_conns sv)" "w_quits w = []"
  shows "\<exists>sv'. publish host env topic1 (T_lref T_string) (V_str (str_bytes str)) sv w = (sv', w)
    \<and> list_all2 (got_words host [str]) (sv_conns sv) (sv_conns sv')"
proof -
  let ?res = "packed_result env [(T_lref T_string, V_str (str_bytes str))]"
  let ?to = "\<lambda>(i, c). if c_topic_id c = hash_name topic1
        then (i, (set_last_time w c)\<lparr>c_socket := (c_socket c)\<lparr>sk_tx := sk_tx (c_socket c)
               @ response_frame host (c_cross_ending c) ?res (hash_name topic1)\<rparr>\<rparr>) else (i, c)"
  have "\<forall>(i, c) \<in> set (sv_conns sv). c_topic_id c = hash_name topic1 \<longrightarrow> sk_open (c_socket c) \<and> sk_writes (c_socket c) = []"
    using assms(1) by (auto simp: all_writable_def)
  then have "publish host env topic1 (T_lref T_string) (V_str (str_bytes str)) sv w = (sv\<lparr>sv_conns := map ?to (sv_conns sv)\<rparr>, w)"
    using assms(2) by (simp add: publish_def run_quits_simp publish_loop_delivers)
  moreover have "list_all2 (got_words host [str]) (sv_conns sv) (map ?to (sv_conns sv))"
    unfolding list_all2_map2
    by (rule list.rel_refl_strong) (auto simp: got_words_def word_frame_def response_frame_packed set_last_time_def split: if_splits)
  ultimately show ?thesis by auto
qed

lemma pub_loop_words:
  assumes "all_writable (sv_conns sv)" "w_quits w = []" "''quit'' \<notin> set strs"
  shows "\<exists>sv'. pub_loop host env (strs @ ''quit'' # rest) sv w = Some (sv', w)
    \<and> list_all2 (got_words host strs) (sv_conns sv) (sv_conns sv')"
  using assms
proof (induction strs arbitrary: sv)
  case Nil
  then show ?case by (auto simp: got_words_def intro: list.rel_refl_strong)
next
  case (Cons str strs)
  obtain sv1 where sv1: "publish host env topic1 (T_lref T_string) (V_str (str_bytes str)) sv w = (sv1, w)"
    "list_all2 (got_words host [str]) (sv_conns sv) (sv_conns sv1)"
    using publish_word [OF Cons.prems(1, 2), of host env str] by blast
  obtain sv' where sv': "pub_loop host env (strs @ ''quit'' # rest) sv1 w = Some (sv', w)"
    "list_all2 (got_words host strs) (sv_conns sv1) (sv_conns sv')"
    using Cons.IH [of sv1] all_writable_got [OF sv1(2) Cons.prems(1)] Cons.prems(2, 3) by auto
  have "list_all2 (got_words host ([str] @ strs)) (sv_conns sv) (sv_conns sv')"
    by (rule list_all2_trans [OF got_words_trans sv1(2) sv'(2)])
  then show ?case using sv1(1) sv'(1) Cons.prems(3) by auto
qed

lemma pub_loop_end_of_input: "''quit'' \<notin> set strs \<Longrightarrow> pub_loop host env strs sv w = None"
  by (induction strs arbitrary: sv w) (auto split: prod.split)

text \<open>
  Words published by the example server are printed by the example client, in order and once
  each. Every subscriber of the topic gets the words up to \<open>quit\<close>, and the client prints them up to
  the word \<open>close\<close>; if none of them is \<open>close\<close> it ends with a message that reading failed. Both loops come to
  an end, but a publisher whose input ends without \<open>quit\<close> never stops.
\<close>

theorem words_reach_subscriber:
  assumes "all_writable (sv_conns sv)" "w_quits w = []" "''quit'' \<notin> set strs"
    and "(i, c) \<in> set (sv_conns sv)" "c_topic_id c = hash_name topic1" "\<not> c_cross_ending c" "sk_tx (c_socket c) = []"
    and "\<forall>str \<in> set strs. length str < lim \<and> length str < 2 ^ 63" "resolve ''127.0.0.1'' ''9004'' = Finished no_error"
  shows "\<exists>sv' c' cl'. pub_loop host env (strs @ ''quit'' # rest) sv w = Some (sv', w) \<and> (i, c') \<in> set (sv_conns sv')
    \<and> map fst (sv_conns sv') = map fst (sv_conns sv)
    \<and> sub_program host lim env' resolve (Finished no_error) (fresh_socket (sk_tx (c_socket c'))) con
      = (Ex_returned, cl', printed env' strs (ex_log env' Log_info [''will subscribe, waiting for publish''] con))
    \<and> pub_loop host env strs sv w = None"
proof -
  obtain sv' where sv': "pub_loop host env (strs @ ''quit'' # rest) sv w = Some (sv', w)"
    "list_all2 (got_words host strs) (sv_conns sv) (sv_conns sv')"
    using pub_loop_words [OF assms(1 - 3)] by blast
  obtain i' c' where "(i', c') \<in> set (sv_conns sv')" "got_words host strs (i, c) (i', c')"
    using sv'(2) assms(4) by (induction rule: list_all2_induct) auto
  then have c': "(i, c') \<in> set (sv_conns sv')" "sk_tx (c_socket c') = concat (map (word_frame host False) strs)"
    using assms(5 - 7) by (auto simp: got_words_def)
  have ids: "map fst (sv_conns sv') = map fst (sv_conns sv)"
    using sv'(2) by (induction rule: list_all2_induct) (auto simp: got_words_def)
  obtain cl' where "sub_program host lim env' resolve (Finished no_error) (fresh_socket (sk_tx (c_socket c'))) con
      = (Ex_returned, cl', printed env' strs (ex_log env' Log_info [''will subscribe, waiting for publish''] con))"
    using sub_program_prints [where resolve = resolve, OF c'(2) assms(9, 8)] by blast
  then show ?thesis using sv'(1) c'(1) ids pub_loop_end_of_input [OF assms(3)] by blast
qed

definition topic_server :: "unit server" where
  "topic_server = (rpc_server_of_address ''127.0.0.1:9004'' 4)\<lparr>sv_conns :=
     [(0, (new_connection (fresh_socket []) 0 False 0)\<lparr>c_topic_id := hash_name topic1\<rparr>), (1, new_connection (fresh_socket []) 1 False 0)]\<rparr>"

theorem words_reach_subscriber_witness:
  "\<exists>sv' c' cl'. pub_loop Little (default_env True) [''hello'', ''world'', ''quit''] topic_server (world0 ()) = Some (sv', world0 ())
    \<and> (0, c') \<in> set (sv_conns sv')
    \<and> sub_program Little 100 (default_env True) (\<lambda>h p. Finished no_error) (Finished no_error) (fresh_socket (sk_tx (c_socket c')))
        \<lparr>con_out = [], con_err = []\<rparr>
      = (Ex_returned, cl', \<lparr>con_out = ''will subscribe, waiting for publish'' @ newline @ ''hello'' @ newline @ ''world'' @ newline,
           con_err = ''subscribe failed: read failed'' @ newline\<rparr>)"
proof -
  have p: "printed (default_env True) [''hello'', ''world''] (ex_log (default_env True) Log_info [''will subscribe, waiting for publish'']
      \<lparr>con_out = [], con_err = []\<rparr>) = \<lparr>con_out = ''will subscribe, waiting for publish'' @ newline @ ''hello'' @ newline @ ''world'' @ newline,
         con_err = ''subscribe failed: read failed'' @ newline\<rparr>"
    by (simp add: printed_def ex_log_info) (simp add: ex_log_def log_statement_def)
  show ?thesis
    using words_reach_subscriber [where sv = topic_server and w = "world0 ()" and strs = "[''hello'', ''world'']" and i = 0
        and c = "(new_connection (fresh_socket []) 0 False 0)\<lparr>c_topic_id := hash_name topic1\<rparr>" and lim = 100 and rest = "[]"
        and host = Little and env = "default_env True" and env' = "default_env True" and resolve = "\<lambda>h p. Finished no_error"
        and con = "\<lparr>con_out = [], con_err = []\<rparr>"] p
    by (auto simp: topic_server_def all_writable_def new_connection_def fresh_socket_def world0_def)
qed

end
