(* ===== verification/Server_Runs.thy ===== *)
theory Server_Runs
  imports Calls
begin

text \<open>
  A running server and its connections: what a connection does alone, the server's steps do inside the
  table, whatever else is in it; and a client that connects is accepted and served.
\<close>

section \<open>The table while one connection reads\<close>

text \<open>A pass of the read loop leaves an open connection open, unless it ends the loop.\<close>

lemma read_step_open:
  assumes "read_step host lim rt (c, w) (c', w')" "\<not> c_has_closed c"
  shows "\<not> c_has_closed c'"
  using assms
  by (auto simp: read_step_def read_request_def read_frame_def route_request_def response_def conn_close_def Let_def
      split: prod.splits if_splits frame.splits)

lemma server_read_step:
  assumes "read_step host lim (sv_router sv) (c, w) (c', w')" "map_of (sv_conns sv) i = Some c" "server_inv (sv, w)"
    and "i \<in> sv_reading sv"
  shows "server_event host lim (read_event host lim i sv w) (sv, w) (put_connection i c' sv, w')"
proof -
  have "(i, c) \<in> set (sv_conns sv)" using assms(2) by (rule map_of_SomeD)
  then have c: "c_id c = i" "c_quit_cb c" "\<not> c_has_closed c"
    using assms(3) by (auto simp: server_inv_def table_ok_def)
  have rr: "read_request host lim (sv_router sv) c w = (None, c', w')" using assms(1) by (simp add: read_step_def)
  have "told_step (c, w) (c', w')"
    using read_request_told [of "sv_router sv" c w host lim] rr assms(3) by (simp add: server_inv_def table_keeps_quits)
  then have "w_quits w' = []"
    using c read_step_open [OF assms(1) c(3)] assms(3) by (simp add: told_step_def server_inv_def)
  then have "conn_read host lim i sv w = (put_connection i c' sv, w')"
    using assms(2, 4) rr by (simp add: conn_read_def run_quits_simp put_connection_def)
  then show ?thesis by (rule step_read)
qed

lemma server_read_steps:
  assumes "(read_step host lim (sv_router sv))\<^sup>*\<^sup>* (c, w) (c', w')" "map_of (sv_conns sv) i = Some c" "server_inv (sv, w)"
    and "i \<in> sv_reading sv"
  shows "\<exists>sv'. (server_step host lim)\<^sup>*\<^sup>* (sv, w) (sv', w') \<and> (sv' = sv \<and> c' = c \<or> sv' = put_connection i c' sv)"
  using assms
proof (induction rule: rtranclp_induct2)
  case (step c1 w1 c2 w2)
  then obtain sv1 where sv1: "(server_step host lim)\<^sup>*\<^sup>* (sv, w) (sv1, w1)" "sv1 = sv \<and> c1 = c \<or> sv1 = put_connection i c1 sv"
    by blast
  have "map_of (sv_conns sv1) i = Some c1" "sv_router sv1 = sv_router sv" "i \<in> sv_reading sv1"
    using sv1(2) step.prems put_connection_get [OF step.prems(1)] by auto
  moreover have "server_inv (sv1, w1)" using server_reachable_inv [OF sv1(1) step.prems(2)] .
  ultimately have "server_event host lim (read_event host lim i sv1 w1) (sv1, w1) (put_connection i c2 sv1, w2)"
    using server_read_step [of host lim sv1 c1 w1 c2 w2 i] step.hyps(2) by simp
  from server_steps_last [OF sv1(1) this]
  have "(server_step host lim)\<^sup>*\<^sup>* (sv, w) (put_connection i c2 sv1, w2)" .
  moreover have "put_connection i c2 sv1 = put_connection i c2 sv" using sv1(2) by auto
  ultimately show ?case by auto
qed blast

section \<open>A client that connects is served\<close>

text \<open>A coroutine that counts its calls, for examples.\<close>

definition successor_handler :: "nat world handler" where
  "successor_handler = \<lparr>h_params = [T_int32], h_ret = T_awaitable T_int32, h_self = False,
     h_body = (\<lambda>args w. case args of [V_int i] \<Rightarrow> (Inr (V_int (i + 1)), w\<lparr>w_user := Suc (w_user w)\<rparr>)
                         | _ \<Rightarrow> (Inl Unknown_exception, w))\<rparr>"

text \<open>A connection that is accepted under a free identifier stands in the table, ready to serve.\<close>

lemma accept_step_serves:
  assumes "sk_open s" "sk_writes s = []" "sv_conn_id sv \<notin> fst ` set (sv_conns sv)"
  shows "\<exists>sv' c. accept_step (Accept_ok s) sv w = (Accept_more, sv') \<and> sv_conns sv' = (sv_conn_id sv, c) # sv_conns sv
    \<and> sv_router sv' = sv_router sv \<and> sv_conn_id sv \<in> sv_reading sv' \<and> serving c (sv_conn_id sv) (sv_cross_ending sv) True \<and> c_socket c = s \<and> c_topic_id c = 0"
  using assms
  by (simp add: accept_step_def Let_def no_error_def operation_aborted_def bad_descriptor_def serving_def new_connection_def
      set_check_timeout_def set_quit_callback_def)

text \<open>
  C2: a client that connects to a running server is accepted and served. From any state that a server can
  reach while it accepts, there is a run in which the connection enters the table under the next identifier and
  its requests are dispatched; the client's calls then return what the same calls return locally, on the
  state the handlers find, and every other connection is left as it was.
\<close>

theorem server_accepts_and_serves:
  fixes s :: socket
  assumes "(server_step host lim)\<^sup>*\<^sup>* (rpc_server_new address port n, world0 u) (sv, w)" "sv_accepting sv"
    and "sv_conn_id sv \<notin> fst ` set (sv_conns sv)" "sk_open s" "sk_writes s = []" "sk_tx s = []"
    and "sk_rx s = call_frames host (sv_cross_ending sv) env calls @ r"
    and "calls_return senv env (sv_router sv) lim lim' (sv_conn_id sv) calls w vs w'"
    and "sk_open (cl_impl cl)" "sk_writes (cl_impl cl) = []" "cl_cross_ending cl = sv_cross_ending sv"
  shows "\<exists>sv' c' cl'. (server_step host lim)\<^sup>*\<^sup>* (sv, w) (sv', w') \<and> map_of (sv_conns sv') (sv_conn_id sv) = Some c'
    \<and> sk_rx (c_socket c') = r \<and> (\<forall>j. j \<noteq> sv_conn_id sv \<longrightarrow> map_of (sv_conns sv') j = map_of (sv_conns sv) j)
    \<and> call_seq host lim' env (map client_call calls) (cl\<lparr>cl_impl := (cl_impl cl)\<lparr>sk_rx := sk_tx (c_socket c')\<rparr>\<rparr>)
        = (map (\<lambda>v. Returned \<lparr>cr_ec = ok, cr_value = v\<rparr>) vs, cl')
    \<and> sk_tx (cl_impl cl') @ r = sk_tx (cl_impl cl) @ sk_rx s"
proof -
  let ?i = "sv_conn_id sv"
  obtain sv1 c where a: "accept_step (Accept_ok s) sv w = (Accept_more, sv1)" "sv_conns sv1 = (?i, c) # sv_conns sv"
    "sv_router sv1 = sv_router sv" "serving c ?i (cl_cross_ending cl) True" "c_socket c = s" "?i \<in> sv_reading sv1"
    using accept_step_serves [OF assms(4, 5, 3), of w] assms(11) by auto
  have "fresh_accept (Accept_ok s)" using assms(4, 6) by (simp add: fresh_accept_def)
  then have step: "server_event host lim (accept_event Accept_more sv) (sv, w) (sv1, w)"
    using step_accept [OF assms(2) _ a(1)] by blast
  have inv: "server_inv (sv1, w)"
    using server_event_inv [OF step server_reachable_inv [OF assms(1) server_inv_new]] .
  obtain c' cl' where c': "(read_step host lim (sv_router sv1))\<^sup>*\<^sup>* (c, w) (c', w')" "sk_rx (c_socket c') = r"
    "call_seq host lim' env (map client_call calls) (cl\<lparr>cl_impl := (cl_impl cl)\<lparr>sk_rx := sk_tx (c_socket c')\<rparr>\<rparr>)
        = (map (\<lambda>v. Returned \<lparr>cr_ec = ok, cr_value = v\<rparr>) vs, cl')"
    "sk_tx (cl_impl cl') @ r = sk_tx (cl_impl cl) @ sk_rx s"
    using calls_answered_steps [OF assms(8) a(4) _ _ assms(9, 10), of host r] assms(6, 7, 11) a(3, 5) by auto
  have get: "map_of (sv_conns sv1) ?i = Some c" by (simp add: a(2))
  obtain sv' where sv': "(server_step host lim)\<^sup>*\<^sup>* (sv1, w) (sv', w')" "sv' = sv1 \<and> c' = c \<or> sv' = put_connection ?i c' sv1"
    using server_read_steps [OF c'(1) get inv a(6)] by blast
  have "map_of (sv_conns sv') ?i = Some c'" "\<forall>j. j \<noteq> ?i \<longrightarrow> map_of (sv_conns sv') j = map_of (sv_conns sv) j"
    using sv'(2) put_connection_get [OF get] put_connection_other [of _ ?i c' sv1] a(2) by auto
  then show ?thesis using server_steps_first [OF step sv'(1)] c'(2 - 4) by blast
qed

lemma successor_call_returns:
  assumes "map_invokers rt (hash_name name) = Some (make_invoker (default_env True) successor_handler)" "\<not> tls_delay (w_tls w)"
  shows "calls_return (default_env True) (default_env False) rt 100 100 conn [(name, successor_handler, [(T_int32, V_int 41)])]
    w [V_int 42] ((set_connection conn w)\<lparr>w_user := Suc (w_user w)\<rparr>)"
proof (rule one_call [OF assms(1)])
  let ?f = successor_handler and ?args = "[(T_int32, V_int 41)]"
  have buf: "get_buffer (default_env False) ?args = to_string 41" "pack_args (default_env True) [(T_int32, V_int 42)] = to_string 42"
    by (simp_all add: get_buffer_def pack_args_def is_basic_v_def is_fundamental_def pack_one_def)
  have len: "length (to_string 41) = 2" "length (to_string 42) = 2" by (simp_all add: to_string_def dec_digits.simps)
  have ret: "return_type_t (h_ret ?f) = T_int32" "\<not> is_void_v (h_ret ?f)"
    by (simp_all add: successor_handler_def return_type_t_def is_void_v_def)
  show "length (get_buffer (default_env False) ?args) \<le> 100" "length (get_buffer (default_env False) ?args) < 2 ^ 64"
    "length (pack_args (default_env True) [(return_type_t (h_ret ?f), V_int 42)]) < 100"
    "length (pack_args (default_env True) [(return_type_t (h_ret ?f), V_int 42)]) < 2 ^ 64 - 1"
    by (simp_all add: buf ret len)
  show "handler_compiles (default_env True) ?f"
    by (simp add: handler_compiles_def successor_handler_def return_type_t_def unpack_compiles_def is_fundamental_def is_basic_v_def)
  show "passable (default_env False) (default_env True) (h_params ?f) ?args"
    by (simp add: passable_def successor_handler_def in_range_def int_min_def int_max_def is_fundamental_def)
  show "h_body ?f (map snd ?args) (set_connection conn w) = (Inr (V_int 42), (set_connection conn w)\<lparr>w_user := Suc (w_user w)\<rparr>)"
    "\<not> tls_delay (w_tls ((set_connection conn w)\<lparr>w_user := Suc (w_user w)\<rparr>))"
    using assms(2) by (simp_all add: successor_handler_def set_connection_def)
  show "if is_void_v (h_ret ?f) then V_int 42 = V_unit
      else codec_ok (default_env True) (default_env False) (return_type_t (h_ret ?f)) (V_int 42)"
    using ret by (simp add: codec_ok_def unpack_compiles_def is_fundamental_def in_range_def int_min_def int_max_def)
qed (rule no_call)

theorem server_accepts_and_serves_witness:
  "\<exists>sv sv' c' cl'. (server_step Little 100)\<^sup>*\<^sup>* (sv, world0 (0 :: nat)) (sv', (set_connection 0 (world0 0))\<lparr>w_user := 1\<rparr>)
    \<and> map_of (sv_conns sv') 0 = Some c' \<and> sk_rx (c_socket c') = [] \<and> sv_conns sv = []
    \<and> call_seq Little 100 (default_env False) [(hash_name (str_bytes ''a''), T_int32, [(T_int32, V_int 41)])]
        (rpc_client_new\<lparr>cl_impl := fresh_socket (sk_tx (c_socket c'))\<rparr>)
      = ([Returned \<lparr>cr_ec = ok, cr_value = V_int 42\<rparr>], cl')"
proof -
  let ?f = successor_handler and ?name = "str_bytes ''a''" and ?sv = "rpc_server_new [] [] 1 :: nat server"
  let ?calls = "[(?name, ?f, [(T_int32, V_int 41)])]"
  obtain sv1 where reg: "server_register (default_env True) ?name ?f ?sv = Inr sv1"
    by (auto simp: server_register_def register_handler_def register_handler_impl_def rpc_server_new_def empty_router_def Let_def)
  obtain r ec' sv2 where st: "start_impl listen_ok no_error sv1 = (r, ec', sv2)" by (metis prod_cases3)
  have keep: "body_keeps_quits ?f" by (auto simp: body_keeps_quits_def successor_handler_def split: list.split cval.split)
  have sv1: "sv_conns sv1 = []" "sv_conn_id sv1 = 0" "\<not> sv_cross_ending sv1" "\<not> sv_has_stop sv1" "\<not> sv_start_flag sv1"
    "register_handler (default_env True) ?name ?f empty_router = Inr (sv_router sv1)"
    using reg by (auto simp: server_register_def rpc_server_new_def Let_def split: sum.splits)
  have sv2: "sv_accepting sv2" "sv_conns sv2 = []" "sv_conn_id sv2 = 0" "\<not> sv_cross_ending sv2" "sv_router sv2 = sv_router sv1"
    using st sv1(1 - 5) by (auto simp: start_impl_def server_listen_def listen_ok_def Let_def)
  have run: "(server_step Little 100)\<^sup>*\<^sup>* (?sv, world0 0) (sv2, world0 0)"
    by (rule server_steps_first [OF step_register [OF reg keep] server_steps_first [OF step_start [OF st] rtranclp.rtrancl_refl]])
  have "map_invokers (sv_router sv2) (hash_name ?name) = Some (make_invoker (default_env True) ?f)"
    using router.find_register [OF router_inv_empty sv1(6), of ?name] sv2(5) by simp
  from successor_call_returns [OF this, of "world0 0" 0]
  have calls: "calls_return (default_env True) (default_env False) (sv_router sv2) 100 100 (sv_conn_id sv2) ?calls (world0 0) [V_int 42]
      ((set_connection 0 (world0 0))\<lparr>w_user := 1\<rparr>)" by (simp add: world0_def sv2(3))
  let ?s = "fresh_socket (call_frames Little False (default_env False) ?calls)" and ?cl = "rpc_client_new\<lparr>cl_impl := fresh_socket []\<rparr>"
  have s: "sv_conn_id sv2 \<notin> fst ` set (sv_conns sv2)" "sk_open ?s" "sk_writes ?s = []" "sk_tx ?s = []"
    "sk_rx ?s = call_frames Little (sv_cross_ending sv2) (default_env False) ?calls @ []"
    "sk_open (cl_impl ?cl)" "sk_writes (cl_impl ?cl) = []" "cl_cross_ending ?cl = sv_cross_ending sv2"
    using sv2 by (simp_all add: fresh_socket_def rpc_client_new_def)
  have ret: "return_type_t (h_ret ?f) = T_int32" by (simp add: successor_handler_def return_type_t_def)
  obtain sv' c' cl' where "(server_step Little 100)\<^sup>*\<^sup>* (sv2, world0 0) (sv', (set_connection 0 (world0 0))\<lparr>w_user := 1\<rparr>)"
    "map_of (sv_conns sv') 0 = Some c'" "sk_rx (c_socket c') = []"
    "call_seq Little 100 (default_env False) (map client_call ?calls) (?cl\<lparr>cl_impl := (cl_impl ?cl)\<lparr>sk_rx := sk_tx (c_socket c')\<rparr>\<rparr>)
      = (map (\<lambda>v. Returned \<lparr>cr_ec = ok, cr_value = v\<rparr>) [V_int 42], cl')"
    using server_accepts_and_serves [OF run sv2(1) s(1 - 5) calls s(6 - 8)] sv2(3) by auto
  then show ?thesis using sv2(2)
    by (intro exI [of _ sv2] exI [of _ sv'] exI [of _ c'] exI [of _ cl']) (simp add: ret fresh_socket_def rpc_client_new_def)
qed

end
