(* ===== verification/Broker.thy ===== *)
theory Broker
  imports Server_Runs
begin

text \<open>
  What a server (include/rest_rpc/rpc_server.hpp) promises, without sockets, headers, byte orders and
  pools: a set of members, each with the topic it listens to and the messages it has been sent, and a
  table of handlers. A running server refines it: step by step, with the same events.
\<close>

section \<open>The abstract server\<close>

text \<open>A message is an answer, with the number 0, or a publication, with the digest of its topic.\<close>

record member =
  mb_cross :: bool \<comment> \<open>whether its messages are sent in network byte order\<close>
  mb_topic :: u32
  mb_sent :: "(u32 \<times> rpc_result) list"

record 'u broker =
  bk_members :: "u64 \<rightharpoonup> member"
  bk_router :: "'u world router"

definition new_member :: "bool \<Rightarrow> member" where
  "new_member cross = \<lparr>mb_cross = cross, mb_topic = 0, mb_sent = []\<rparr>"

definition send :: "u32 \<Rightarrow> rpc_result \<Rightarrow> member \<Rightarrow> member" where
  "send k res m = m\<lparr>mb_sent := mb_sent m @ [(k, res)]\<rparr>"

definition broker_new :: "'u broker" where
  "broker_new = \<lparr>bk_members = Map.empty, bk_router = empty_router\<rparr>"

definition to_member :: "u64 \<Rightarrow> (member \<Rightarrow> member) \<Rightarrow> 'u broker \<Rightarrow> 'u broker" where
  "to_member i f b = b\<lparr>bk_members := (bk_members b)(i := map_option f (bk_members b i))\<rparr>"

text \<open>What an event does when no connection is lost.\<close>

fun broker_effect :: "'u event \<Rightarrow> 'u broker \<times> 'u world \<Rightarrow> 'u broker \<times> 'u world" where
  "broker_effect (Joined i cross) (b, w) = (b\<lparr>bk_members := (bk_members b)(i \<mapsto> new_member cross)\<rparr>, w)"
| "broker_effect (Subscribed i t) (b, w) = (to_member i (mb_topic_update (\<lambda>_. t)) b, w)"
| "broker_effect (Served i key body) (b, w) =
     (case route (bk_router b) key body (set_connection i w) of (res, w1) \<Rightarrow>
        if tls_delay (w_tls w1) then (b, set_delay False w1) else (to_member i (send 0 res) b, w1))"
| "broker_effect (Answered i res) (b, w) = (to_member i (send 0 res) b, w)"
| "broker_effect (Published t res) (b, w) =
     (b\<lparr>bk_members := (\<lambda>i. map_option (\<lambda>m. if mb_topic m = t then send t res m else m) (bk_members b i))\<rparr>, w)"
| "broker_effect (Registered env name f) (b, w) =
     (case register_handler env name f (bk_router b) of Inl _ \<Rightarrow> (b, w) | Inr rt \<Rightarrow> (b\<lparr>bk_router := rt\<rparr>, w))"
| "broker_effect (Removed name) (b, w) = (b\<lparr>bk_router := remove_handler name (bk_router b)\<rparr>, w)"
| "broker_effect (Clock t) (b, w) = (b, w\<lparr>w_now := t\<rparr>)"
| "broker_effect Internal (b, w) = (b, w)"

text \<open>Connections can be lost at any time; \<open>stay\<close> are those that are not.\<close>

inductive broker_step :: "'u event \<Rightarrow> 'u broker \<times> 'u world \<Rightarrow> 'u broker \<times> 'u world \<Rightarrow> bool" where
  broker_stepI: "broker_effect e bw = (b', w') \<Longrightarrow> broker_step e bw (b'\<lparr>bk_members := bk_members b' |` stay\<rparr>, w')"

inductive_cases broker_stepE: "broker_step e bw bw'"

inductive broker_run :: "'u broker \<times> 'u world \<Rightarrow> 'u event list \<Rightarrow> 'u broker \<times> 'u world \<Rightarrow> bool"
  for bw :: "'u broker \<times> 'u world"
where
  broker_nil: "broker_run bw [] bw"
| broker_snoc: "broker_run bw es bw1 \<Longrightarrow> broker_step e bw1 bw2 \<Longrightarrow> broker_run bw (es @ [e]) bw2"

lemma to_member_sel [simp]:
  "bk_router (to_member i f b) = bk_router b"
  "bk_members (to_member i f b) j = (if j = i then map_option f (bk_members b i) else bk_members b j)"
  by (simp_all add: to_member_def)

section \<open>What the members are sent\<close>

definition published :: "u32 \<Rightarrow> 'u event list \<Rightarrow> (u32 \<times> rpc_result) list" where
  "published t es = concat (map (\<lambda>e. case e of Published k res \<Rightarrow> if k = t then [(k, res)] else [] | _ \<Rightarrow> []) es)"

lemma published_append [simp]: "published t (es @ es') = published t es @ published t es'"
  by (simp add: published_def)

text \<open>The events that may send the member \<open>i\<close> an answer.\<close>

fun asks :: "u64 \<Rightarrow> 'u event \<Rightarrow> bool" where
  "asks i (Served j key body) \<longleftrightarrow> j = i"
| "asks i (Answered j res) \<longleftrightarrow> j = i"
| "asks i _ \<longleftrightarrow> False"

definition keeps_member :: "u64 \<Rightarrow> 'u event \<Rightarrow> bool" where
  "keeps_member i e \<longleftrightarrow> (case e of Joined j cross \<Rightarrow> j \<noteq> i | Subscribed j t \<Rightarrow> j \<noteq> i | _ \<Rightarrow> True)"

text \<open>A list of messages that a member with the topic \<open>t\<close> is sent during the events \<open>es\<close>.\<close>

definition messages_for :: "u64 \<Rightarrow> u32 \<Rightarrow> 'u event list \<Rightarrow> (u32 \<times> rpc_result) list \<Rightarrow> bool" where
  "messages_for i t es msgs \<longleftrightarrow> [p \<leftarrow> msgs. fst p \<noteq> 0] = published t es
     \<and> length [p \<leftarrow> msgs. fst p = 0] \<le> length [e \<leftarrow> es. asks i e]"

lemma messages_for_append:
  "messages_for i t es msgs \<Longrightarrow> messages_for i t es' msgs' \<Longrightarrow> messages_for i t (es @ es') (msgs @ msgs')"
  by (auto simp: messages_for_def)

lemma broker_step_member:
  assumes "broker_step e bw bw'" "keeps_member i e" "bk_members (fst bw') i = Some m'"
  shows "\<exists>m. bk_members (fst bw) i = Some m \<and> mb_topic m' = mb_topic m \<and> mb_cross m' = mb_cross m
    \<and> (mb_topic m \<noteq> 0 \<longrightarrow> (\<exists>msgs. mb_sent m' = mb_sent m @ msgs \<and> messages_for i (mb_topic m) [e] msgs))"
proof -
  obtain b w where bw: "bw = (b, w)" by fastforce
  obtain b1 w1 stay where e: "broker_effect e (b, w) = (b1, w1)" and b': "fst bw' = b1\<lparr>bk_members := bk_members b1 |` stay\<rparr>"
    using assms(1) bw by (auto elim: broker_stepE)
  have m': "bk_members b1 i = Some m'" using assms(3) b' by (auto simp: restrict_map_def split: if_splits)
  then obtain m where m: "bk_members b i = Some m"
    using e assms(2) by (cases e) (auto simp: keeps_member_def split: if_splits prod.splits sum.splits)
  show ?thesis
    using e m m' assms(2) bw
    by (cases e) (auto simp: keeps_member_def messages_for_def published_def send_def
        split: if_splits prod.splits sum.splits)
qed

lemma broker_run_member:
  assumes "broker_run bw es bw'" "\<forall>e \<in> set es. keeps_member i e" "bk_members (fst bw') i = Some m'"
  shows "\<exists>m. bk_members (fst bw) i = Some m \<and> mb_topic m' = mb_topic m \<and> mb_cross m' = mb_cross m
    \<and> (mb_topic m \<noteq> 0 \<longrightarrow> (\<exists>msgs. mb_sent m' = mb_sent m @ msgs \<and> messages_for i (mb_topic m) es msgs))"
  using assms
proof (induction arbitrary: m' rule: broker_run.induct)
  case broker_nil
  then show ?case by (auto simp: messages_for_def published_def)
next
  case (broker_snoc es bw1 e bw2)
  have k: "keeps_member i e" "\<forall>e \<in> set es. keeps_member i e" using broker_snoc.prems(1) by auto
  obtain m1 where m1: "bk_members (fst bw1) i = Some m1" "mb_topic m' = mb_topic m1" "mb_cross m' = mb_cross m1"
    "mb_topic m1 \<noteq> 0 \<longrightarrow> (\<exists>msgs. mb_sent m' = mb_sent m1 @ msgs \<and> messages_for i (mb_topic m1) [e] msgs)"
    using broker_step_member [OF broker_snoc.hyps(2) k(1) broker_snoc.prems(2)] by blast
  obtain m where m: "bk_members (fst bw) i = Some m" "mb_topic m1 = mb_topic m" "mb_cross m1 = mb_cross m"
    "mb_topic m \<noteq> 0 \<longrightarrow> (\<exists>msgs. mb_sent m1 = mb_sent m @ msgs \<and> messages_for i (mb_topic m) es msgs)"
    using broker_snoc.IH [OF k(2) m1(1)] by blast
  have "mb_topic m \<noteq> 0 \<longrightarrow> (\<exists>msgs. mb_sent m' = mb_sent m @ msgs \<and> messages_for i (mb_topic m) (es @ [e]) msgs)"
    using m1(4) m(2, 4) messages_for_append by fastforce
  then show ?case using m m1(2, 3) by auto
qed

section \<open>Connections as members\<close>

text \<open>The bytes a list of messages travels as.\<close>

definition sent_bytes :: "endian \<Rightarrow> bool \<Rightarrow> (u32 \<times> rpc_result) list \<Rightarrow> bytes" where
  "sent_bytes host cross msgs = concat (map (\<lambda>(k, res). response_frame host cross res k) msgs)"

lemma sent_bytes_append [simp]: "sent_bytes host cross (ms @ ms') = sent_bytes host cross ms @ sent_bytes host cross ms'"
  by (simp add: sent_bytes_def)

lemma sent_bytes_empty [simp]: "sent_bytes host cross ms = [] \<longleftrightarrow> ms = []" "[] = sent_bytes host cross ms \<longleftrightarrow> ms = []"
proof -
  have "length (response_frame host cross res k) \<noteq> 0" for res k by (simp add: response_frame_def)
  then have "response_frame host cross res k \<noteq> []" for res k by (metis list.size(3))
  then show "sent_bytes host cross ms = [] \<longleftrightarrow> ms = []" "[] = sent_bytes host cross ms \<longleftrightarrow> ms = []"
    by (cases ms; auto simp: sent_bytes_def)+
qed

text \<open>
  A connection stands for a member when it has the member's topic and has written exactly the
  member's messages, whole frames in order.
\<close>

definition stands_for :: "endian \<Rightarrow> connection \<Rightarrow> member \<Rightarrow> bool" where
  "stands_for host c m \<longleftrightarrow> c_topic_id c = mb_topic m \<and> c_cross_ending c = mb_cross m
     \<and> sk_tx (c_socket c) = sent_bytes host (c_cross_ending c) (mb_sent m)"

definition implements :: "endian \<Rightarrow> 'u server \<Rightarrow> 'u broker \<Rightarrow> bool" where
  "implements host sv b \<longleftrightarrow> bk_router b = sv_router sv
     \<and> (\<forall>i. rel_option (stands_for host) (map_of (sv_conns sv) i) (bk_members b i))"

lemma implements_conn: "implements host sv b \<Longrightarrow> map_of (sv_conns sv) i = Some c \<Longrightarrow>
    \<exists>m. bk_members b i = Some m \<and> stands_for host c m"
  unfolding implements_def by (metis option_rel_Some1)

text \<open>What the operations of a connection do to what stands for a member.\<close>

lemma stands_for_cong:
  assumes "stands_for host c m" "c_topic_id c' = c_topic_id c" "c_cross_ending c' = c_cross_ending c"
    "sk_tx (c_socket c') = sk_tx (c_socket c)"
  shows "stands_for host c' m"
  using assms by (simp add: stands_for_def)

lemma async_write_ok: "async_write bs s = (ec, s') \<Longrightarrow> \<not> ec_set ec \<Longrightarrow> sk_tx s' = sk_tx s @ bs"
proof -
  have "ec_set bad_descriptor" by (simp add: bad_descriptor_def ec_set_def)
  then show "async_write bs s = (ec, s') \<Longrightarrow> \<not> ec_set ec \<Longrightarrow> sk_tx s' = sk_tx s @ bs"
    by (auto simp: async_write_def split: if_splits list.splits option.splits)
qed

lemma response_stands_for:
  assumes "response host res k c w = (ec, c', w')" "stands_for host c m" "\<not> c_has_closed c'"
  shows "stands_for host c' (send k res m) \<and> w' = w"
proof -
  obtain ec1 s where wr: "async_write (response_frame host (c_cross_ending c) res k) (c_socket c) = (ec1, s)" by fastforce
  have "\<not> ec_set ec1" using assms(1, 3) wr by (auto simp: response_def conn_close_def Let_def split: if_splits)
  then show ?thesis
    using assms wr async_write_ok [OF wr]
    by (auto simp: response_def Let_def stands_for_def send_def sent_bytes_def)
qed

lemma response_world:
  "response host res k c w = (ec, c', w') \<Longrightarrow> w'\<lparr>w_quits := []\<rparr> = w\<lparr>w_quits := []\<rparr>"
  by (auto simp: response_def conn_close_def Let_def split: prod.splits if_splits)

lemma read_frame_stands_for:
  assumes "read_frame host lim c w = (fr, c', w')" "stands_for host c m"
  shows "stands_for host c' (if fr = Frame_topic then m\<lparr>mb_topic := c_topic_id c'\<rparr> else m)"
  using assms
  by (auto simp: read_frame_def conn_close_def stands_for_def Let_def
      split: prod.splits if_splits dest!: async_read_tx)

lemma read_frame_world:
  assumes "read_frame host lim c w = (fr, c', w')"
  shows "w'\<lparr>w_quits := []\<rparr> = w\<lparr>w_quits := []\<rparr>" "fr \<noteq> Frame_end Closed \<Longrightarrow> w' = w" "c_id c' = c_id c"
  using assms by (auto simp: read_frame_def conn_close_def Let_def split: prod.splits if_splits)

section \<open>A running server refines the abstract one\<close>

lemma map_of_filter_fst: "map_of (filter (\<lambda>p. fst p \<notin> S) cs) j = (if j \<in> S then None else map_of cs j)"
  by (induction cs) auto

lemma quits_none: "w_quits w = [] \<Longrightarrow> w\<lparr>w_quits := []\<rparr> = w"
  by (cases w) simp

lemma to_member_id [simp]: "to_member i (\<lambda>m. m) b = b"
  by (simp add: to_member_def option.map_ident)

lemma implements_same:
  "implements host sv b \<Longrightarrow> sv_conns sv' = sv_conns sv \<Longrightarrow> sv_router sv' = sv_router sv \<Longrightarrow> implements host sv' b"
  by (simp add: implements_def)

lemma implements_filter:
  assumes "implements host sv b" "sv_conns sv' = filter (\<lambda>p. fst p \<notin> S) (sv_conns sv)" "sv_router sv' = sv_router sv"
  shows "implements host sv' (b\<lparr>bk_members := bk_members b |` (- S)\<rparr>)"
  using assms by (auto simp: implements_def map_of_filter_fst restrict_map_def)

lemma implements_put:
  assumes "implements host sv b" "map_of (sv_conns sv) i = Some c" "bk_members b i = Some m" "stands_for host c' (f m)"
  shows "implements host ((put_connection i c' sv)\<lparr>sv_reading := rd\<rparr>) (to_member i f b)"
  using assms put_connection_get [OF assms(2)] put_connection_other [of _ i c' sv] by (auto simp: implements_def)

text \<open>
  One connection changes; when it closes it tells the server and leaves the table, otherwise it still
  stands for its member.
\<close>

lemma implements_put_quits:
  assumes "implements host sv b" "map_of (sv_conns sv) i = Some c"
    and "w_quits w' = (if c_has_closed c' then [i] else [])"
    and "\<And>m. stands_for host c m \<Longrightarrow> \<not> c_has_closed c' \<Longrightarrow> stands_for host c' (f m)"
  shows "\<exists>stay. implements host (fst (run_quits ((put_connection i c' sv)\<lparr>sv_reading := rd\<rparr>, w')))
    ((to_member i f b)\<lparr>bk_members := bk_members (to_member i f b) |` stay\<rparr>)"
proof -
  obtain m where m: "bk_members b i = Some m" "stands_for host c m" using implements_conn [OF assms(1, 2)] by blast
  let ?sv = "(put_connection i c' sv)\<lparr>sv_reading := rd\<rparr>" and ?b = "to_member i f b"
  have r: "fst (run_quits (?sv, w')) = ?sv\<lparr>sv_conns := filter (\<lambda>p. fst p \<notin> set (w_quits w')) (sv_conns ?sv)\<rparr>"
    by (simp add: run_quits_simp)
  have "\<forall>j. j \<notin> set (w_quits w') \<longrightarrow> rel_option (stands_for host) (map_of (sv_conns ?sv) j) (bk_members ?b j)"
    using assms m put_connection_get [OF assms(2)] put_connection_other [of _ i c' sv]
    by (auto simp: implements_def split: if_splits)
  then have "implements host (fst (run_quits (?sv, w'))) (?b\<lparr>bk_members := bk_members ?b |` (- set (w_quits w'))\<rparr>)"
    using assms(1) unfolding r by (auto simp: implements_def map_of_filter_fst restrict_map_def)
  then show ?thesis by blast
qed

text \<open>What an event of the server means for the abstract one.\<close>

lemma simulates:
  assumes "broker_effect e (b, w) = (b1, w')" "\<exists>stay. implements host sv' (b1\<lparr>bk_members := bk_members b1 |` stay\<rparr>)"
  shows "\<exists>b'. broker_step e (b, w) (b', w') \<and> implements host sv' b'"
  using assms by (blast intro: broker_stepI)

lemma restrict_all [simp]: "b\<lparr>bk_members := bk_members b |` UNIV\<rparr> = b"
  by (cases b) (simp add: restrict_map_def)

lemma simulates_all:
  assumes "broker_effect e (b, w) = (b1, w')" "implements host sv' b1"
  shows "\<exists>b'. broker_step e (b, w) (b', w') \<and> implements host sv' b'"
  by (rule simulates [OF assms(1)]) (use assms(2) in \<open>auto intro: exI [of _ UNIV]\<close>)

lemma told_quits:
  assumes "server_inv (sv, w)" "map_of (sv_conns sv) i = Some c" "told_step (c, w) (c', w')"
  shows "w_quits w' = (if c_has_closed c' then [i] else [])" "c_id c = i" "c_id c' = i"
proof -
  have "(i, c) \<in> set (sv_conns sv)" using assms(2) by (rule map_of_SomeD)
  then have "c_id c = i" "c_quit_cb c" "\<not> c_has_closed c" "w_quits w = []"
    using assms(1) by (auto simp: server_inv_def table_ok_def)
  then show "w_quits w' = (if c_has_closed c' then [i] else [])" "c_id c = i" "c_id c' = i"
    using assms(3) by (auto simp: told_step_def)
qed

subsection \<open>Reading and answering\<close>

lemma route_request_simulates:
  assumes "route_request host rt key c w = (r, c', w')" "route rt key (c_body c) (set_connection (c_id c) w) = (res, w1)"
    and "w_quits w1 = []"
  shows "w'\<lparr>w_quits := []\<rparr> = (if tls_delay (w_tls w1) then set_delay False w1 else w1)"
    "stands_for host c m \<Longrightarrow> \<not> c_has_closed c' \<Longrightarrow>
       stands_for host c' (if tls_delay (w_tls w1) then m else send 0 res m)"
  using assms response_world quits_none [OF assms(3)]
    quits_none [of "set_delay False w1"] response_stands_for
  by (fastforce simp: route_request_def split: if_splits prod.splits)+

lemma conn_read_simulates:
  assumes "conn_read host lim i sv w = (sv', w')" "server_inv (sv, w)" "implements host sv b"
  shows "\<exists>b'. broker_step (read_event host lim i sv w) (b, w) (b', w') \<and> implements host sv' b'"
proof (cases "\<exists>c. map_of (sv_conns sv) i = Some c \<and> i \<in> sv_reading sv")
  case False
  then have "read_event host lim i sv w = Internal" "sv' = sv" "w' = w"
    using assms(1) by (auto simp: read_event_def conn_read_def split: option.splits if_splits)
  then show ?thesis using assms(3) by (auto intro: simulates_all)
next
  case True
  then obtain c where c: "map_of (sv_conns sv) i = Some c" and rd: "i \<in> sv_reading sv" by blast
  obtain fr c1 w1 where f: "read_frame host lim c w = (fr, c1, w1)" by (metis prod_cases3)
  obtain r c2 w2 where rr: "read_request host lim (sv_router sv) c w = (r, c2, w2)" by (metis prod_cases3)
  have kept: "quits_kept (sv_router sv)" and w: "w_quits w = []"
    using assms(2) by (auto simp: server_inv_def table_keeps_quits)
  have "told_step (c, w) (c2, w2)" using read_request_told [OF kept, of c w host lim] rr by simp
  note q = told_quits [OF assms(2) c this]
  define reading where "reading = (if r = None then sv_reading sv else sv_reading sv - {i})"
  have sv': "(sv', w') = run_quits ((put_connection i c2 sv)\<lparr>sv_reading := reading\<rparr>, w2)"
    using assms(1) c rd rr by (simp add: conn_read_def reading_def)
  then have fin: "sv' = fst (run_quits ((put_connection i c2 sv)\<lparr>sv_reading := reading\<rparr>, w2))" "w' = w2\<lparr>w_quits := []\<rparr>"
    by (simp_all add: run_quits_simp)
  note put = implements_put_quits [where w' = w2 and c' = c2 and rd = reading, OF assms(3) c q(1)]
  note fs = read_frame_stands_for [OF f] and fw = read_frame_world [OF f]
  have bk: "bk_router b = sv_router sv" using assms(3) by (simp add: implements_def)
  show ?thesis
  proof (cases fr)
    case (Frame_end e)
    then have "c2 = c1" "w2 = w1" using rr f by (auto simp: read_request_def)
    moreover have "read_event host lim i sv w = Internal" using c rd f Frame_end by (simp add: read_event_def)
    ultimately show ?thesis
      using put [of "\<lambda>m. m"] fs Frame_end fw(1) quits_none [OF w] unfolding fin
      by (intro simulates [of _ b w b]) auto
  next
    case Frame_topic
    then have "c2 = c1" "w2 = w1" using rr f by (auto simp: read_request_def)
    moreover have "read_event host lim i sv w = Subscribed i (c_topic_id c1)"
      using c rd f Frame_topic by (simp add: read_event_def)
    ultimately show ?thesis
      using put [of "mb_topic_update (\<lambda>_. c_topic_id c1)"] fs Frame_topic fw(1) quits_none [OF w] unfolding fin
      by (intro simulates) auto
  next
    case (Frame_request key)
    obtain res w3 where rt: "route (sv_router sv) key (c_body c1) (set_connection i w) = (res, w3)" by fastforce
    have w1: "w1 = w" using fw(2) Frame_request by simp
    have "c_id c1 = i"
      using fw(3) q(2) by simp
    then have rq: "route_request host (sv_router sv) key c1 w = (r, c2, w2)"
      "route (sv_router sv) key (c_body c1) (set_connection (c_id c1) w) = (res, w3)"
      using rr f Frame_request w1 rt by (auto simp: read_request_def)
    have w3: "w_quits w3 = []" using route_quits [OF kept rt] w by simp
    note s = route_request_simulates [OF rq w3]
    have e: "read_event host lim i sv w = Served i key (c_body c1)"
      using c rd f Frame_request by (simp add: read_event_def)
    have st: "stands_for host c m \<Longrightarrow> stands_for host c1 m" for m using fs Frame_request by simp
    show ?thesis
      using put [of "\<lambda>m. if tls_delay (w_tls w3) then m else send 0 res m"] st s rt bk unfolding fin e
      by (intro simulates) auto
  qed
qed

lemma conn_answer_simulates:
  assumes "conn_answer host env args ctx sv w = (ec, ctx', sv', w')" "server_inv (sv, w)" "implements host sv b"
  shows "\<exists>b'. broker_step (answer_event env args ctx sv) (b, w) (b', w') \<and> implements host sv' b'"
proof (cases "\<exists>i c. ctx_conn ctx = Some i \<and> \<not> ctx_has_response ctx \<and> map_of (sv_conns sv) i = Some c")
  case False
  have put: "map_of (sv_conns sv) i = Some c \<Longrightarrow> put_connection i c sv = sv" for i c
    using assms(2) by (intro put_connection_same) (auto simp: server_inv_def table_ok_def)
  have "answer_event env args ctx sv = Internal" "sv' = sv" "w' = w"
    using assms(1, 2) False put quits_none [of w]
    by (auto simp: answer_event_def conn_answer_def ctx_response_def run_quits_simp server_inv_def
        split: option.splits if_splits)
  then show ?thesis using assms(3) by (auto intro: simulates_all)
next
  case True
  then obtain i c where i: "ctx_conn ctx = Some i" "\<not> ctx_has_response ctx" and c: "map_of (sv_conns sv) i = Some c" by blast
  obtain ec1 c1 w1 where r: "response host (packed_result env args) 0 c w = (ec1, c1, w1)" by (metis prod_cases3)
  have cr: "ctx_response host env args ctx c w = (ec1, ctx\<lparr>ctx_has_response := True\<rparr>, c1, w1)"
    using i r by (simp add: ctx_response_def)
  note q = told_quits [OF assms(2) c ctx_response_told [OF cr]]
  have "answer_event env args ctx sv = Answered i (packed_result env args)" using i c by (simp add: answer_event_def)
  moreover have "sv' = fst (run_quits ((put_connection i c1 sv)\<lparr>sv_reading := sv_reading sv\<rparr>, w1))" "w' = w1\<lparr>w_quits := []\<rparr>"
    using assms(1) i c cr by (auto simp: conn_answer_def run_quits_simp put_connection_def)
  moreover have "w1\<lparr>w_quits := []\<rparr> = w"
    using response_world [OF r] quits_none [of w] assms(2) by (simp add: server_inv_def)
  ultimately show ?thesis
    using implements_put_quits [where w' = w1 and c' = c1 and f = "send 0 (packed_result env args)" and rd = "sv_reading sv",
        OF assms(3) c q(1)] response_stands_for [OF r]
    by (auto intro: simulates)
qed

subsection \<open>Publishing\<close>

lemma publish_loop_members:
  assumes "publish_loop host t res cs w = (cs', w')" "table_ok cs"
  shows "\<exists>ids. w' = w\<lparr>w_quits := w_quits w @ ids\<rparr> \<and> (\<forall>i m. i \<notin> set ids \<longrightarrow>
    rel_option (stands_for host) (map_of cs i) m \<longrightarrow>
    rel_option (stands_for host) (map_of cs' i) (map_option (\<lambda>m. if mb_topic m = t then send t res m else m) m))
    \<and> (\<forall>i. map_of cs i = None \<longrightarrow> map_of cs' i = None)"
  using assms
proof (induction cs arbitrary: w cs' w')
  case Nil
  then show ?case by (auto intro: exI [of _ "[]"])
next
  case (Cons p cs)
  obtain i c where p: "p = (i, c)" by fastforce
  have ok: "table_ok cs" and c: "c_id c = i" "c_quit_cb c" "\<not> c_has_closed c"
    using Cons.prems(2) p by (auto simp: table_ok_def)
  define r where "r = (if c_topic_id c = t then snd (response host res t c w) else (c, w))"
  obtain c1 w1 where r1: "r = (c1, w1)" by fastforce
  obtain cs2 w2 where l: "publish_loop host t res cs w1 = (cs2, w2)" by fastforce
  have cs': "cs' = (i, c1) # cs2" "w' = w2"
    using Cons.prems(1) p l r1 by (auto simp: r_def split: if_splits prod.splits)
  have t: "told_step (c, w) (c1, w1)"
    using r1 response_told [of c w host res t] told_stepI [of c c w w] by (auto simp: r_def split: if_splits)
  have "w1\<lparr>w_quits := []\<rparr> = w\<lparr>w_quits := []\<rparr>"
    using r1 by (cases "response host res t c w") (auto simp: r_def split: if_splits dest: response_world)
  moreover have q: "w_quits w1 = w_quits w @ (if c_has_closed c1 then [i] else [])" using t c by (simp add: told_step_def)
  ultimately have w1: "w1 = w\<lparr>w_quits := w_quits w @ (if c_has_closed c1 then [i] else [])\<rparr>"
    by (cases w; cases w1) simp
  have sf: "stands_for host c1 (if mb_topic m = t then send t res m else m)"
    if "stands_for host c m" "\<not> c_has_closed c1" for m
    using that r1 response_stands_for [of host res t c w]
    by (cases "response host res t c w") (auto simp: r_def stands_for_def split: if_splits)
  obtain ids where ids: "w2 = w1\<lparr>w_quits := w_quits w1 @ ids\<rparr>"
    "\<forall>i m. i \<notin> set ids \<longrightarrow> rel_option (stands_for host) (map_of cs i) m \<longrightarrow>
      rel_option (stands_for host) (map_of cs2 i) (map_option (\<lambda>m. if mb_topic m = t then send t res m else m) m)"
    "\<forall>i. map_of cs i = None \<longrightarrow> map_of cs2 i = None"
    using Cons.IH [OF l ok] by blast
  show ?case
    unfolding p cs'
    by (rule exI [of _ "(if c_has_closed c1 then [i] else []) @ ids"])
       (use ids sf w1 in \<open>auto simp: rel_option_iff split: option.splits\<close>)
qed

lemma publish_simulates:
  assumes "publish host env topic t v sv w = (sv', w')" "server_inv (sv, w)" "implements host sv b"
  shows "\<exists>b'. broker_step (Published (hash_name topic) (packed_result env [(t, v)])) (b, w) (b', w') \<and> implements host sv' b'"
proof -
  let ?t = "hash_name topic" and ?res = "packed_result env [(t, v)]"
  obtain cs w1 where l: "publish_loop host ?t ?res (sv_conns sv) w = (cs, w1)" by fastforce
  have inv: "table_ok (sv_conns sv)" "w_quits w = []" using assms(2) by (auto simp: server_inv_def)
  obtain ids where ids: "w1 = w\<lparr>w_quits := w_quits w @ ids\<rparr>"
    "\<forall>i m. i \<notin> set ids \<longrightarrow> rel_option (stands_for host) (map_of (sv_conns sv) i) m \<longrightarrow>
      rel_option (stands_for host) (map_of cs i) (map_option (\<lambda>m. if mb_topic m = ?t then send ?t ?res m else m) m)"
    using publish_loop_members [OF l inv(1)] by blast
  have fin: "sv' = sv\<lparr>sv_conns := filter (\<lambda>p. fst p \<notin> set ids) cs\<rparr>" "w' = w"
    using assms(1) l ids(1) inv(2) quits_none [OF inv(2)] by (simp_all add: publish_def run_quits_simp)
  define b1 where "b1 = fst (broker_effect (Published ?t ?res) (b, w))"
  have "implements host sv' (b1\<lparr>bk_members := bk_members b1 |` (- set ids)\<rparr>)"
    using assms(3) ids(2) unfolding fin by (auto simp: implements_def map_of_filter_fst restrict_map_def b1_def)
  then show ?thesis unfolding fin by (intro simulates [of _ _ _ b1]) (auto simp: b1_def)
qed

subsection \<open>Every step\<close>

lemma accept_simulates:
  assumes "accept_step a sv w = (r, sv')" "fresh_accept a" "implements host sv b"
  shows "\<exists>b'. broker_step (accept_event r sv) (b, w) (b', w) \<and> implements host sv' b'"
proof (cases "r = Accept_more \<and> sv_conn_id sv \<notin> fst ` set (sv_conns sv)")
  case False
  then have "accept_event r sv = Internal" "sv_conns sv' = sv_conns sv" "sv_router sv' = sv_router sv"
    using assms(1) by (auto simp: accept_event_def accept_step_def Let_def split: accepted.splits if_splits)
  then show ?thesis using implements_same [OF assms(3), of sv'] by (auto intro: simulates_all)
next
  case True
  then have e: "accept_event r sv = Joined (sv_conn_id sv) (sv_cross_ending sv)" by (simp add: accept_event_def)
  obtain c where c: "sv_conns sv' = (sv_conn_id sv, c) # sv_conns sv" "sv_router sv' = sv_router sv"
    "c_topic_id c = 0" "sk_tx (c_socket c) = []" "c_cross_ending c = sv_cross_ending sv"
    using assms(1, 2) True
    by (auto simp: accept_step_def fresh_accept_def Let_def new_connection_def set_check_timeout_def set_quit_callback_def
        fresh_socket_def split: accepted.splits if_splits)
  then have "stands_for host c (new_member (sv_cross_ending sv))" by (simp add: stands_for_def new_member_def sent_bytes_def)
  then show ?thesis
    using assms(3) c unfolding e by (intro simulates_all) (auto simp: implements_def)
qed

lemma check_timeout_keys: "table_ok cs \<Longrightarrow> filter P cs = filter (\<lambda>p. fst p \<notin> fst ` set (filter (\<lambda>p. \<not> P p) cs)) cs"
  by (rule filter_cong) (auto simp: table_ok_def dest: eq_key_imp_eq_value)

lemma simulates_lost:
  assumes "server_inv (sv, w)" "implements host sv b" "sv_conns sv' = filter P (sv_conns sv)" "sv_router sv' = sv_router sv"
  shows "\<exists>b'. broker_step Internal (b, w) (b', w) \<and> implements host sv' b'"
proof (rule simulates)
  have "sv_conns sv' = filter (\<lambda>p. fst p \<notin> fst ` set (filter (\<lambda>p. \<not> P p) (sv_conns sv))) (sv_conns sv)"
    using assms(1, 3) check_timeout_keys [of "sv_conns sv" P] by (simp add: server_inv_def)
  from implements_filter [OF assms(2) this assms(4)]
  show "\<exists>stay. implements host sv' (b\<lparr>bk_members := bk_members b |` stay\<rparr>)" by blast
qed simp

lemma implements_options [simp]:
  "implements host (set_conn_max_age dur sv) b = implements host sv b"
  "implements host (set_check_conn_interval dur sv) b = implements host sv b"
  "implements host (enable_tcp_no_delay r sv) b = implements host sv b"
  "implements host (enable_cross_ending r sv) b = implements host sv b"
  by (simp_all add: implements_def set_conn_max_age_def set_check_conn_interval_def enable_tcp_no_delay_def
      enable_cross_ending_def)

lemma server_event_simulates:
  assumes "server_event host lim e svw svw'" "server_inv svw" "implements host (fst svw) b"
  shows "\<exists>b'. broker_step e (b, snd svw) (b', snd svw') \<and> implements host (fst svw') b'"
  using assms
proof (induction rule: server_event.induct)
  case (step_start le ec sv r ec' sv' w)
  then have "sv_conns sv' = sv_conns sv" "sv_router sv' = sv_router sv"
    by (auto simp: start_impl_def server_listen_def Let_def split: if_splits prod.splits)
  then show ?case using step_start implements_same [of host sv b sv'] by (auto intro: simulates_all)
next
  case (step_accept sv a w r sv')
  then show ?case using accept_simulates by fastforce
next
  case (step_read i sv w sv' w')
  then show ?case using conn_read_simulates by fastforce
next
  case (step_answer env args ctx sv w ec ctx' sv' w')
  then show ?case using conn_answer_simulates by fastforce
next
  case (step_publish env topic t v sv w sv' w')
  then show ?case using publish_simulates by fastforce
next
  case (step_timer sv ec w sv' closed)
  then have "sv_conns sv' = [p \<leftarrow> sv_conns sv. \<not> w_now w - c_last_rwtime (snd p) > sv_timeout_duration sv]"
    "sv_router sv' = sv_router sv"
    by (auto simp: check_timer_step_def check_timeout_def Let_def split: if_splits)
  then show ?case using simulates_lost [OF step_timer(3)] step_timer(4) by auto
next
  case (step_stop sv w sv' closed)
  then have "sv_conns sv' = [p \<leftarrow> sv_conns sv. False] \<or> sv' = sv" "sv_router sv' = sv_router sv"
    by (auto simp: server_stop_def split: if_splits)
  then show ?case
    using simulates_lost [OF step_stop(2), of host b sv' "\<lambda>p. False"] step_stop(3) by (auto intro: simulates_all)
next
  case (step_register env name f sv sv' w)
  then show ?case
    by (intro simulates_all [of _ _ _ "b\<lparr>bk_router := sv_router sv'\<rparr>"])
       (auto simp: server_register_def implements_def split: sum.splits)
next
  case (step_remove name sv w)
  then show ?case by (intro simulates_all) (auto simp: server_remove_def implements_def)
qed (auto intro: simulates_all)

lemma server_run_simulates:
  assumes "server_run host lim svw es svw'" "server_inv svw" "implements host (fst svw) b"
  shows "server_inv svw' \<and> (\<exists>b'. broker_run (b, snd svw) es (b', snd svw') \<and> implements host (fst svw') b')"
  using assms
proof (induction rule: server_run.induct)
  case run_nil
  then show ?case using broker_nil by blast
next
  case (run_snoc es svw1 e svw2)
  then obtain b1 where b1: "broker_run (b, snd svw) es (b1, snd svw1)" "implements host (fst svw1) b1" "server_inv svw1"
    by blast
  obtain b2 where "broker_step e (b1, snd svw1) (b2, snd svw2)" "implements host (fst svw2) b2"
    using server_event_simulates [OF run_snoc.hyps(2) b1(3, 2)] by blast
  then show ?case using broker_snoc [OF b1(1)] server_event_inv [OF run_snoc.hyps(2) b1(3)] by blast
qed

lemma implements_new: "implements host (rpc_server_new address port n) broker_new"
  by (simp add: implements_def rpc_server_new_def broker_new_def Let_def)

section \<open>What a server does, seen from outside\<close>

lemma accept_step_counts:
  assumes "accept_step (Accept_ok s) sv w = (Accept_more, sv')"
  shows "sv_accepting sv' = sv_accepting sv" "sv_conn_id sv' = sv_conn_id sv + 1" "sv_cross_ending sv' = sv_cross_ending sv"
  using assms by (auto simp: accept_step_def Let_def split: if_splits)

lemma broker_witness_server:
  "\<exists>es sv c. server_run Little 100 (rpc_server_new [] [] 1 :: unit server, world0 ()) es (sv, world0 ())
    \<and> sv_conns sv = [(0, c)] \<and> serving c 0 False True \<and> c_topic_id c = topic \<and> sk_tx (c_socket c) = []
    \<and> sv_accepting sv \<and> sv_conn_id sv = 1 \<and> \<not> sv_cross_ending sv"
proof -
  let ?s = "fresh_socket (subscribe_frame Little False topic @ [])" and ?sv = "rpc_server_new [] [] 1 :: unit server"
  obtain r ec' sv1 where st: "start_impl listen_ok no_error ?sv = (r, ec', sv1)" by (metis prod_cases3)
  have sv1: "sv_accepting sv1" "sv_conns sv1 = []" "sv_conn_id sv1 = 0" "\<not> sv_cross_ending sv1" "sv_router sv1 = empty_router"
    using st by (auto simp: start_impl_def server_listen_def rpc_server_new_def listen_ok_def Let_def)
  obtain sv2 c where a: "accept_step (Accept_ok ?s) sv1 (world0 ()) = (Accept_more, sv2)" "sv_conns sv2 = [(0, c)]"
    "0 \<in> sv_reading sv2" "serving c 0 False True" "c_socket c = ?s"
    using accept_step_serves [of ?s sv1 "world0 ()"] sv1 by (auto simp: fresh_socket_def)
  have f: "fresh_accept (Accept_ok ?s)" by (simp add: fresh_accept_def fresh_socket_def)
  have run: "server_run Little 100 (?sv, world0 ()) (([] @ [Internal]) @ [accept_event Accept_more sv1]) (sv2, world0 ())"
    by (rule run_snoc [OF run_snoc [OF run_nil step_start [OF st]] step_accept [OF sv1(1) f a(1)]])
  have inv: "server_inv (sv2, world0 ())"
    using server_reachable_inv [OF server_run_steps [OF run] server_inv_new] .
  have "sk_rx (c_socket c) = subscribe_frame Little False topic @ []" using a(5) by (simp add: fresh_socket_def)
  from read_step_subscribe [OF a(4) this, of 100 "sv_router sv2" "world0 ()"]
  obtain c' where c': "read_step Little 100 (sv_router sv2) (c, world0 ()) (c', world0 ())"
    "serving c' 0 False True" "c_topic_id c' = topic" "sk_tx (c_socket c') = []"
    using a(5) by (auto simp: fresh_socket_def)
  have "map_of (sv_conns sv2) 0 = Some c" by (simp add: a(2))
  from run_snoc [OF run server_read_step [OF c'(1) this inv a(3)]] show ?thesis
    using a(2) c'(2 - 4) sv1 accept_step_counts [OF a(1)] by (intro exI [of _ "put_connection 0 c' sv2"] exI [of _ c'] exI) (auto simp: put_connection_def)
qed

text \<open>
  C5: a running server implements the abstract one. Whatever starts, accepts, requests, subscriptions,
  answers by contexts, publications, registrations, timer ticks and stops follow each other, the abstract
  server goes through the same events with the same effect on the state of the handlers, and in the end has
  the same handlers and, for every connection in the table, a member with the connection's topic whose
  messages are exactly what the connection has written, as whole frames and in order.
\<close>

theorem server_refines_broker:
  assumes "server_run host lim (rpc_server_new address port n, world0 u) es (sv, w)"
  shows "\<exists>b. broker_run (broker_new, world0 u) es (b, w) \<and> implements host sv b"
  using server_run_simulates [OF assms server_inv_new] implements_new by fastforce

theorem server_refines_broker_witness:
  "\<exists>es sv b. server_run Little 100 (rpc_server_new [] [] 1 :: unit server, world0 ()) es (sv, world0 ())
    \<and> broker_run (broker_new, world0 ()) es (b, world0 ()) \<and> implements Little sv b
    \<and> bk_members b 0 = Some \<lparr>mb_cross = False, mb_topic = 7, mb_sent = []\<rparr>"
proof -
  obtain es c and sv :: "unit server" where run: "server_run Little 100 (rpc_server_new [] [] 1, world0 ()) es (sv, world0 ())"
    and sv: "sv_conns sv = [(0, c)]" "serving c 0 False True" "c_topic_id c = 7" "sk_tx (c_socket c) = []"
    using broker_witness_server [of 7] by blast
  obtain b where b: "broker_run (broker_new, world0 ()) es (b, world0 ())" "implements Little sv b"
    using server_refines_broker [OF run] by blast
  obtain m where m: "bk_members b 0 = Some m" "stands_for Little c m" using implements_conn [OF b(2)] sv(1) by force
  have "m = \<lparr>mb_cross = False, mb_topic = 7, mb_sent = []\<rparr>"
    using m(2) sv(2 - 4) by (cases m) (auto simp: stands_for_def serving_def)
  then show ?thesis using run b m(1) by blast
qed

lemma subscriber_messages:
  assumes "server_run host lim (rpc_server_new address port n, world0 u) es1 (sv1, w1)"
    and "server_run host lim (sv1, w1) es2 (sv2, w2)"
    and "map_of (sv_conns sv1) i = Some c1" "map_of (sv_conns sv2) i = Some c2"
    and "c_topic_id c1 \<noteq> 0" "\<forall>e \<in> set es2. keeps_member i e"
  shows "c_topic_id c2 = c_topic_id c1 \<and> (\<exists>msgs. messages_for i (c_topic_id c1) es2 msgs
    \<and> sk_tx (c_socket c2) = sk_tx (c_socket c1) @ sent_bytes host (c_cross_ending c1) msgs)"
proof -
  obtain b1 where b1: "server_inv (sv1, w1)" "implements host sv1 b1"
    using server_run_simulates [OF assms(1) server_inv_new] implements_new by fastforce
  obtain b2 where b2: "broker_run (b1, w1) es2 (b2, w2)" "implements host sv2 b2"
    using server_run_simulates [OF assms(2) b1(1)] b1(2) by auto
  obtain m1 m2 where m1: "bk_members b1 i = Some m1" "stands_for host c1 m1"
    and m2: "bk_members b2 i = Some m2" "stands_for host c2 m2"
    using implements_conn [OF b1(2) assms(3)] implements_conn [OF b2(2) assms(4)] by blast
  have "mb_topic m2 = mb_topic m1" "mb_cross m2 = mb_cross m1"
    "mb_topic m1 \<noteq> 0 \<longrightarrow> (\<exists>msgs. mb_sent m2 = mb_sent m1 @ msgs \<and> messages_for i (mb_topic m1) es2 msgs)"
    using broker_run_member [OF b2(1) assms(6), of m2] m1(1) m2(1) by auto
  then show ?thesis using m1(2) m2(2) assms(5) by (auto simp: stands_for_def)
qed

text \<open>
  C6: a subscriber is sent every publication of its topic, once, in order, whatever else the server does.
  As long as the connection stays in the table and does not subscribe again, what it writes from one moment
  to the next is a sequence of whole frames; among them, the publications are exactly those made on its
  topic in the meantime, and there are at most as many answers as requests of that connection and answers by
  contexts on it.
\<close>

theorem subscriber_sent_each_publication:
  assumes "server_run host lim (rpc_server_new address port n, world0 u) es1 (sv1, w1)"
    and "server_run host lim (sv1, w1) es2 (sv2, w2)"
    and "map_of (sv_conns sv1) i = Some c1" "map_of (sv_conns sv2) i = Some c2"
    and "c_topic_id c1 \<noteq> 0" "\<forall>e \<in> set es2. keeps_member i e"
  shows "c_topic_id c2 = c_topic_id c1 \<and> (\<exists>msgs. messages_for i (c_topic_id c1) es2 msgs
    \<and> sk_tx (c_socket c2) = sk_tx (c_socket c1) @ sent_bytes host (c_cross_ending c1) msgs)"
  using assms by (rule subscriber_messages)

theorem subscriber_sent_each_publication_witness:
  "\<exists>es sv1 sv2 c1 c2 msgs. server_run Little 100 (rpc_server_new [] [] 1 :: unit server, world0 ()) es (sv1, world0 ())
    \<and> publish Little (default_env True) (str_bytes ''a'') T_int32 (V_int 5) sv1 (world0 ()) = (sv2, world0 ())
    \<and> sv_conns sv1 = [(0, c1)] \<and> sv_conns sv2 = [(0, c2)] \<and> sk_tx (c_socket c2) = sent_bytes Little False msgs
    \<and> [p \<leftarrow> msgs. fst p \<noteq> 0] = [(hash_name (str_bytes ''a''), packed_result (default_env True) [(T_int32, V_int 5)])]
    \<and> [p \<leftarrow> msgs. fst p = 0] = []"
proof -
  have h: "hash_name (str_bytes ''a'') \<noteq> 0" by (simp add: hash_name_a)
  let ?t = "hash_name (str_bytes ''a'')" and ?env = "default_env True"
  let ?e = "Published ?t (packed_result ?env [(T_int32, V_int 5)]) :: unit event"
  obtain es c1 and sv1 :: "unit server" where run: "server_run Little 100 (rpc_server_new [] [] 1, world0 ()) es (sv1, world0 ())"
    and sv1: "sv_conns sv1 = [(0, c1)]" "serving c1 0 False True" "c_topic_id c1 = ?t" "sk_tx (c_socket c1) = []"
    using broker_witness_server [of ?t] by blast
  obtain sv2 w2 where p: "publish Little ?env (str_bytes ''a'') T_int32 (V_int 5) sv1 (world0 ()) = (sv2, w2)" by fastforce
  then obtain c2 where sv2: "sv_conns sv2 = [(0, c2)]" "w2 = world0 ()"
    using sv1 response_success [of c1 Little "packed_result ?env [(T_int32, V_int 5)]" ?t "world0 ()"]
    by (auto simp: publish_def run_quits_simp serving_def world0_def)
  have run2: "server_run Little 100 (sv1, world0 ()) ([] @ [?e]) (sv2, world0 ())"
    using run_snoc [OF run_nil step_publish [OF p]] sv2(2) by simp
  obtain msgs where msgs: "messages_for 0 ?t ([] @ [?e]) msgs"
    and tx: "sk_tx (c_socket c2) = sk_tx (c_socket c1) @ sent_bytes Little (c_cross_ending c1) msgs"
    using subscriber_sent_each_publication [OF run run2, of 0 c1 c2] sv1 sv2(1) h by (auto simp: keeps_member_def)
  have "[p \<leftarrow> msgs. fst p \<noteq> 0] = [(?t, packed_result ?env [(T_int32, V_int 5)])]" "[p \<leftarrow> msgs. fst p = 0] = []"
    using msgs by (simp_all add: messages_for_def published_def)
  moreover have "sk_tx (c_socket c2) = sent_bytes Little False msgs" using tx sv1(2, 4) by (simp add: serving_def)
  moreover note run p [unfolded sv2(2)] sv1(1) sv2(1)
  ultimately show ?thesis by (intro exI conjI)
qed

end
