(* ===== verification/Topics_Run.thy ===== *)
theory Topics_Run
  imports Topics_Example Broker
begin

text \<open>
  The publisher of examples/server.cpp in a server that runs: while the program waits for the next word the
  server accepts connections, answers requests and takes subscriptions. \<open>pub_run\<close> is the loop of the program
  with what the server does before each word; \<open>pub_loop\<close> is the case where it does nothing else.
\<close>

section \<open>The loop in a running server\<close>

text \<open>The program publishes nowhere but in its loop.\<close>

definition no_publication :: "'u event list \<Rightarrow> bool" where
  "no_publication es \<longleftrightarrow> list_all (\<lambda>e. case e of Published k res \<Rightarrow> False | _ \<Rightarrow> True) es"

inductive pub_run ::
  "endian \<Rightarrow> nat \<Rightarrow> codec_env \<Rightarrow> string list \<Rightarrow> 'u server \<times> 'u world \<Rightarrow> 'u event list \<Rightarrow> 'u server \<times> 'u world \<Rightarrow> bool"
  for host :: endian and lim :: nat and env :: codec_env
where
  pub_quit: "server_run host lim svw es svw' \<Longrightarrow> no_publication es \<Longrightarrow> pub_run host lim env (''quit'' # strs) svw es svw'"
| pub_word: "str \<noteq> ''quit'' \<Longrightarrow> server_run host lim svw es (sv1, w1) \<Longrightarrow> no_publication es \<Longrightarrow>
    publish host env topic1 (T_lref T_string) (V_str (str_bytes str)) sv1 w1 = svw2 \<Longrightarrow> pub_run host lim env strs svw2 es' svw' \<Longrightarrow>
    pub_run host lim env (str # strs) svw
      (es @ Published (hash_name topic1) (packed_result env [(T_lref T_string, V_str (str_bytes str))]) # es') svw'"

lemma server_run_append:
  "server_run host lim svw1 es' svw2 \<Longrightarrow> server_run host lim svw es svw1 \<Longrightarrow> server_run host lim svw (es @ es') svw2"
proof (induction rule: server_run.induct)
  case (run_snoc es' svw1 e svw2)
  then show ?case using server_run.run_snoc [of host lim svw "es @ es'"] by simp
qed simp

text \<open>The words up to \<open>quit\<close>, which the loop has read when it ends, are what is published.\<close>

abbreviation words_of :: "string list \<Rightarrow> string list" where
  "words_of strs \<equiv> takeWhile (\<lambda>str. str \<noteq> ''quit'') strs"

lemma published_none: "no_publication es \<Longrightarrow> published t es = []"
  by (induction es) (auto simp: no_publication_def published_def split: event.splits)

lemma pub_run_server:
  assumes "pub_run host lim env strs svw es svw'"
  shows "server_run host lim svw es svw'" "''quit'' \<in> set strs"
    "published (hash_name topic1) es
       = map (\<lambda>str. (hash_name topic1, packed_result env [(T_lref T_string, V_str (str_bytes str))])) (words_of strs)"
  using assms
proof (induction rule: pub_run.induct)
  case (pub_quit svw es svw' strs)
  { case 1 then show ?case using pub_quit by simp next
    case 2 then show ?case by simp next
    case 3 then show ?case using pub_quit by (simp add: published_none) }
next
  case (pub_word str svw es sv1 w1 svw2 strs es' svw')
  let ?e = "Published (hash_name topic1) (packed_result env [(T_lref T_string, V_str (str_bytes str))]) :: 'a event"
  obtain sv2 w2 where svw2: "svw2 = (sv2, w2)" by fastforce
  have "server_run host lim svw (es @ [?e]) svw2"
    using run_snoc [OF pub_word(2) step_publish [OF pub_word(4) [unfolded svw2]]] svw2 by simp
  then have run: "server_run host lim svw ((es @ [?e]) @ es') svw'" by (rule server_run_append [OF pub_word.IH(1)])
  { case 1 show ?case using run by simp next
    case 2 show ?case using pub_word.IH(2) by simp next
    case 3 show ?case using pub_word.IH(3) pub_word.hyps(1, 3) by (simp add: published_none) (simp add: published_def) }
qed

lemma pub_loop_run:
  "pub_loop host env strs sv w = Some (sv', w') \<Longrightarrow> \<exists>es. pub_run host lim env strs (sv, w) es (sv', w')"
proof (induction strs arbitrary: sv w)
  case (Cons str strs)
  show ?case
  proof (cases "str = ''quit''")
    case True
    then show ?thesis using Cons.prems by (auto simp: no_publication_def intro!: pub_quit [OF run_nil] exI [of _ "[]"])
  next
    case False
    obtain sv1 w1 where p: "publish host env topic1 (T_lref T_string) (V_str (str_bytes str)) sv w = (sv1, w1)" by fastforce
    then obtain es where "pub_run host lim env strs (sv1, w1) es (sv', w')" using Cons False by auto
    then show ?thesis using pub_word [OF False run_nil _ p] by (fastforce simp: no_publication_def)
  qed
qed simp

text \<open>A publication changes nothing of the server but its table.\<close>

lemma publish_options:
  assumes "publish host env topic t v sv w = (sv', w')"
  shows "sv_accepting sv' = sv_accepting sv" "sv_conn_id sv' = sv_conn_id sv" "sv_cross_ending sv' = sv_cross_ending sv"
  using assms by (auto simp: publish_def run_quits_simp split: prod.splits)

lemma sent_bytes_words:
  "sent_bytes host False (map (\<lambda>str. (hash_name topic1, packed_result env [(T_lref T_string, V_str (str_bytes str))])) strs)
     = concat (map (word_frame host False) strs)"
  by (induction strs) (auto simp: sent_bytes_def word_frame_def response_frame_packed)

text \<open>
  C25: words published by the example server are printed by the example client, whatever else the server
  does meanwhile. Once a client has subscribed, the server may accept others, answer their requests and take
  their subscriptions before each word; if the client's connection is still there when the publisher has read
  \<open>quit\<close>, it was sent exactly the words before that, and the client prints them in order.
\<close>

theorem words_reach_subscriber_while_serving:
  assumes "server_run host lim (rpc_server_new address port n, world0 u) es1 (sv1, w1)"
    and "map_of (sv_conns sv1) i = Some c1" "c_topic_id c1 = hash_name topic1" "\<not> c_cross_ending c1" "sk_tx (c_socket c1) = []"
    and "pub_run host lim env strs (sv1, w1) es2 (sv2, w2)" "\<forall>e \<in> set es2. keeps_member i e \<and> \<not> asks i e"
    and "map_of (sv_conns sv2) i = Some c2" "resolve ''127.0.0.1'' ''9004'' = Finished no_error"
    and "\<forall>str \<in> set strs. length str < lim' \<and> length str < 2 ^ 63"
  shows "\<exists>cl'. sub_program host lim' env' resolve (Finished no_error) (fresh_socket (sk_tx (c_socket c2))) con
    = (Ex_returned, cl', printed env' (words_of strs) (ex_log env' Log_info [''will subscribe, waiting for publish''] con))"
proof -
  note run = pub_run_server [OF assms(6)]
  have topic: "c_topic_id c1 \<noteq> 0" using assms(3) by (simp add: keys)
  obtain msgs where msgs: "messages_for i (c_topic_id c1) es2 msgs"
    and tx: "sk_tx (c_socket c2) = sk_tx (c_socket c1) @ sent_bytes host (c_cross_ending c1) msgs"
    using subscriber_messages [OF assms(1) run(1) assms(2, 8) topic] assms(7) by blast
  have "[e \<leftarrow> es2. asks i e] = []" using assms(7) by (simp add: filter_empty_conv)
  then have "\<forall>p \<in> set msgs. fst p \<noteq> 0" using msgs by (simp add: messages_for_def filter_empty_conv)
  then have "msgs = published (hash_name topic1) es2" using msgs assms(3) by (simp add: messages_for_def)
  then have "sk_tx (c_socket c2) = concat (map (word_frame host False) (words_of strs))"
    using tx assms(4, 5) run(3) by (simp add: sent_bytes_words)
  moreover have "\<forall>str \<in> set (words_of strs). length str < lim' \<and> length str < 2 ^ 63"
    using assms(10) by (meson set_takeWhileD)
  ultimately show ?thesis by (intro sub_program_prints assms(9))
qed

text \<open>While the publisher waits for its second word another client connects.\<close>

theorem words_reach_subscriber_while_serving_witness:
  "\<exists>sv1 sv2 es c2 cl'. pub_run Little 100 (default_env True) [''hello'', ''world'', ''quit''] (sv1 :: unit server, world0 ()) es (sv2, world0 ())
    \<and> map fst (sv_conns sv1) = [0] \<and> map fst (sv_conns sv2) = [1, 0] \<and> map_of (sv_conns sv2) 0 = Some c2
    \<and> sub_program Little 100 (default_env True) (\<lambda>h p. Finished no_error) (Finished no_error) (fresh_socket (sk_tx (c_socket c2)))
        \<lparr>con_out = [], con_err = []\<rparr>
      = (Ex_returned, cl', printed (default_env True) [''hello'', ''world'']
          (ex_log (default_env True) Log_info [''will subscribe, waiting for publish''] \<lparr>con_out = [], con_err = []\<rparr>))"
proof -
  let ?env = "default_env True" and ?t = "T_lref T_string" and ?s = "fresh_socket []"
  obtain es1 c1 and sv1 :: "unit server" where run: "server_run Little 100 (rpc_server_new [] [] 1, world0 ()) es1 (sv1, world0 ())"
    and sv1: "sv_conns sv1 = [(0, c1)]" "serving c1 0 False True" "c_topic_id c1 = hash_name topic1" "sk_tx (c_socket c1) = []"
      "sv_accepting sv1" "sv_conn_id sv1 = 1" "\<not> sv_cross_ending sv1"
    using broker_witness_server [of "hash_name topic1"] by blast
  have q: "w_quits (world0 ()) = []" by (simp add: world0_def)
  have aw: "all_writable (sv_conns sv1)" using sv1(1, 2) by (simp add: all_writable_def serving_def)
  obtain sva where p1: "publish Little ?env topic1 ?t (V_str (str_bytes ''hello'')) sv1 (world0 ()) = (sva, world0 ())"
    "list_all2 (got_words Little [''hello'']) (sv_conns sv1) (sv_conns sva)"
    using publish_word [OF aw q] by blast
  then obtain ca where ca: "sv_conns sva = [(0, ca)]" using sv1(1) by (auto simp: list_all2_Cons1 got_words_def)
  have opt: "sv_accepting sva" "sv_conn_id sva = 1" "\<not> sv_cross_ending sva"
    using publish_options [OF p1(1)] sv1(5 - 7) by simp_all
  obtain svb cb where b: "accept_step (Accept_ok ?s) sva (world0 ()) = (Accept_more, svb)" "sv_conns svb = [(1, cb), (0, ca)]"
    "serving cb 1 False True"
    using accept_step_serves [of ?s sva "world0 ()"] opt ca by (auto simp: fresh_socket_def)
  have "fresh_accept (Accept_ok ?s)" by (simp add: fresh_accept_def fresh_socket_def)
  from run_snoc [OF run_nil step_accept [OF opt(1) this b(1)]]
  have mid: "server_run Little 100 (sva, world0 ()) [Joined 1 False] (svb, world0 ())"
    using opt ca by (simp add: accept_event_def)
  have awb: "all_writable (sv_conns svb)"
    using all_writable_got [OF p1(2) aw] ca b(2, 3) by (simp add: all_writable_def serving_def)
  obtain svc where p2: "publish Little ?env topic1 ?t (V_str (str_bytes ''world'')) svb (world0 ()) = (svc, world0 ())"
    "list_all2 (got_words Little [''world'']) (sv_conns svb) (sv_conns svc)"
    using publish_word [OF awb q] by blast
  then obtain cb2 c2 where c2: "sv_conns svc = [(1, cb2), (0, c2)]" using b(2) by (auto simp: list_all2_Cons1 got_words_def)
  have nil: "server_run Little 100 (sv1, world0 ()) [] (sv1, world0 ())" "server_run Little 100 (svc, world0 ()) [] (svc, world0 ())"
    by (rule run_nil)+
  have np: "no_publication ([] :: unit event list)" "no_publication [Joined 1 False :: unit event]" by (simp_all add: no_publication_def)
  note last = pub_quit [OF nil(2) np(1), of ?env "[]"]
  note second = pub_word [OF _ mid np(2) p2(1) last, simplified]
  note loop = pub_word [OF _ nil(1) np(1) p1(1) second, simplified]
  have "words_of [''hello'', ''world'', ''quit''] = [''hello'', ''world'']" by simp
  then obtain cl' where cl': "sub_program Little 100 ?env (\<lambda>h p. Finished no_error) (Finished no_error) (fresh_socket (sk_tx (c_socket c2)))
        \<lparr>con_out = [], con_err = []\<rparr>
      = (Ex_returned, cl', printed ?env [''hello'', ''world'']
          (ex_log ?env Log_info [''will subscribe, waiting for publish''] \<lparr>con_out = [], con_err = []\<rparr>))"
    using words_reach_subscriber_while_serving [where resolve = "\<lambda>h p. Finished no_error" and lim' = 100 and env' = ?env,
        OF run _ sv1(3) _ sv1(4) loop, of 0 c2 "\<lparr>con_out = [], con_err = []\<rparr>"] sv1(1, 2) c2
    by (auto simp: keeps_member_def serving_def)
  show ?thesis
    by (rule exI [of _ sv1], rule exI [of _ svc], intro exI conjI, rule loop) (use sv1(1) c2 cl' in simp_all)
qed

end
