(* ===== verification/Client_Runs.thy ===== *)
theory Client_Runs
  imports Calls
begin

text \<open>
  Whatever a program does with a client, one operation after the other: what stays true of its state,
  and what a timeout, a lost connection and a publication that comes at the wrong time do to the
  operations that follow.
\<close>

section \<open>Any sequence of operations\<close>

text \<open>The connection that \<open>connect\<close> makes is open; everything else the network does is free.\<close>

inductive client_step :: "endian \<Rightarrow> nat \<Rightarrow> codec_env \<Rightarrow> client \<Rightarrow> client \<Rightarrow> bool"
  for host :: endian and lim :: nat and env :: codec_env
where
  step_connect: "sk_open sock \<Longrightarrow> connect resolved connected sock cl = (ec, cl') \<Longrightarrow> client_step host lim env cl cl'"
| step_call: "call_for host lim env fired key R args cl = (out, cl') \<Longrightarrow> client_step host lim env cl cl'"
| step_subscribe: "subscribe host lim env R topic cl = (out, cl') \<Longrightarrow> client_step host lim env cl cl'"
| step_close: "client_step host lim env cl (client_close cl)"
| step_no_delay: "client_step host lim env cl (client_enable_tcp_no_delay r cl)"
| step_cross_ending: "client_step host lim env cl (client_enable_cross_ending r cl)"

text \<open>
  A client that does not say it is closed has a connection; one that has never tried to connect is
  closed; there is one operation for each topic.
\<close>

definition client_inv :: "client \<Rightarrow> bool" where
  "client_inv cl \<longleftrightarrow> (has_closed cl \<longleftrightarrow> \<not> sk_open (cl_impl cl)) \<and> (cl_should_reset cl \<or> has_closed cl)
     \<and> distinct (map fst (cl_sub_ops cl))"

text \<open>What reading, writing and completing do to a client: they leave it connected as it is, or close it.\<close>

definition kept :: "client \<Rightarrow> client \<Rightarrow> bool" where
  "kept cl cl' \<longleftrightarrow> cl_should_reset cl' = cl_should_reset cl
     \<and> (sk_open (cl_impl cl') = sk_open (cl_impl cl) \<and> cl_has_closed cl' = cl_has_closed cl
        \<or> \<not> sk_open (cl_impl cl') \<and> cl_has_closed cl')
     \<and> (distinct (map fst (cl_sub_ops cl)) \<longrightarrow> distinct (map fst (cl_sub_ops cl')))"

lemma kept_refl [intro, simp]: "kept cl cl"
  by (simp add: kept_def)

lemma kept_trans [trans]: "kept cl cl1 \<Longrightarrow> kept cl1 cl2 \<Longrightarrow> kept cl cl2"
  by (auto simp: kept_def)

lemma kept_inv: "kept cl cl' \<Longrightarrow> client_inv cl \<Longrightarrow> client_inv cl'"
  by (auto simp: kept_def client_inv_def has_closed_def)

lemma kept_close [intro, simp]: "kept cl (close_socket cl)"
  by (simp add: kept_def close_socket_def)

lemma kept_socket: "sk_open s = sk_open (cl_impl cl) \<Longrightarrow> kept cl (cl\<lparr>cl_impl := s\<rparr>)"
  by (simp add: kept_def)

lemma comple_ops_keys: "map fst (snd (comple_ops ops)) = map fst ops"
  by (induction ops) (auto split: outcome.splits prod.splits)

lemma kept_comple_all: "kept cl (snd (comple_all result cl))"
  using comple_ops_keys [of "cl_sub_ops cl"] by (auto simp: comple_all_def kept_def split: prod.split)

lemma kept_complete_topic: "kept cl (snd (complete_topic h result cl))"
  by (auto simp: complete_topic_def kept_def distinct_update split: option.splits outcome.splits)

lemma kept_wait_response: "kept cl (snd (wait_response host lim env R cl))"
proof -
  obtain ec hb s where r1: "async_read header_size (cl_impl cl) = (ec, hb, s)" by (metis prod_cases3)
  define h where "h = (if cl_cross_ending cl then parse_recieved host (header_of_bytes host hb) else header_of_bytes host hb)"
  obtain ec2 bs s2 where r2: "async_read (unat (body_len h)) s = (ec2, bs, s2)" by (metis prod_cases3)
  have o: "sk_open s = sk_open (cl_impl cl)" "sk_open s2 = sk_open (cl_impl cl)"
    using async_read_open [OF r1] async_read_open [OF r2] by simp_all
  have k1: "kept cl (cl\<lparr>cl_impl := s\<rparr>)" and k2: "kept cl (cl\<lparr>cl_impl := s2, cl_body := b\<rparr>)" for b
    using o by (simp_all add: kept_def)
  note step = k1 k2 kept_trans [OF k1 kept_trans [OF kept_close kept_comple_all]] kept_trans [OF k1 kept_comple_all]
    kept_trans [OF k2 kept_trans [OF kept_close kept_comple_all]] kept_trans [OF k2 kept_complete_topic]
  show ?thesis using r2 [unfolded h_def]
    by (auto simp: wait_response_def r1 Let_def step split: sum.split)
qed

lemma kept_write: "kept cl (cl\<lparr>cl_impl := snd (async_write bs (cl_impl cl))\<rparr>)"
  using async_write_frame [of bs "cl_impl cl"] by (intro kept_socket) (metis prod.collapse)

lemma kept_call_impl: "kept cl (snd (call_impl host lim env R header args cl))"
proof -
  obtain ec s where w: "async_write (call_frame host (cl_cross_ending cl) env header args) (cl_impl cl) = (ec, s)" by fastforce
  have k: "kept cl (cl\<lparr>cl_impl := s\<rparr>)" using kept_write [of cl "call_frame host (cl_cross_ending cl) env header args"] w by simp
  show ?thesis using kept_trans [OF k kept_close] kept_trans [OF k kept_wait_response]
    by (simp add: call_impl_def w Let_def)
qed

lemma kept_timed_out: "kept cl (snd rcl) \<Longrightarrow> kept cl (snd (timed_out R rcl))"
  using kept_trans [OF _ kept_close] by (simp add: timed_out_def watchdog_def no_error_def ec_set_def Let_def split: outcome.split)

lemma kept_aborted_call_impl: "kept cl (snd (aborted_call_impl fired host lim env R header args cl))"
proof -
  define sent where "sent k = cl\<lparr>cl_impl := snd (async_write
      (take k (call_frame host (cl_cross_ending cl) env header args)) (cl_impl cl))\<rparr>" for k
  have s: "kept cl (sent k)" for k by (simp add: sent_def kept_write)
  have b: "kept (sent k) ((sent k)\<lparr>cl_body := b\<rparr>)" for k b by (simp add: kept_def)
  have r: "kept (sent k) ((sent k)\<lparr>cl_impl := (cl_impl (sent k))\<lparr>sk_rx := rx, sk_end := e\<rparr>\<rparr>)" for k rx e
    by (rule kept_socket) simp
  show ?thesis
    using kept_trans [OF s kept_close] kept_trans [OF s b] kept_trans [OF s kept_trans [OF r kept_wait_response]]
    unfolding aborted_call_impl_def Let_def sent_def [symmetric] by (cases fired) simp_all
qed

lemma kept_call_for: "kept cl (snd (call_for host lim env fired key R args cl))"
  using kept_timed_out [OF kept_call_impl] kept_timed_out [OF kept_aborted_call_impl] kept_call_impl
  by (simp add: call_for_def or_watchdog_def Let_def split: option.split outcome.split)

lemma kept_subscribe: "kept cl (snd (subscribe host lim env R topic cl))"
proof -
  let ?cl = "cl\<lparr>cl_sub_ops := AList.update (hash_name topic) Sub_waiting (cl_sub_ops cl)\<rparr>"
  have k: "kept cl ?cl" by (simp add: kept_def distinct_update)
  show ?thesis using kept_trans [OF k kept_call_impl] kept_trans [OF k kept_wait_response]
    by (simp add: subscribe_def sub_join_client Let_def split: option.split)
qed

lemma client_step_inv:
  assumes "client_step host lim env cl cl'" "client_inv cl"
  shows "client_inv cl'"
  using assms
proof (induction rule: client_step.induct)
  case (step_connect sock resolved connected cl ec cl')
  then show ?case
    by (auto simp: connect_def client_reset_def watchdog_def close_socket_def client_inv_def has_closed_def closed_socket_def Let_def
        split: race.splits if_splits)
next
  case (step_call fired key R args cl out cl')
  then show ?case using kept_inv [OF kept_call_for, of cl host lim env fired key R args] by simp
next
  case (step_subscribe R topic cl out cl')
  then show ?case using kept_inv [OF kept_subscribe, of cl host lim env R topic] by simp
qed (auto simp: client_close_def client_enable_tcp_no_delay_def client_enable_cross_ending_def client_inv_def has_closed_def
       close_socket_def)

text \<open>
  C21: along every run of a client, whatever the network answers, \<open>has_closed\<close> says exactly whether the
  client has a connection it can use, and there is one operation for each topic. In particular every error
  that closes the socket is recorded, so that \<open>close\<close> acts once.
\<close>

theorem client_state_consistent:
  assumes "(client_step host lim env)\<^sup>*\<^sup>* rpc_client_new cl"
  shows "(has_closed cl \<longleftrightarrow> \<not> sk_open (cl_impl cl)) \<and> distinct (map fst (cl_sub_ops cl))
    \<and> has_closed (client_close cl) \<and> \<not> sk_open (cl_impl (client_close cl)) \<and> client_close (client_close cl) = client_close cl"
proof -
  have "client_inv rpc_client_new" by (simp add: client_inv_def has_closed_def rpc_client_new_def closed_socket_def)
  with assms have "client_inv cl" by (induction rule: rtranclp_induct) (auto intro: client_step_inv)
  then show ?thesis by (auto simp: client_inv_def has_closed_def client_close_def close_socket_def)
qed

text \<open>
  A run that connects, subscribes to the topic "a" and receives a publication, calls and gets a timeout in the
  middle of writing the request, connects again and closes.
\<close>

theorem client_state_consistent_witness:
  "\<exists>cl1 cl2 cl3 cl4. connect (Finished no_error) (Finished no_error)
       (fresh_socket (response_frame Little False (rpc_result_of_string [104, 105]) (hash_name (str_bytes ''a'')))) rpc_client_new = (no_error, cl1)
     \<and> \<not> has_closed cl1
     \<and> subscribe Little 100 (default_env True) T_string (str_bytes ''a'') cl1 = (Returned \<lparr>cr_ec = ok, cr_value = V_str [104, 105]\<rparr>, cl2)
     \<and> distinct (map fst (cl_sub_ops cl2)) \<and> cl_sub_ops cl2 \<noteq> []
     \<and> call_for Little 100 (default_env True) (Some (Fired_writing 5)) 7 T_int32 [] cl2 = (Returned \<lparr>cr_ec = request_timeout, cr_value = V_int 0\<rparr>, cl3)
     \<and> has_closed cl3 \<and> \<not> sk_open (cl_impl cl3)
     \<and> connect (Finished no_error) (Finished no_error) (fresh_socket []) cl3 = (no_error, cl4)
     \<and> sk_open (cl_impl cl4) \<and> \<not> has_closed cl4 \<and> distinct (map fst (cl_sub_ops cl4)) \<and> has_closed (client_close cl4)"
proof -
  let ?res = "rpc_result_of_string [104, 105]"
  let ?step = "client_step Little 100 (default_env True)"
  let ?s1 = "fresh_socket (response_frame Little False ?res (hash_name (str_bytes ''a'')))"
  obtain cl1 where c1: "connect (Finished no_error) (Finished no_error) ?s1 rpc_client_new = (no_error, cl1)"
    "cl_impl cl1 = ?s1" "cl_sub_ops cl1 = []" "cl_cross_ending cl1 = False" "cl_should_reset cl1"
    by (simp add: connect_def rpc_client_new_def)
  have r1: "?step\<^sup>*\<^sup>* rpc_client_new cl1"
    by (rule r_into_rtranclp) (rule step_connect [OF _ c1(1)], simp add: fresh_socket_def)
  have d: "rr_data ?res = [104, 105]" "rr_ec ?res = ok" by (simp_all add: rpc_result_of_string_def rpc_result_init_def rr_data_def)
  have "\<exists>cl'. subscribe Little 100 (default_env True) T_string (str_bytes ''a'') cl1 = (Returned \<lparr>cr_ec = ok, cr_value = V_str [104, 105]\<rparr>, cl')
    \<and> sk_tx (cl_impl cl') = sk_tx (cl_impl cl1) @ subscribe_frame Little (cl_cross_ending cl1) (hash_name (str_bytes ''a''))
    \<and> cl_sub_ops cl' = [(hash_name (str_bytes ''a''), Sub_done True)] \<and> sk_rx (cl_impl cl') = []"
    by (rule subscribe_returns_publication [where res = ?res])
       (simp_all add: c1 d fresh_socket_def hash_name_a unpack_def is_fundamental_def is_void_def)
  then obtain cl2 where c2: "subscribe Little 100 (default_env True) T_string (str_bytes ''a'') cl1
      = (Returned \<lparr>cr_ec = ok, cr_value = V_str [104, 105]\<rparr>, cl2)" "cl_sub_ops cl2 = [(hash_name (str_bytes ''a''), Sub_done True)]" by blast
  have r2: "?step\<^sup>*\<^sup>* rpc_client_new cl2" using r1 step_subscribe [OF c2(1)] by (rule rtranclp.rtrancl_into_rtrancl)
  obtain cl3 where c3: "call_for Little 100 (default_env True) (Some (Fired_writing 5)) 7 T_int32 [] cl2
      = (Returned \<lparr>cr_ec = request_timeout, cr_value = V_int 0\<rparr>, cl3)" "has_closed cl3"
    by (simp add: call_for_def aborted_call_impl_def timed_out_def watchdog_def no_error_def ec_set_def init_result_def
        close_socket_def has_closed_def Let_def)
  have r3: "?step\<^sup>*\<^sup>* rpc_client_new cl3" using r2 step_call [OF c3(1)] by (rule rtranclp.rtrancl_into_rtrancl)
  obtain ec cl4 where c4: "connect (Finished no_error) (Finished no_error) (fresh_socket []) cl3 = (ec, cl4)" by fastforce
  then have o4: "ec = no_error" "sk_open (cl_impl cl4)" by (auto simp: connect_def fresh_socket_def ec_set_def no_error_def Let_def)
  have r4: "?step\<^sup>*\<^sup>* rpc_client_new cl4"
    by (rule rtranclp.rtrancl_into_rtrancl [OF r3 step_connect [OF _ c4]]) (simp add: fresh_socket_def)
  show ?thesis
    using client_state_consistent [OF r1] client_state_consistent [OF r2] client_state_consistent [OF r3] client_state_consistent [OF r4]
      c1(1, 2) c2 c3 c4 o4 by (auto simp: fresh_socket_def)
qed

section \<open>Timeouts\<close>

lemma comple_ops_outcome:
  "fst (comple_ops ops) = Returned () \<or> fst (comple_ops ops) = Threw (Std_exception ''bad_function_call'')
   \<or> fst (comple_ops ops) = Completed_twice \<and> (\<exists>t b. (t, Sub_done b) \<in> set ops)"
proof (induction ops)
  case (Cons p ops)
  then show ?case by (cases p; cases "snd p") (auto split: prod.splits)
qed simp

lemma comple_ops_twice:
  "(t, Sub_done b) \<in> set ops \<Longrightarrow> (\<And>t. (t, Sub_empty) \<notin> set ops) \<Longrightarrow> fst (comple_ops ops) = Completed_twice"
proof (induction ops)
  case (Cons p ops)
  then show ?case by (cases p; cases "snd p") (auto split: prod.splits)
qed simp

text \<open>An operation that is known to the client, in one of the states in which it can be.\<close>

lemma comple_all_outcome:
  "(\<exists>r. fst (comple_all result cl) = Returned r) \<or> (\<exists>e. fst (comple_all result cl) = Threw e)
   \<or> fst (comple_all result cl) = Completed_twice \<and> (\<exists>t b. (t, Sub_done b) \<in> set (cl_sub_ops cl))"
  using comple_ops_outcome [of "cl_sub_ops cl"] by (auto simp: comple_all_def split: prod.splits)

lemma complete_topic_outcome:
  "(\<exists>r. fst (complete_topic h result cl) = Returned r) \<or> (\<exists>e. fst (complete_topic h result cl) = Threw e)
   \<or> fst (complete_topic h result cl) = Completed_twice \<and> (\<exists>t b. (t, Sub_done b) \<in> set (cl_sub_ops cl))"
proof (cases "map_of (cl_sub_ops cl) (function_id h)")
  case (Some s)
  then show ?thesis using map_of_SomeD [OF Some] by (cases s) (auto simp: complete_topic_def)
qed (simp add: complete_topic_def)

text \<open>
  Waiting for an answer returns or throws, unless a subscription that was served is completed again, or the
  whole of an empty body has come.
\<close>

definition may_end :: "client \<Rightarrow> 'a outcome \<Rightarrow> bool" where
  "may_end cl out \<longleftrightarrow> (\<exists>r. out = Returned r) \<or> (\<exists>e. out = Threw e)
     \<or> out = Completed_twice \<and> (\<exists>t b. (t, Sub_done b) \<in> set (cl_sub_ops cl))
     \<or> out = Out_of_bounds \<and> header_size \<le> length (sk_rx (cl_impl cl))"

lemma wait_response_outcome: "may_end cl (fst (wait_response host lim env R cl))"
proof -
  obtain ec hb s where r1: "async_read header_size (cl_impl cl) = (ec, hb, s)" by (metis prod_cases3)
  define h where "h = (if cl_cross_ending cl then parse_recieved host (header_of_bytes host hb) else header_of_bytes host hb)"
  obtain ec2 bs s2 where r2: "async_read (unat (body_len h)) s = (ec2, bs, s2)" by (metis prod_cases3)
  have o: "may_end cl Out_of_bounds" if "\<not> ec_set ec"
    using async_read_success(1, 3) [OF r1 that] by (simp add: may_end_def)
  have t: "may_end cl (Threw e)" for e by (simp add: may_end_def)
  have a: "may_end cl (fst (comple_all result cl'))" and c: "may_end cl (fst (complete_topic g result cl'))"
    if "cl_sub_ops cl' = cl_sub_ops cl" for result cl' g
    using comple_all_outcome [of result cl'] complete_topic_outcome [of g result cl'] that by (auto simp: may_end_def)
  show ?thesis using r2 [unfolded h_def]
    by (auto simp: wait_response_def r1 Let_def close_socket_def a c o t split: sum.split)
qed

lemma timed_out_socket:
  "fst (timed_out R rcl) = Returned res \<Longrightarrow> timed_out R rcl = (Returned ((init_result R)\<lparr>cr_ec := request_timeout\<rparr>), close_socket (snd rcl))"
  by (auto simp: timed_out_def watchdog_def no_error_def ec_set_def Let_def split: outcome.splits)

lemma client_reset_keeps: "cl_sub_ops (client_reset cl) = cl_sub_ops cl"
  by (simp add: client_reset_def close_socket_def Let_def)

text \<open>
  C30: a call that times out costs the connection. It returns \<open>request_timeout\<close> and closes the socket, so that
  the next call returns \<open>write_error\<close> instead of taking the late answer for its own; after connecting again
  the client is open on the new socket, and a call on it sends its request there. The exceptions are what is not
  defined: the aborted read of the answer completes all subscriptions, one that was served a second time; and an
  empty body that has come in full is read past its end.
\<close>

theorem timeout_costs_connection:
  assumes "call_for host lim env (Some f) key R args cl = (out, cl1)" "cl_should_reset cl" "sk_open sock" "sk_writes sock = []"
  shows "out = Returned ((init_result R)\<lparr>cr_ec := request_timeout\<rparr>) \<and> has_closed cl1 \<and> \<not> sk_open (cl_impl cl1)
      \<and> fst (call_for host lim env None key' R' args' cl1) = Returned ((init_result R')\<lparr>cr_ec := write_error\<rparr>)
      \<and> (\<exists>cl2. connect (Finished no_error) (Finished no_error) sock cl1 = (no_error, cl2) \<and> \<not> has_closed cl2 \<and> cl_impl cl2 = sock
        \<and> call_for host lim env None key' R' args' cl2 = or_watchdog R' (wait_response host lim env R' (cl2\<lparr>cl_impl := sock\<lparr>sk_tx :=
            sk_tx sock @ request_frame host (cl_cross_ending cl2) key' (get_buffer env args')\<rparr>\<rparr>)))
    \<or> (\<exists>n. f = Fired_reading n \<and> (out = Completed_twice \<and> (\<exists>t b. (t, Sub_done b) \<in> set (cl_sub_ops cl))
          \<or> out = Out_of_bounds \<and> header_size \<le> n))"
proof -
  let ?rcl = "aborted_call_impl f host lim env R (init_header\<lparr>function_id := key\<rparr>) args cl"
  have t: "timed_out R ?rcl = (out, cl1)" using assms(1) by (simp add: call_for_def Let_def)
  have kept: "kept cl cl1" using kept_call_for [of cl host lim env "Some f" key R args] assms(1) by simp
  have ends: "(\<exists>r. fst ?rcl = Returned r) \<or> (\<exists>e. fst ?rcl = Threw e)
    \<or> (\<exists>n. f = Fired_reading n \<and> (fst ?rcl = Completed_twice \<and> (\<exists>t b. (t, Sub_done b) \<in> set (cl_sub_ops cl))
        \<or> fst ?rcl = Out_of_bounds \<and> header_size \<le> n))"
  proof (cases f)
    case (Fired_reading n)
    obtain cl' where "?rcl = wait_response host lim env R cl'" "cl_sub_ops cl' = cl_sub_ops cl" "length (sk_rx (cl_impl cl')) \<le> n"
      using Fired_reading by (simp add: aborted_call_impl_def Let_def)
    then show ?thesis
      using wait_response_outcome [of cl' host lim env R] Fired_reading by (auto simp: may_end_def)
  qed (simp_all add: aborted_call_impl_def Let_def)
  show ?thesis
  proof (cases "\<exists>res. out = Returned res")
    case True
    then have out: "out = Returned ((init_result R)\<lparr>cr_ec := request_timeout\<rparr>)" and cl1: "cl1 = close_socket (snd ?rcl)"
      using timed_out_socket [of R ?rcl] t by auto
    have closed: "has_closed cl1" "\<not> sk_open (cl_impl cl1)" "cl_should_reset cl1"
      using kept assms(2) by (simp_all add: cl1 close_socket_def has_closed_def kept_def)
    have refused: "fst (call_for host lim env None key' R' args' cl1) = Returned ((init_result R')\<lparr>cr_ec := write_error\<rparr>)"
      using closed(2) by (simp add: call_for_def or_watchdog_def call_impl_def async_write_def bad_descriptor_def ec_set_def Let_def)
    let ?cl2 = "cl1\<lparr>cl_impl := sock, cl_has_closed := False\<rparr>"
    have conn: "connect (Finished no_error) (Finished no_error) sock cl1 = (no_error, ?cl2)"
      using closed(1, 3) by (simp add: connect_def client_reset_def has_closed_def no_error_def ec_set_def Let_def)
    have "call_for host lim env None key' R' args' ?cl2 = or_watchdog R' (wait_response host lim env R' (requested host env key' args' ?cl2))"
      by (rule call_for_sends) (use assms(3, 4) in simp_all)
    then show ?thesis using out closed refused conn
      by (intro disjI1 conjI exI [of _ ?cl2]) (simp_all add: has_closed_def)
  next
    case False
    with t have "out = fst ?rcl" "\<not> (\<exists>r. fst ?rcl = Returned r)" "\<not> (\<exists>e. fst ?rcl = Threw e)"
      by (auto simp: timed_out_def Let_def split: outcome.splits)
    then show ?thesis using ends by blast
  qed
qed

text \<open>A timeout after three bytes of the answer, on a client with a connection.\<close>

theorem timeout_costs_connection_witness:
  "\<exists>cl1 cl2. call_for Little 100 (default_env True) (Some (Fired_reading 3)) 7 T_int32 [] (rpc_client_new\<lparr>cl_should_reset := True,
        cl_impl := fresh_socket [39, 0, 0, 0], cl_has_closed := False\<rparr>) = (Returned \<lparr>cr_ec = request_timeout, cr_value = V_int 0\<rparr>, cl1)
    \<and> has_closed cl1 \<and> connect (Finished no_error) (Finished no_error) (fresh_socket []) cl1 = (no_error, cl2) \<and> \<not> has_closed cl2"
proof -
  let ?cl = "rpc_client_new\<lparr>cl_should_reset := True, cl_impl := fresh_socket [39, 0, 0, 0], cl_has_closed := False\<rparr>"
  obtain out cl1 where c: "call_for Little 100 (default_env True) (Some (Fired_reading 3)) 7 T_int32 [] ?cl = (out, cl1)" by fastforce
  have s: "cl_should_reset ?cl" "sk_open (fresh_socket [])" "sk_writes (fresh_socket []) = []"
    by (simp_all add: rpc_client_new_def fresh_socket_def)
  have n: "cl_sub_ops ?cl = []" by (simp add: rpc_client_new_def)
  obtain cl2 where "out = Returned ((init_result T_int32)\<lparr>cr_ec := request_timeout\<rparr>)" "has_closed cl1"
    "connect (Finished no_error) (Finished no_error) (fresh_socket []) cl1 = (no_error, cl2)" "\<not> has_closed cl2"
    using timeout_costs_connection [OF c s, of 0 T_void "[]"] n by (auto simp: header_size_def)
  then show ?thesis using c by (intro exI [of _ cl1] exI [of _ cl2]) (simp add: init_result_def)
qed

text \<open>
  On a client with a subscription that was served, a timeout while a call waits for the header of its answer
  is not defined: the read that closing the socket aborts runs \<open>comple_all\<close>, which completes the subscription
  again.
\<close>

theorem timeout_completes_twice:
  assumes "(topic, Sub_done b) \<in> set (cl_sub_ops cl)" "\<And>t. (t, Sub_empty) \<notin> set (cl_sub_ops cl)" "n < header_size"
  shows "fst (call_for host lim env (Some (Fired_reading n)) key R args cl) = Completed_twice"
proof -
  have c: "fst (comple_all result cl') = Completed_twice" if "cl_sub_ops cl' = cl_sub_ops cl" for result cl'
    using that comple_ops_twice [OF assms(1, 2)] by (cases "comple_ops (cl_sub_ops cl)") (simp add: comple_all_def)
  have "fst (wait_response host lim env R cl') = Completed_twice"
    if "cl_sub_ops cl' = cl_sub_ops cl" "length (sk_rx (cl_impl cl')) \<le> n" for cl'
  proof -
    obtain ec hb s where r: "async_read header_size (cl_impl cl') = (ec, hb, s)" by (metis prod_cases3)
    then have "ec_set ec" using async_read_success(1, 3) [OF r] that(2) assms(3) by fastforce
    then show ?thesis using that(1) by (simp add: wait_response_def r Let_def close_socket_def c)
  qed
  then show ?thesis by (simp add: call_for_def aborted_call_impl_def timed_out_def Let_def)
qed

theorem timeout_completes_twice_witness:
  "fst (call_for Little 10 (default_env True) (Some (Fired_reading 0)) 7 T_int32 []
     (rpc_client_new\<lparr>cl_impl := fresh_socket [], cl_sub_ops := [(5, Sub_done True)]\<rparr>)) = Completed_twice"
  by (rule timeout_completes_twice [of 5 True]) (simp_all add: header_size_def)

section \<open>Publications among answers\<close>

text \<open>
  C40: a client cannot call while it is subscribed. Whoever waits for an answer takes the next frame for it:
  when a publication comes first, a call returns the published value as the result of the function, if it has
  the right type, and if the client has received a publication of that topic before, its operation is completed a
  second time, which is not defined. An operation without a handler throws, which the call reports as a timeout.
\<close>

theorem publication_taken_for_answer:
  assumes "sk_open (cl_impl cl)" "sk_writes (cl_impl cl) = []"
    and "sk_rx (cl_impl cl) = response_frame host (cl_cross_ending cl) res topic @ r" "topic \<noteq> 0"
    and "rr_ec res = ok" "unpack env R (rr_data res) = Inr v" "\<not> is_void R"
    and "length (rr_data res) < lim" "length (rr_data res) < 2 ^ 64 - 1"
  shows "fst (call_for host lim env None key R args cl) =
    (case map_of (cl_sub_ops cl) topic of
       Some (Sub_done b) \<Rightarrow> Completed_twice
     | Some Sub_empty \<Rightarrow> Returned ((init_result R)\<lparr>cr_ec := request_timeout\<rparr>)
     | _ \<Rightarrow> Returned \<lparr>cr_ec = ok, cr_value = v\<rparr>)"
proof -
  let ?cl = "requested host env key args cl"
  have rx: "sk_rx (cl_impl ?cl) = response_frame host (cl_cross_ending ?cl) res topic @ r" and op: "sk_open (cl_impl ?cl)"
    using assms(1, 3) by simp_all
  show ?thesis using wait_response_frame [OF op rx assms(8, 9), of env R] assms(4 - 7)
    by (simp add: call_for_sends [OF assms(1, 2)] Let_def complete_topic_def response_header_def init_header_def init_result_def
        or_watchdog_def timed_out_def split: option.split sub_operation.split)
qed

theorem publication_taken_for_answer_witness:
  "fst (call_for Little 100 (default_env True) None 7 T_string [] (rpc_client_new\<lparr>cl_impl := fresh_socket (response_frame Little False
      (rpc_result_of_string [104, 105]) 3), cl_sub_ops := [(3, Sub_done True)]\<rparr>)) = Completed_twice"
  by (subst publication_taken_for_answer [where res = "rpc_result_of_string [104, 105]" and topic = 3 and r = "[]" and v = "V_str [104, 105]"])
     (simp_all add: fresh_socket_def rpc_client_new_def rpc_result_of_string_def rpc_result_init_def rr_data_def unpack_def
       is_fundamental_def is_void_def)

end
