(* ===== verification/Shared_Connections.thy ===== *)
theory Shared_Connections
  imports Broker "HOL-Library.Multiset"
begin

text \<open>
  The server's connections as shared objects (include/rest_rpc/rpc_server.hpp, rpc_connection.hpp). Server
  takes a publication for one step. In the code \<open>publish\<close> copies the table and then suspends at every write,
  so that other publications, requests and closings come in between, and its copy keeps connections
  alive that have left the table. \<open>close\<close> does its work in a lambda that it dispatches to the connection's
  executor: it runs at once on the connection's own thread and is queued otherwise. Here every connection is
  an object in a store, and the table, the publishers and the queued lambdas refer to it by its identifier.
\<close>

section \<open>State\<close>

text \<open>A \<open>publish\<close> under way: the digest of its topic, what it sends, and the connections it still has to look at.\<close>

record publisher =
  pb_topic :: u32
  pb_result :: rpc_result
  pb_left :: "u64 list"

record 'u shared =
  sh_objects :: "u64 \<rightharpoonup> connection"
  sh_table :: "u64 list" \<comment> \<open>the keys of \<open>conns_\<close>\<close>
  sh_reading :: "u64 set"
  sh_posted :: "(u64 \<times> bool) list" \<comment> \<open>lambdas of \<open>close\<close> that have not run, with \<open>need_cb\<close>\<close>
  sh_quits :: "u64 list" \<comment> \<open>the calls of the quit callback\<close>
  sh_publishers :: "publisher list"
  sh_router :: "'u world router"

definition put_object :: "u64 \<Rightarrow> connection \<Rightarrow> 'u shared \<Rightarrow> 'u shared" where
  "put_object i c s = s\<lparr>sh_objects := (sh_objects s)(i \<mapsto> c)\<rparr>"

section \<open>Closing\<close>

text \<open>
  The lambda of \<open>close\<close>. The server's callback erases the connection from the table, if it is there, and
  closes it without callback, which is done in place.
\<close>

definition close_lambda :: "bool \<Rightarrow> u64 \<Rightarrow> 'u shared \<Rightarrow> 'u shared" where
  "close_lambda need_cb i s =
     (case sh_objects s i of
        None \<Rightarrow> s
      | Some c \<Rightarrow>
          let s = put_object i (c\<lparr>c_socket := sk_close (c_socket c), c_has_closed := True\<rparr>) s in
          if need_cb \<and> c_quit_cb c
          then s\<lparr>sh_table := filter (\<lambda>j. j \<noteq> i) (sh_table s), sh_quits := sh_quits s @ [i]\<rparr> else s)"

text \<open>\<open>close\<close>, called on the connection's own thread or elsewhere.\<close>

definition shared_close :: "bool \<Rightarrow> bool \<Rightarrow> u64 \<Rightarrow> 'u shared \<Rightarrow> 'u shared" where
  "shared_close own need_cb i s =
     (case sh_objects s i of
        None \<Rightarrow> s
      | Some c \<Rightarrow>
          if c_has_closed c then s
          else if own then close_lambda need_cb i s
          else s\<lparr>sh_posted := sh_posted s @ [(i, need_cb)]\<rparr>)"

text \<open>A queued lambda runs.\<close>

definition run_posted :: "nat \<Rightarrow> 'u shared \<Rightarrow> 'u shared" where
  "run_posted j s =
     (if j < length (sh_posted s)
      then (case sh_posted s ! j of (i, need_cb) \<Rightarrow>
              close_lambda need_cb i (s\<lparr>sh_posted := take j (sh_posted s) @ drop (Suc j) (sh_posted s)\<rparr>))
      else s)"

section \<open>Publication in slices\<close>

text \<open>
  \<open>response\<close> up to the point where it looks at the error code. The write is started here with all its bytes;
  Write_Pieces has them go out one piece after the other, with other writes on the socket in between.
\<close>

definition response_write :: "endian \<Rightarrow> rpc_result \<Rightarrow> u32 \<Rightarrow> connection \<Rightarrow> 'u world \<Rightarrow> error_code \<times> connection" where
  "response_write host res func_id c w =
     (let c1 = set_last_time w c in
      case async_write (response_frame host (c_cross_ending c) res func_id) (c_socket c1) of
        (ec, s) \<Rightarrow> (ec, c1\<lparr>c_socket := s\<rparr>))"

lemma response_slices:
  "response host res k c w =
     (case response_write host res k c w of (ec, c2) \<Rightarrow> if ec_set ec then (ec, conn_close True c2 w) else (ec, c2, w))"
  by (simp add: response_def response_write_def Let_def split: prod.splits)

text \<open>
  \<open>response\<close> on a shared connection, \<open>publish\<close> up to its first write, and one pass of its loop; \<open>own\<close> is
  whether the code runs on the thread of that connection.
\<close>

definition shared_response ::
  "endian \<Rightarrow> bool \<Rightarrow> rpc_result \<Rightarrow> u32 \<Rightarrow> u64 \<Rightarrow> 'u shared \<Rightarrow> 'u world \<Rightarrow> error_code \<times> 'u shared"
where
  "shared_response host own res k i s w =
     (case sh_objects s i of
        None \<Rightarrow> (bad_descriptor, s)
      | Some c \<Rightarrow>
          (case response_write host res k c w of
             (ec, c1) \<Rightarrow> (ec, if ec_set ec then shared_close own True i (put_object i c1 s) else put_object i c1 s)))"

definition publish_begin :: "u32 \<Rightarrow> rpc_result \<Rightarrow> 'u shared \<Rightarrow> 'u shared" where
  "publish_begin topic res s =
     s\<lparr>sh_publishers := sh_publishers s @ [\<lparr>pb_topic = topic, pb_result = res, pb_left = sh_table s\<rparr>]\<rparr>"

definition publish_to :: "endian \<Rightarrow> bool \<Rightarrow> u32 \<Rightarrow> rpc_result \<Rightarrow> u64 \<Rightarrow> 'u shared \<Rightarrow> 'u world \<Rightarrow> 'u shared" where
  "publish_to host own topic res i s w =
     (if map_option conn_topic_id (sh_objects s i) = Some topic then snd (shared_response host own res topic i s w) else s)"

definition publish_next :: "endian \<Rightarrow> bool \<Rightarrow> nat \<Rightarrow> 'u shared \<Rightarrow> 'u world \<Rightarrow> 'u shared" where
  "publish_next host own k s w =
     (if k < length (sh_publishers s)
      then (let p = sh_publishers s ! k in
            case pb_left p of
              [] \<Rightarrow> s
            | i # left \<Rightarrow> publish_to host own (pb_topic p) (pb_result p) i
                            (s\<lparr>sh_publishers := (sh_publishers s)[k := p\<lparr>pb_left := left\<rparr>]\<rparr>) w)
      else s)"

section \<open>The other operations\<close>

text \<open>The answer of a context, which keeps its connection alive too.\<close>

definition shared_answer ::
  "endian \<Rightarrow> bool \<Rightarrow> codec_env \<Rightarrow> (ctype \<times> cval) list \<Rightarrow> rpc_context \<Rightarrow> 'u shared \<Rightarrow> 'u world
     \<Rightarrow> error_code \<times> rpc_context \<times> 'u shared"
where
  "shared_answer host own env args ctx s w =
     (if ctx_has_response ctx then (make_error_code has_response, ctx, s)
      else (case ctx_conn ctx of
              None \<Rightarrow> (make_error_code rpc_context_init_failed, ctx, s)
            | Some i \<Rightarrow> (case shared_response host own (packed_result env args) 0 i s w of
                           (ec, s') \<Rightarrow> (ec, ctx\<lparr>ctx_has_response := True\<rparr>, s'))))"

text \<open>A new connection, under an identifier of its own.\<close>

definition shared_accept :: "u64 \<Rightarrow> connection \<Rightarrow> 'u shared \<Rightarrow> 'u shared" where
  "shared_accept i c s =
     (put_object i c s)\<lparr>sh_table := i # sh_table s, sh_reading := insert i (sh_reading s)\<rparr>"

text \<open>A pass of a connection's read loop, on its own thread: what it closes it closes in place.\<close>

definition shared_read :: "endian \<Rightarrow> nat \<Rightarrow> u64 \<Rightarrow> 'u shared \<Rightarrow> 'u world \<Rightarrow> 'u shared \<times> 'u world" where
  "shared_read host lim i s w =
     (case sh_objects s i of
        None \<Rightarrow> (s, w)
      | Some c \<Rightarrow>
          if i \<notin> sh_reading s then (s, w)
          else (case read_request host lim (sh_router s) c w of
             (r, c', w') \<Rightarrow>
               ((put_object i c' s)\<lparr>sh_table := filter (\<lambda>j. j \<notin> set (w_quits w')) (sh_table s),
                  sh_quits := sh_quits s @ w_quits w',
                  sh_reading := (if r = None then sh_reading s else sh_reading s - {i})\<rparr>,
                w'\<lparr>w_quits := []\<rparr>)))"

text \<open>\<open>check_timeout\<close> and \<open>stop\<close>, which run on other threads, take connections out of the table and close them.\<close>

definition shared_sweep :: "(u64 \<Rightarrow> bool) \<Rightarrow> (u64 \<Rightarrow> bool) \<Rightarrow> 'u shared \<Rightarrow> 'u shared" where
  "shared_sweep own old s =
     fold (\<lambda>i. shared_close (own i) False i) (filter old (sh_table s)) (s\<lparr>sh_table := filter (\<lambda>i. \<not> old i) (sh_table s)\<rparr>)"

definition idle :: "int \<Rightarrow> 'u world \<Rightarrow> 'u shared \<Rightarrow> u64 \<Rightarrow> bool" where
  "idle dur w s i = (case sh_objects s i of None \<Rightarrow> False | Some c \<Rightarrow> w_now w - get_last_rwtime c > dur)"

definition shared_check_timeout :: "(u64 \<Rightarrow> bool) \<Rightarrow> int \<Rightarrow> 'u world \<Rightarrow> 'u shared \<Rightarrow> 'u shared" where
  "shared_check_timeout own dur w s = shared_sweep own (idle dur w s) s"

definition shared_stop :: "(u64 \<Rightarrow> bool) \<Rightarrow> 'u shared \<Rightarrow> 'u shared" where
  "shared_stop own s = shared_sweep own (\<lambda>_. True) s"

section \<open>Runs\<close>

text \<open>
  The events of the server's connections, in any order. The labels say what the deliveries depend on: which
  publication began with which connections, and which connection subscribed.
\<close>

datatype shared_label =
    Sh_began u32 rpc_result "u64 list"
  | Sh_subscribed u64
  | Sh_other

definition read_label :: "endian \<Rightarrow> nat \<Rightarrow> u64 \<Rightarrow> 'u shared \<Rightarrow> 'u world \<Rightarrow> shared_label" where
  "read_label host lim i s w =
     (case sh_objects s i of
        None \<Rightarrow> Sh_other
      | Some c \<Rightarrow> if i \<in> sh_reading s \<and> fst (read_frame host lim c w) = Frame_topic then Sh_subscribed i else Sh_other)"

text \<open>The connection that the accept loop makes.\<close>

definition fresh_object :: "u64 \<Rightarrow> connection \<Rightarrow> 'u shared \<Rightarrow> bool" where
  "fresh_object i c s \<longleftrightarrow> sh_objects s i = None \<and> c_id c = i \<and> c_quit_cb c \<and> \<not> c_has_closed c
     \<and> c_topic_id c = 0 \<and> sk_tx (c_socket c) = []"

inductive shared_step ::
  "endian \<Rightarrow> nat \<Rightarrow> shared_label \<Rightarrow> 'u shared \<times> 'u world \<Rightarrow> 'u shared \<times> 'u world \<Rightarrow> bool"
  for host :: endian and lim :: nat
where
  sh_accept: "fresh_object i c s \<Longrightarrow> shared_step host lim Sh_other (s, w) (shared_accept i c s, w)"
| sh_read: "shared_read host lim i s w = (s', w') \<Longrightarrow> shared_step host lim (read_label host lim i s w) (s, w) (s', w')"
| sh_answer: "shared_answer host own env args ctx s w = (ec, ctx', s') \<Longrightarrow> shared_step host lim Sh_other (s, w) (s', w)"
| sh_begin: "shared_step host lim (Sh_began topic res (sh_table s)) (s, w) (publish_begin topic res s, w)"
| sh_next: "shared_step host lim Sh_other (s, w) (publish_next host own k s w, w)"
| sh_lambda: "shared_step host lim Sh_other (s, w) (run_posted j s, w)"
| sh_timeout: "shared_step host lim Sh_other (s, w) (shared_check_timeout owns dur w s, w)"
| sh_stop: "shared_step host lim Sh_other (s, w) (shared_stop owns s, w)"
| sh_handlers: "quits_kept rt \<Longrightarrow> shared_step host lim Sh_other (s, w) (s\<lparr>sh_router := rt\<rparr>, w)"
| sh_clock: "w_now w \<le> t \<Longrightarrow> shared_step host lim Sh_other (s, w) (s, w\<lparr>w_now := t\<rparr>)"

inductive shared_run ::
  "endian \<Rightarrow> nat \<Rightarrow> 'u shared \<times> 'u world \<Rightarrow> shared_label list \<Rightarrow> 'u shared \<times> 'u world \<Rightarrow> bool"
  for host :: endian and lim :: nat and sw :: "'u shared \<times> 'u world"
where
  shared_nil: "shared_run host lim sw [] sw"
| shared_snoc: "shared_run host lim sw es sw1 \<Longrightarrow> shared_step host lim e sw1 sw2 \<Longrightarrow> shared_run host lim sw (es @ [e]) sw2"

section \<open>The table and the callbacks\<close>

text \<open>
  What every identifier stands for: an object that reports its end, closed only with its socket and only
  outside of the table; callbacks were made only for closed ones.
\<close>

definition object_ok :: "'u shared \<Rightarrow> u64 \<Rightarrow> connection \<Rightarrow> bool" where
  "object_ok s i c \<longleftrightarrow> c_id c = i \<and> c_quit_cb c \<and> (c_has_closed c \<longrightarrow> \<not> sk_open (c_socket c) \<and> i \<notin> set (sh_table s))"

definition known :: "'u shared \<Rightarrow> u64 \<Rightarrow> bool" where
  "known s i \<longleftrightarrow> sh_objects s i \<noteq> None"

definition closed_object :: "'u shared \<Rightarrow> u64 \<Rightarrow> bool" where
  "closed_object s i \<longleftrightarrow> (case sh_objects s i of None \<Rightarrow> False | Some c \<Rightarrow> c_has_closed c)"

definition refers :: "'u shared \<Rightarrow> u64 set" where
  "refers s = set (sh_table s) \<union> fst ` set (sh_posted s) \<union> set (sh_quits s) \<union> (\<Union>p \<in> set (sh_publishers s). set (pb_left p))"

definition shared_inv :: "'u shared \<Rightarrow> bool" where
  "shared_inv s \<longleftrightarrow> distinct (sh_table s) \<and> (\<forall>i c. sh_objects s i = Some c \<longrightarrow> object_ok s i c)
     \<and> (\<forall>i \<in> refers s. known s i)
     \<and> (\<forall>i. (i, False) \<in> set (sh_posted s) \<longrightarrow> i \<notin> set (sh_table s))
     \<and> (\<forall>i \<in> set (sh_quits s). closed_object s i)
     \<and> (\<forall>p \<in> set (sh_publishers s). distinct (pb_left p)) \<and> quits_kept (sh_router s)"

lemma known_cong: "sh_objects s' = sh_objects s \<Longrightarrow> known s' = known s"
  and closed_object_cong: "sh_objects s' = sh_objects s \<Longrightarrow> closed_object s' = closed_object s"
  by (auto simp: known_def closed_object_def)

lemma object_updates [simp]:
  "known (put_object i c s) j \<longleftrightarrow> j = i \<or> known s j"
  "closed_object (put_object i c s) j \<longleftrightarrow> (if j = i then c_has_closed c else closed_object s j)"
  "sh_objects (put_object i c s) = (sh_objects s)(i \<mapsto> c)" "sh_table (put_object i c s) = sh_table s"
  "sh_reading (put_object i c s) = sh_reading s" "sh_posted (put_object i c s) = sh_posted s"
  "sh_quits (put_object i c s) = sh_quits s" "sh_publishers (put_object i c s) = sh_publishers s"
  "sh_router (put_object i c s) = sh_router s"
  by (auto simp: put_object_def known_def closed_object_def)

lemma shared_invI:
  assumes "distinct (sh_table s)" "\<And>i c. sh_objects s i = Some c \<Longrightarrow> object_ok s i c"
    and "\<And>i. i \<in> refers s \<Longrightarrow> known s i" "\<And>i. (i, False) \<in> set (sh_posted s) \<Longrightarrow> i \<notin> set (sh_table s)"
    and "\<And>i. i \<in> set (sh_quits s) \<Longrightarrow> closed_object s i" "\<And>p. p \<in> set (sh_publishers s) \<Longrightarrow> distinct (pb_left p)"
    and "quits_kept (sh_router s)"
  shows "shared_inv s"
  using assms by (simp add: shared_inv_def)

lemma shared_invD:
  assumes "shared_inv s"
  shows "distinct (sh_table s)" "sh_objects s i = Some c \<Longrightarrow> object_ok s i c" "i \<in> refers s \<Longrightarrow> known s i"
    "(i, False) \<in> set (sh_posted s) \<Longrightarrow> i \<notin> set (sh_table s)" "i \<in> set (sh_quits s) \<Longrightarrow> closed_object s i"
    "p \<in> set (sh_publishers s) \<Longrightarrow> distinct (pb_left p)" "quits_kept (sh_router s)"
  using assms by (simp_all add: shared_inv_def)

text \<open>
  An invariant state stays one when an object changes without being opened, when it leaves the table as it is
  closed, and when references are dropped or made to what is known.
\<close>

lemma shared_inv_update:
  assumes "shared_inv s" "sh_objects s i = Some c" "c_id c' = c_id c" "c_quit_cb c' = c_quit_cb c"
    and "c_has_closed c \<longrightarrow> c_has_closed c'" "c_has_closed c' \<longrightarrow> \<not> sk_open (c_socket c') \<and> i \<notin> set (sh_table s')"
    and "sh_objects s' = (sh_objects s)(i \<mapsto> c')" "set (sh_table s') \<subseteq> set (sh_table s)" "distinct (sh_table s')"
    and "refers s' \<subseteq> refers s \<union> {i}" "\<And>j. (j, False) \<in> set (sh_posted s') \<Longrightarrow> j \<notin> set (sh_table s')"
    and "\<And>j. j \<in> set (sh_quits s') \<Longrightarrow> j \<in> set (sh_quits s) \<or> j = i \<and> c_has_closed c'"
    and "\<And>p. p \<in> set (sh_publishers s') \<Longrightarrow> distinct (pb_left p)" "quits_kept (sh_router s')"
  shows "shared_inv s'"
proof (rule shared_invI)
  note D = shared_invD [OF assms(1)]
  show "object_ok s' j d" if "sh_objects s' j = Some d" for j d
    using that D(2) [of j d] D(2) [OF assms(2)] assms(3 - 8) by (cases "j = i") (auto simp: object_ok_def)
  show "known s' j" if "j \<in> refers s'" for j
    using that D(3) [of j] assms(7, 10) by (auto simp: known_def)
  show "closed_object s' j" if "j \<in> set (sh_quits s')" for j
    using assms(12) [OF that] D(5) [of j] assms(2, 5, 7) by (auto simp: closed_object_def)
qed (use assms in auto)

lemma shared_inv_drop:
  assumes "shared_inv s" "sh_objects s' = sh_objects s" "set (sh_table s') \<subseteq> set (sh_table s)" "distinct (sh_table s')"
    and "\<And>j. j \<in> refers s' \<Longrightarrow> j \<in> refers s \<or> known s j" "\<And>j. (j, False) \<in> set (sh_posted s') \<Longrightarrow> j \<notin> set (sh_table s')"
    and "set (sh_quits s') \<subseteq> set (sh_quits s)" "\<And>p. p \<in> set (sh_publishers s') \<Longrightarrow> distinct (pb_left p)"
    and "quits_kept (sh_router s')"
  shows "shared_inv s'"
proof (rule shared_invI)
  note D = shared_invD [OF assms(1)]
  show "object_ok s' j d" if "sh_objects s' j = Some d" for j d
    using that D(2) [of j d] assms(2, 3) by (auto simp: object_ok_def)
  show "known s' j" if "j \<in> refers s'" for j
    using assms(5) [OF that] D(3) [of j] assms(2) by (auto simp: known_def)
  show "closed_object s' j" if "j \<in> set (sh_quits s')" for j
    using that assms(2, 7) D(5) [of j] by (auto simp: closed_object_def)
qed (use assms in auto)

text \<open>An operation on an object that closes nothing, the lambda of \<open>close\<close>, and \<open>close\<close> itself.\<close>

lemma put_object_inv:
  assumes "shared_inv s" "sh_objects s i = Some c" "c_id c' = c_id c" "c_quit_cb c' = c_quit_cb c"
    "c_has_closed c' = c_has_closed c" "sk_open (c_socket c') = sk_open (c_socket c)"
  shows "shared_inv (put_object i c' s)"
  by (rule shared_inv_update [OF assms(1, 2)])
     (use assms shared_invD [OF assms(1)] in \<open>auto simp: object_ok_def refers_def\<close>)

lemma close_lambda_inv:
  assumes "shared_inv s" "need_cb \<or> i \<notin> set (sh_table s)"
  shows "shared_inv (close_lambda need_cb i s)"
proof (cases "sh_objects s i")
  case (Some c)
  note D = shared_invD [OF assms(1)]
  show ?thesis
    by (rule shared_inv_update [OF assms(1) Some, where c' = "c\<lparr>c_socket := sk_close (c_socket c), c_has_closed := True\<rparr>"])
       (use assms(2) D(1, 4, 6, 7) D(2) [OF Some] Some in \<open>auto simp: close_lambda_def Let_def object_ok_def refers_def split: if_splits\<close>)
qed (use assms in \<open>simp add: close_lambda_def\<close>)

lemma close_lambda_table: "set (sh_table (close_lambda need_cb i s)) \<subseteq> set (sh_table s)"
  by (auto simp: close_lambda_def put_object_def Let_def split: option.split)

lemma shared_close_inv:
  assumes "shared_inv s" "need_cb \<or> i \<notin> set (sh_table s)"
  shows "shared_inv (shared_close own need_cb i s)"
proof (cases "\<exists>c. sh_objects s i = Some c \<and> \<not> c_has_closed c \<and> \<not> own")
  case True
  note D = shared_invD [OF assms(1)]
  have "known s i" using True by (auto simp: known_def)
  then have "shared_inv (s\<lparr>sh_posted := sh_posted s @ [(i, need_cb)]\<rparr>)"
    by (intro shared_inv_drop [OF assms(1)]) (use assms(2) D in \<open>auto simp: refers_def\<close>)
  then show ?thesis using True by (auto simp: shared_close_def)
qed (use assms close_lambda_inv [OF assms] in \<open>auto simp: shared_close_def split: option.split\<close>)

lemma shared_close_table: "set (sh_table (shared_close own need_cb i s)) \<subseteq> set (sh_table s)"
  using close_lambda_table by (auto simp: shared_close_def split: option.split)

lemma response_write_frame:
  assumes "response_write host res k c w = (ec, c')"
  shows "c_id c' = c_id c" "c_quit_cb c' = c_quit_cb c" "c_has_closed c' = c_has_closed c"
    "sk_open (c_socket c') = sk_open (c_socket c)" "c_topic_id c' = c_topic_id c" "c_cross_ending c' = c_cross_ending c"
  using assms by (auto simp: response_write_def Let_def split: prod.splits dest: async_write_frame)

lemma shared_response_inv:
  assumes "shared_inv s"
  shows "shared_inv (snd (shared_response host own res k i s w))"
proof (cases "sh_objects s i")
  case (Some c)
  obtain ec c' where r: "response_write host res k c w = (ec, c')" by fastforce
  have "shared_inv (put_object i c' s)"
    by (rule put_object_inv [OF assms Some]) (rule response_write_frame [OF r])+
  then show ?thesis using Some r by (simp add: shared_response_def shared_close_inv)
qed (use assms in \<open>simp add: shared_response_def\<close>)

lemma publish_to_inv: "shared_inv s \<Longrightarrow> shared_inv (publish_to host own topic res i s w)"
  by (simp add: publish_to_def shared_response_inv)

lemma publish_next_inv:
  assumes "shared_inv s"
  shows "shared_inv (publish_next host own k s w)"
proof (cases "k < length (sh_publishers s) \<and> pb_left (sh_publishers s ! k) \<noteq> []")
  case True
  define p where "p = sh_publishers s ! k"
  obtain i left where l: "pb_left p = i # left" using True by (auto simp: p_def neq_Nil_conv)
  have p: "p \<in> set (sh_publishers s)" using True by (simp add: p_def)
  define ps where "ps = (sh_publishers s)[k := p\<lparr>pb_left := left\<rparr>]"
  have ps: "q = p\<lparr>pb_left := left\<rparr> \<or> q \<in> set (sh_publishers s)" if "q \<in> set ps" for q
    using that set_update_subset_insert [of "sh_publishers s" k "p\<lparr>pb_left := left\<rparr>"] by (auto simp: ps_def)
  note D = shared_invD [OF assms]
  have "shared_inv (s\<lparr>sh_publishers := ps\<rparr>)"
  proof (rule shared_inv_drop [OF assms])
    show "distinct (pb_left q)" if "q \<in> set (sh_publishers (s\<lparr>sh_publishers := ps\<rparr>))" for q
      using that ps [of q] D(6) [OF p] D(6) [of q] l by auto
    show "j \<in> refers s \<or> known s j" if "j \<in> refers (s\<lparr>sh_publishers := ps\<rparr>)" for j
      using that ps p l by (fastforce simp: refers_def)
  qed (use D(1, 4, 7) in simp_all)
  then show ?thesis using True l by (simp add: publish_next_def p_def [symmetric] ps_def Let_def publish_to_inv)
qed (use assms in \<open>auto simp: publish_next_def Let_def split: list.split\<close>)

lemma run_posted_inv:
  assumes "shared_inv s"
  shows "shared_inv (run_posted j s)"
proof (cases "j < length (sh_posted s)")
  case True
  obtain i cb where p: "sh_posted s ! j = (i, cb)" by fastforce
  define rest where "rest = take j (sh_posted s) @ drop (Suc j) (sh_posted s)"
  have sub: "set rest \<subseteq> set (sh_posted s)" using set_take_subset set_drop_subset by (fastforce simp: rest_def)
  note D = shared_invD [OF assms]
  have "(i, cb) \<in> set (sh_posted s)" using True p by (metis nth_mem)
  then have "cb \<or> i \<notin> set (sh_table s)" using D(4) [of i] by (cases cb) auto
  moreover have "shared_inv (s\<lparr>sh_posted := rest\<rparr>)"
    by (rule shared_inv_drop [OF assms]) (use D(1, 4, 6, 7) sub in \<open>auto simp: refers_def\<close>)
  ultimately show ?thesis using True p by (simp add: run_posted_def rest_def [symmetric] close_lambda_inv)
qed (use assms in \<open>simp add: run_posted_def\<close>)

lemma sweep_fold_inv:
  assumes "shared_inv s" "set is \<inter> set (sh_table s) = {}"
  shows "shared_inv (fold (\<lambda>i. shared_close (own i) False i) is s)"
  using assms
proof (induction "is" arbitrary: s)
  case (Cons i "is")
  have "set is \<inter> set (sh_table (shared_close (own i) False i s)) = {}"
    using Cons.prems(2) shared_close_table [of "own i" False i s] by auto
  then show ?case using Cons.IH [OF shared_close_inv] Cons.prems by simp
qed simp

lemma shared_sweep_inv:
  assumes "shared_inv s"
  shows "shared_inv (shared_sweep own old s)"
proof -
  have "shared_inv (s\<lparr>sh_table := filter (\<lambda>i. \<not> old i) (sh_table s)\<rparr>)"
    by (rule shared_inv_drop [OF assms]) (use shared_invD [OF assms] in \<open>auto simp: refers_def\<close>)
  then show ?thesis unfolding shared_sweep_def by (rule sweep_fold_inv) auto
qed

lemma read_request_open:
  assumes "read_request host lim rt c w = (r, c', w')" "sk_open (c_socket c')"
  shows "sk_open (c_socket c)"
  using assms
  by (auto simp: read_request_def read_frame_def route_request_def response_def conn_close_def Let_def
      split: prod.splits if_splits frame.splits dest!: async_read_open async_write_frame)

lemma read_request_closed:
  assumes "read_request host lim rt c w = (r, c', w')" "quits_kept rt" "c_has_closed c \<longrightarrow> \<not> sk_open (c_socket c)"
  shows "c_has_closed c' \<longrightarrow> \<not> sk_open (c_socket c')"
  using read_request_step [OF assms(2), of c w host lim] read_request_open [OF assms(1)] assms
  by (auto simp: close_step_def conn_inv_def)

lemma shared_read_inv:
  assumes "shared_inv s" "w_quits w = []" "shared_read host lim i s w = (s', w')"
  shows "shared_inv s' \<and> w_quits w' = []"
proof (cases "\<exists>c. sh_objects s i = Some c \<and> i \<in> sh_reading s")
  case True
  then obtain c where c: "sh_objects s i = Some c" "i \<in> sh_reading s" by blast
  obtain r c' w1 where r: "read_request host lim (sh_router s) c w = (r, c', w1)" by (metis prod_cases3)
  have kept: "quits_kept (sh_router s)" using assms(1) by (simp add: shared_inv_def)
  have ok: "object_ok s i c" by (rule shared_invD(2) [OF assms(1) c(1)])
  have st: "close_step (c, w) (c', w1)" "told_step (c, w) (c', w1)"
    using read_request_step [OF kept, of c w host lim] read_request_told [OF kept, of c w host lim] r by simp_all
  define out where "out = (\<not> c_has_closed c \<and> c_has_closed c')"
  have q: "w_quits w1 = (if out then [i] else [])" and id: "c_id c' = i" "c_quit_cb c'"
    using st ok assms(2) by (auto simp: close_step_def told_step_def object_ok_def out_def)
  have closed: "c_has_closed c \<longrightarrow> c_has_closed c'" and inv: "c_has_closed c' \<longrightarrow> \<not> sk_open (c_socket c')"
    using st(1) ok read_request_closed [OF r kept] by (auto simp: close_step_def object_ok_def)
  have s': "s' = (put_object i c' s)\<lparr>sh_table := filter (\<lambda>j. j \<notin> set (w_quits w1)) (sh_table s),
      sh_quits := sh_quits s @ w_quits w1, sh_reading := (if r = None then sh_reading s else sh_reading s - {i})\<rparr>"
    "w' = w1\<lparr>w_quits := []\<rparr>"
    using assms(3) c r by (simp_all add: shared_read_def)
  have "shared_inv s'"
    by (rule shared_inv_update [OF assms(1) c(1), of c'])
       (use shared_invD [OF assms(1)] ok id closed inv q in \<open>auto simp: s'(1) object_ok_def refers_def out_def split: if_splits\<close>)
  then show ?thesis using s'(2) by simp
qed (use assms in \<open>auto simp: shared_read_def split: option.splits if_splits\<close>)

text \<open>A server between two events, when nothing is under way.\<close>

definition shared_of :: "'u server \<Rightarrow> 'u shared" where
  "shared_of sv =
     \<lparr>sh_objects = map_of (sv_conns sv), sh_table = map fst (sv_conns sv), sh_reading = sv_reading sv, sh_posted = [],
      sh_quits = [], sh_publishers = [], sh_router = sv_router sv\<rparr>"

lemma shared_of_inv:
  assumes "server_inv (sv, w)"
  shows "shared_inv (shared_of sv)"
proof (rule shared_invI)
  have t: "table_ok (sv_conns sv)" and k: "table_keeps_quits (sv_router sv)" using assms by (simp_all add: server_inv_def)
  show "object_ok (shared_of sv) i c" if "sh_objects (shared_of sv) i = Some c" for i c
    using that t by (auto simp: shared_of_def object_ok_def table_ok_def dest!: map_of_SomeD)
  show "known (shared_of sv) i" if "i \<in> refers (shared_of sv)" for i
    using that by (auto simp: shared_of_def refers_def known_def map_of_eq_None_iff)
qed (use assms in \<open>auto simp: shared_of_def server_inv_def table_ok_def table_keeps_quits\<close>)

lemma shared_accept_inv:
  assumes "shared_inv s" "fresh_object i c s"
  shows "shared_inv (shared_accept i c s)"
proof (rule shared_invI)
  note D = shared_invD [OF assms(1)]
  have "\<not> known s i" using assms(2) by (simp add: fresh_object_def known_def)
  then have n: "i \<notin> refers s" using D(3) by blast
  show "distinct (sh_table (shared_accept i c s))" using n D(1) by (simp add: shared_accept_def refers_def)
  show "object_ok (shared_accept i c s) j d" if "sh_objects (shared_accept i c s) j = Some d" for j d
    using that D(2) [of j d] assms(2) by (cases "j = i") (auto simp: shared_accept_def object_ok_def fresh_object_def)
  show "known (shared_accept i c s) j" if "j \<in> refers (shared_accept i c s)" for j
    using that D(3) [of j] by (auto simp: shared_accept_def refers_def known_def)
  show "j \<notin> set (sh_table (shared_accept i c s))" if "(j, False) \<in> set (sh_posted (shared_accept i c s))" for j
  proof -
    have "(j, False) \<in> set (sh_posted s)" using that by (simp add: shared_accept_def)
    moreover from this have "j \<in> refers s" by (force simp: refers_def)
    ultimately show ?thesis using D(4) n by (auto simp: shared_accept_def)
  qed
  show "closed_object (shared_accept i c s) j" if "j \<in> set (sh_quits (shared_accept i c s))" for j
    using that D(5) [of j] n by (auto simp: shared_accept_def refers_def closed_object_def)
qed (use shared_invD [OF assms(1)] in \<open>auto simp: shared_accept_def\<close>)

lemma publish_begin_inv:
  assumes "shared_inv s"
  shows "shared_inv (publish_begin topic res s)"
proof (rule shared_inv_drop [OF assms])
  note D = shared_invD [OF assms]
  show "distinct (pb_left p)" if "p \<in> set (sh_publishers (publish_begin topic res s))" for p
    using that D(1) D(6) [of p] by (auto simp: publish_begin_def)
  show "j \<in> refers s \<or> known s j" if "j \<in> refers (publish_begin topic res s)" for j
    using that by (auto simp: publish_begin_def refers_def)
qed (use shared_invD(1, 4, 7) [OF assms] in \<open>simp_all add: publish_begin_def\<close>)

lemma shared_answer_cases:
  assumes "shared_answer host own env args ctx s w = (ec, ctx', s')"
  shows "s' = s \<or> (\<exists>i. s' = snd (shared_response host own (packed_result env args) 0 i s w))"
proof (cases "ctx_has_response ctx")
  case False
  then show ?thesis using assms
    by (cases "ctx_conn ctx"; cases "shared_response host own (packed_result env args) 0 (the (ctx_conn ctx)) s w")
       (auto simp: shared_answer_def intro!: exI [of _ "the (ctx_conn ctx)"])
qed (use assms in \<open>simp add: shared_answer_def\<close>)

lemma shared_step_inv:
  assumes "shared_step host lim e sw sw'" "shared_inv (fst sw)" "w_quits (snd sw) = []"
  shows "shared_inv (fst sw') \<and> w_quits (snd sw') = []"
  using assms
proof (induction rule: shared_step.induct)
  case (sh_read i s w s' w')
  then show ?case using shared_read_inv [OF _ _ sh_read(1)] by simp
next
  case (sh_answer own env args ctx s w ec ctx' s')
  then show ?case
    using shared_answer_cases [OF sh_answer(1)] shared_response_inv [where s = s and host = host and own = own] by auto
next
  case (sh_handlers rt s w)
  then have s: "shared_inv s" by simp
  have "shared_inv (s\<lparr>sh_router := rt\<rparr>)"
    by (rule shared_inv_drop [OF s]) (use shared_invD(1, 4, 6) [OF s] sh_handlers in \<open>auto simp: refers_def\<close>)
  then show ?case using sh_handlers by simp
qed (simp_all add: shared_accept_inv publish_begin_inv publish_next_inv run_posted_inv shared_check_timeout_def shared_stop_def
      shared_sweep_inv)

lemma shared_run_inv:
  assumes "shared_run host lim sw es sw'" "shared_inv (fst sw)" "w_quits (snd sw) = []"
  shows "shared_inv (fst sw') \<and> w_quits (snd sw') = []"
  using assms
proof (induction rule: shared_run.induct)
  case (shared_snoc es sw1 e sw2)
  then show ?case using shared_step_inv [OF shared_snoc.hyps(2)] by blast
qed simp

text \<open>
  C9: the table stays right however the closings are spread over the threads. From any state a server can
  reach, and however publications, reads, answers, timeouts and queued closings follow one another, the table
  holds every connection once and never a closed one; a connection whose end the server was told of is
  closed and out of the table; and one whose closing is queued without callback has left it already.
\<close>

theorem shared_table_consistent:
  assumes "(server_step host lim)\<^sup>*\<^sup>* (rpc_server_new address port n, world0 u) (sv, w0)"
    and "shared_run host lim (shared_of sv, w0) es (s, w)"
  shows "distinct (sh_table s)
    \<and> (\<forall>i \<in> set (sh_table s). \<exists>c. sh_objects s i = Some c \<and> c_id c = i \<and> \<not> c_has_closed c)
    \<and> (\<forall>i \<in> set (sh_quits s). i \<notin> set (sh_table s)
          \<and> (\<exists>c. sh_objects s i = Some c \<and> c_has_closed c \<and> \<not> sk_open (c_socket c)))
    \<and> (\<forall>i. (i, False) \<in> set (sh_posted s) \<longrightarrow> i \<notin> set (sh_table s))"
proof -
  have sv: "server_inv (sv, w0)" by (rule server_reachable_inv [OF assms(1) server_inv_new])
  then have "w_quits w0 = []" by (simp add: server_inv_def)
  then have inv: "shared_inv s" using shared_run_inv [OF assms(2)] shared_of_inv [OF sv] by simp
  note D = shared_invD [OF inv]
  have "\<exists>c. sh_objects s i = Some c \<and> c_id c = i \<and> \<not> c_has_closed c" if "i \<in> set (sh_table s)" for i
    using D(3) [of i] D(2) [of i] that by (fastforce simp: known_def object_ok_def refers_def)
  moreover have "i \<notin> set (sh_table s) \<and> (\<exists>c. sh_objects s i = Some c \<and> c_has_closed c \<and> \<not> sk_open (c_socket c))"
    if "i \<in> set (sh_quits s)" for i
    using D(5) [OF that] D(2) [of i] by (auto simp: closed_object_def object_ok_def split: option.splits)
  ultimately show ?thesis using D(1, 4) by blast
qed

text \<open>
  The guard of \<open>close\<close> is looked at where it is called and set where the lambda runs. Two answers by contexts
  whose writes fail, on another thread than the connection's, both find it unset; both lambdas make the callback.
\<close>

lemma failing_answer_step:
  assumes "sh_objects s i = Some c" "sk_open (c_socket c)" "sk_writes (c_socket c) = Some (e, 0) # ws"
    and "\<not> c_has_closed c" "\<not> c_check_timeout c"
  shows "shared_step host lim Sh_other (s, w)
    ((put_object i (c\<lparr>c_socket := (c_socket c)\<lparr>sk_writes := ws\<rparr>\<rparr>) s)\<lparr>sh_posted := sh_posted s @ [(i, True)]\<rparr>, w)"
proof -
  have "\<exists>ec. shared_answer host False (default_env True) [] \<lparr>ctx_conn = Some i, ctx_has_response = False\<rparr> s w
    = (ec, \<lparr>ctx_conn = Some i, ctx_has_response = True\<rparr>,
       (put_object i (c\<lparr>c_socket := (c_socket c)\<lparr>sk_writes := ws\<rparr>\<rparr>) s)\<lparr>sh_posted := sh_posted s @ [(i, True)]\<rparr>)"
    using assms
    by (simp add: shared_answer_def shared_response_def response_write_def set_last_time_def async_write_def shared_close_def Let_def)
  then show ?thesis by (blast intro: sh_answer)
qed

definition failing_connection :: connection where
  "failing_connection = set_quit_callback
     (new_connection ((fresh_socket [])\<lparr>sk_writes := [Some (bad_descriptor, 0), Some (bad_descriptor, 0)]\<rparr>) 0 False 0)"

lemma quit_callback_repeated:
  "\<exists>es s. shared_run host lim (shared_of (rpc_server_new address port n), world0 u) es (s, world0 u)
    \<and> sh_quits s = [0, 0] \<and> sh_table s = []"
proof -
  let ?sv = "rpc_server_new address port n :: 'a server" and ?w = "world0 u" and ?c = failing_connection
  define s0 where "s0 = shared_of ?sv"
  have s0: "sh_objects s0 = Map.empty" "sh_table s0 = []" "sh_posted s0 = []" "sh_quits s0 = []"
    by (simp_all add: s0_def shared_of_def rpc_server_new_def Let_def)
  note c = failing_connection_def set_quit_callback_def new_connection_def fresh_socket_def
  define s1 where "s1 = shared_accept 0 ?c s0"
  have "fresh_object 0 ?c s0" using s0 by (simp add: fresh_object_def c)
  from shared_snoc [OF shared_nil sh_accept [OF this]]
  have r1: "shared_run host lim (s0, ?w) ([] @ [Sh_other]) (s1, ?w)" by (simp add: s1_def)
  have s1: "sh_objects s1 0 = Some ?c" "sh_table s1 = [0]" "sh_posted s1 = []" "sh_quits s1 = []"
    using s0 by (simp_all add: s1_def shared_accept_def)
  define s2 where "s2 = (put_object 0 (?c\<lparr>c_socket := (c_socket ?c)\<lparr>sk_writes := [Some (bad_descriptor, 0)]\<rparr>\<rparr>) s1)
    \<lparr>sh_posted := sh_posted s1 @ [(0, True)]\<rparr>"
  have "shared_step host lim Sh_other (s1, ?w) (s2, ?w)"
    unfolding s2_def by (rule failing_answer_step [OF s1(1)]) (simp_all add: c)
  note r2 = shared_snoc [OF r1 this]
  have s2: "sh_objects s2 0 = Some (?c\<lparr>c_socket := (c_socket ?c)\<lparr>sk_writes := [Some (bad_descriptor, 0)]\<rparr>\<rparr>)"
    "sh_table s2 = [0]" "sh_posted s2 = [(0, True)]" "sh_quits s2 = []"
    using s1 by (simp_all add: s2_def)
  define s3 where "s3 = (put_object 0 (?c\<lparr>c_socket := (c_socket ?c)\<lparr>sk_writes := []\<rparr>\<rparr>) s2)\<lparr>sh_posted := sh_posted s2 @ [(0, True)]\<rparr>"
  have "shared_step host lim Sh_other (s2, ?w) (s3, ?w)"
    unfolding s3_def using failing_answer_step [OF s2(1), of bad_descriptor "[]" host lim ?w] by (simp add: c)
  note r3 = shared_snoc [OF r2 this]
  have s3: "sh_objects s3 0 = Some (?c\<lparr>c_socket := (c_socket ?c)\<lparr>sk_writes := []\<rparr>\<rparr>)"
    "sh_table s3 = [0]" "sh_posted s3 = [(0, True), (0, True)]" "sh_quits s3 = []"
    using s2 by (simp_all add: s3_def)
  note r5 = shared_snoc [OF shared_snoc [OF r3 sh_lambda [of host lim s3 ?w 0]] sh_lambda [of host lim "run_posted 0 s3" ?w 0]]
  have "sh_quits (run_posted 0 (run_posted 0 s3)) = [0, 0] \<and> sh_table (run_posted 0 (run_posted 0 s3)) = []"
    using s3 by (simp add: run_posted_def close_lambda_def Let_def c)
  then show ?thesis using r5 unfolding s0_def by blast
qed

theorem shared_table_consistent_witness:
  "\<exists>es (s :: unit shared) c. shared_run Little 100 (shared_of (rpc_server_new [] [] 1), world0 ()) es (s, world0 ())
    \<and> sh_quits s = [0, 0] \<and> 0 \<notin> set (sh_table s) \<and> sh_objects s 0 = Some c \<and> c_has_closed c"
proof -
  obtain es and s :: "unit shared" where r: "shared_run Little 100 (shared_of (rpc_server_new [] [] 1), world0 ()) es (s, world0 ())"
    "sh_quits s = [0, 0]"
    using quit_callback_repeated [of Little 100 "[]" "[]" 1 "()"] by blast
  from shared_table_consistent [OF rtranclp.rtrancl_refl r(1)] show ?thesis using r by auto
qed

end
