(* ===== verification/Concurrent_Publications.thy ===== *)
theory Concurrent_Publications
  imports Shared_Connections
begin

text \<open>
  What subscribers get when several publications are under way at once: the slices of \<open>publish\<close>
  (include/rest_rpc/rpc_server.hpp) between reads, answers, closings and other publications. Nothing gets
  lost and nothing is sent twice, but two subscribers may see two publications in different orders.
\<close>

section \<open>What is still to be sent\<close>

text \<open>The publications of a topic that a connection has still to get from the publishers under way.\<close>

definition pending :: "u64 \<Rightarrow> u32 \<Rightarrow> publisher list \<Rightarrow> (u32 \<times> rpc_result) multiset" where
  "pending i t ps = mset (map (\<lambda>p. (pb_topic p, pb_result p)) (filter (\<lambda>p. pb_topic p = t \<and> i \<in> set (pb_left p)) ps))"

text \<open>The publications of a topic that began while the connection was in the table.\<close>

fun label_begun :: "u64 \<Rightarrow> u32 \<Rightarrow> shared_label \<Rightarrow> (u32 \<times> rpc_result) multiset" where
  "label_begun i t (Sh_began k res left) = (if k = t \<and> i \<in> set left then {#(k, res)#} else {#})"
| "label_begun i t _ = {#}"

definition begun :: "u64 \<Rightarrow> u32 \<Rightarrow> shared_label list \<Rightarrow> (u32 \<times> rpc_result) multiset" where
  "begun i t es = sum_list (map (label_begun i t) es)"

lemma begun_simps [simp]: "begun i t [] = {#}" "begun i t (e # es) = label_begun i t e + begun i t es"
  "begun i t (es @ [e]) = begun i t es + label_begun i t e"
  by (simp_all add: begun_def)

lemma pending_append [simp]: "pending i t (ps @ qs) = pending i t ps + pending i t qs"
  by (simp add: pending_def)

lemma pending_update:
  assumes "k < length ps"
  shows "pending i t ps + pending i t [q] = pending i t (ps[k := q]) + pending i t [ps ! k]"
proof -
  have "pending i t ps = pending i t (take k ps) + pending i t [ps ! k] + pending i t (drop (Suc k) ps)"
    using id_take_nth_drop [OF assms] pending_append [of i t "take k ps @ [ps ! k]" "drop (Suc k) ps"] by simp
  moreover have "pending i t (ps[k := q]) = pending i t (take k ps) + pending i t [q] + pending i t (drop (Suc k) ps)"
    using upd_conv_take_nth_drop [OF assms, of q] pending_append [of i t "take k ps @ [q]" "drop (Suc k) ps"] by simp
  ultimately show ?thesis by simp
qed

section \<open>What one step sends\<close>

text \<open>A step that changes a connection at most by closing it.\<close>

definition quiet :: "u64 \<Rightarrow> 'u shared \<Rightarrow> 'u shared \<Rightarrow> bool" where
  "quiet i s s' \<longleftrightarrow> sh_publishers s' = sh_publishers s
     \<and> (\<forall>c. sh_objects s i = Some c \<longrightarrow> (\<exists>c'. sh_objects s' i = Some c' \<and> (sk_open (c_socket c') \<longrightarrow> c' = c)))"

lemma quiet_refl [simp]: "sh_publishers s' = sh_publishers s \<Longrightarrow> sh_objects s' i = sh_objects s i \<Longrightarrow> quiet i s s'"
  by (simp add: quiet_def)

lemma quiet_trans: "quiet i s s1 \<Longrightarrow> quiet i s1 s2 \<Longrightarrow> quiet i s s2"
  unfolding quiet_def by (metis (no_types, lifting))

lemma close_lambda_quiet: "quiet i s (close_lambda need_cb j s)"
  by (auto simp: quiet_def close_lambda_def put_object_def Let_def split: option.split)

lemma shared_close_quiet: "quiet i s (shared_close own need_cb j s)"
  using close_lambda_quiet by (auto simp: shared_close_def split: option.split)

lemma sweep_fold_quiet: "quiet i s (fold (\<lambda>j. shared_close (own j) False j) js s)"
  by (induction js arbitrary: s) (auto intro: quiet_trans shared_close_quiet)

lemma shared_sweep_quiet: "quiet i s (shared_sweep own old s)"
  unfolding shared_sweep_def by (rule quiet_trans [OF _ sweep_fold_quiet]) simp

lemma run_posted_quiet: "quiet i s (run_posted j s)"
  by (auto simp: run_posted_def split: prod.split intro: quiet_trans [OF _ close_lambda_quiet])

text \<open>A write to another connection, and one that succeeds.\<close>

lemma shared_response_other:
  assumes "j \<noteq> i"
  shows "quiet i s (snd (shared_response host own res k j s w))"
proof -
  have "quiet i s (put_object j c s)" for c using assms by simp
  then show ?thesis
    by (auto simp: shared_response_def split: option.split prod.split intro: quiet_trans [OF _ shared_close_quiet])
qed

lemma shared_response_sends:
  assumes "sh_objects s i = Some c" "sk_open (c_socket c)" "sk_writes (c_socket c) = []"
  shows "\<exists>c'. snd (shared_response host own res k i s w) = put_object i c' s \<and> sk_open (c_socket c') \<and> sk_writes (c_socket c') = []
    \<and> c_topic_id c' = c_topic_id c \<and> c_cross_ending c' = c_cross_ending c
    \<and> sk_tx (c_socket c') = sk_tx (c_socket c) @ response_frame host (c_cross_ending c) res k"
  using assms
  by (intro exI [of _ "(set_last_time w c)\<lparr>c_socket := (c_socket c)\<lparr>sk_tx := sk_tx (c_socket c) @ response_frame host (c_cross_ending c) res k\<rparr>\<rparr>"])
     (simp add: shared_response_def response_write_def async_write_def no_error_def ec_set_def Let_def)

lemma route_request_open:
  assumes "route_request host rt key c w = (r, c', w')" "sk_open (c_socket c')"
  shows "sk_open (c_socket c)"
  using assms
  by (auto simp: route_request_def response_def conn_close_def Let_def split: prod.splits if_splits dest!: async_write_frame)

text \<open>A pass of the read loop that is not a subscription writes at most an answer.\<close>

lemma route_request_sends:
  assumes "route_request host rt key c w = (r, c', w')" "sk_writes (c_socket c) = []" "sk_open (c_socket c')"
  shows "c_topic_id c' = c_topic_id c \<and> c_cross_ending c' = c_cross_ending c \<and> sk_writes (c_socket c') = []
    \<and> (\<exists>msgs. (\<forall>m \<in> set msgs. fst m = 0) \<and> sk_tx (c_socket c') = sk_tx (c_socket c) @ sent_bytes host (c_cross_ending c) msgs)"
proof -
  obtain res w1 where rt: "route rt key (c_body c) (set_connection (c_id c) w) = (res, w1)" by fastforce
  show ?thesis
  proof (cases "tls_delay (w_tls w1)")
    case True
    then have "c' = c" using assms(1) rt by (simp add: route_request_def)
    then show ?thesis using assms(2) by (auto intro: exI [of _ "[]"])
  next
    case False
    obtain ec w2 where rs: "response host res 0 c w1 = (ec, c', w2)"
      using assms(1) rt False by (auto simp: route_request_def split: prod.splits if_splits)
    have "c_topic_id c' = c_topic_id c \<and> c_cross_ending c' = c_cross_ending c \<and> sk_writes (c_socket c') = []
        \<and> sk_tx (c_socket c') = sk_tx (c_socket c) @ response_frame host (c_cross_ending c) res 0"
      using rs assms(2, 3)
      by (auto simp: response_def async_write_def conn_close_def no_error_def ec_set_def bad_descriptor_def Let_def split: if_splits)
    then show ?thesis by (auto intro!: exI [of _ "[(0, res)]"] simp: sent_bytes_def)
  qed
qed

lemma async_read_keeps: "async_read n s = (ec, bs, s') \<Longrightarrow> sk_writes s' = sk_writes s \<and> sk_tx s' = sk_tx s"
  by (auto simp: async_read_def split: if_splits)

lemma read_frame_sends:
  assumes "read_frame host lim c w = (fr, c', w')" "fr \<noteq> Frame_topic"
  shows "c_topic_id c' = c_topic_id c \<and> c_cross_ending c' = c_cross_ending c \<and> sk_tx (c_socket c') = sk_tx (c_socket c)
    \<and> (sk_open (c_socket c') \<longrightarrow> sk_writes (c_socket c') = sk_writes (c_socket c))"
  using assms
  by (auto simp: read_frame_def conn_close_def Let_def split: prod.splits if_splits dest!: async_read_keeps)

lemma read_request_sends:
  assumes "read_request host lim rt c w = (r, c', w')" "fst (read_frame host lim c w) \<noteq> Frame_topic"
    and "sk_writes (c_socket c) = []" "sk_open (c_socket c')"
  shows "c_topic_id c' = c_topic_id c \<and> c_cross_ending c' = c_cross_ending c \<and> sk_writes (c_socket c') = []
    \<and> (\<exists>msgs. (\<forall>m \<in> set msgs. fst m = 0) \<and> sk_tx (c_socket c') = sk_tx (c_socket c) @ sent_bytes host (c_cross_ending c) msgs)"
proof -
  obtain fr c1 w1 where f: "read_frame host lim c w = (fr, c1, w1)" by (metis prod_cases3)
  have nt: "fr \<noteq> Frame_topic" using assms(2) f by simp
  note fs = read_frame_sends [OF f nt]
  show ?thesis
  proof (cases fr)
    case (Frame_request key)
    then have rq: "route_request host rt key c1 w1 = (r, c', w')" using assms(1) f by (simp add: read_request_def)
    have "sk_open (c_socket c1)" using route_request_open [OF rq assms(4)] .
    then have "sk_writes (c_socket c1) = []" using fs assms(3) by simp
    from route_request_sends [OF rq this assms(4)] show ?thesis using fs by simp
  next
    case (Frame_end e)
    then have "c' = c1" using assms(1) f by (simp add: read_request_def)
    then show ?thesis using fs assms(3, 4) by (auto intro: exI [of _ "[]"])
  qed (use nt in simp)
qed

section \<open>The account of a subscriber\<close>

text \<open>
  A connection and what it has become, with the publishers under way before and after and those of its topic
  that began meanwhile: it was sent whole frames, and what it has got of its topic and what it is still to get
  make up what it was to get before and what has begun since.
\<close>

definition delivered ::
  "endian \<Rightarrow> u64 \<Rightarrow> (u32 \<times> rpc_result) multiset \<Rightarrow> publisher list \<Rightarrow> publisher list \<Rightarrow> connection \<Rightarrow> connection \<Rightarrow> bool"
where
  "delivered host i new ps ps' c c' \<longleftrightarrow>
     sk_writes (c_socket c') = [] \<and> c_topic_id c' = c_topic_id c \<and> c_cross_ending c' = c_cross_ending c
     \<and> (\<exists>msgs. sk_tx (c_socket c') = sk_tx (c_socket c) @ sent_bytes host (c_cross_ending c) msgs
          \<and> mset [m \<leftarrow> msgs. fst m \<noteq> 0] + pending i (c_topic_id c) ps' = pending i (c_topic_id c) ps + new)"

lemma deliveredI:
  assumes "sk_writes (c_socket c') = []" "c_topic_id c' = c_topic_id c" "c_cross_ending c' = c_cross_ending c"
    and "sk_tx (c_socket c') = sk_tx (c_socket c) @ sent_bytes host (c_cross_ending c) msgs"
    and "mset [m \<leftarrow> msgs. fst m \<noteq> 0] + pending i (c_topic_id c) ps' = pending i (c_topic_id c) ps + new"
  shows "delivered host i new ps ps' c c'"
  using assms by (auto simp: delivered_def)

lemma delivered_nothing: "sk_writes (c_socket c) = [] \<Longrightarrow> pending i (c_topic_id c) ps' = pending i (c_topic_id c) ps + new
    \<Longrightarrow> delivered host i new ps ps' c c"
  by (rule deliveredI [where msgs = "[]"]) (simp_all add: sent_bytes_def)

lemma delivered_trans:
  assumes "delivered host i new ps ps1 c c1" "delivered host i new1 ps1 ps2 c1 c2"
  shows "delivered host i (new + new1) ps ps2 c c2"
proof -
  let ?t = "c_topic_id c"
  obtain ms where ms: "sk_tx (c_socket c1) = sk_tx (c_socket c) @ sent_bytes host (c_cross_ending c) ms"
    "mset [m \<leftarrow> ms. fst m \<noteq> 0] + pending i ?t ps1 = pending i ?t ps + new"
    using assms(1) by (auto simp: delivered_def)
  obtain ms' where ms': "sk_tx (c_socket c2) = sk_tx (c_socket c1) @ sent_bytes host (c_cross_ending c1) ms'"
    "mset [m \<leftarrow> ms'. fst m \<noteq> 0] + pending i (c_topic_id c1) ps2 = pending i (c_topic_id c1) ps1 + new1"
    using assms(2) by (auto simp: delivered_def)
  have same: "c_topic_id c1 = ?t" "c_cross_ending c1 = c_cross_ending c" using assms(1) by (simp_all add: delivered_def)
  have "mset [m \<leftarrow> ms. fst m \<noteq> 0] + (mset [m \<leftarrow> ms'. fst m \<noteq> 0] + pending i ?t ps2) = pending i ?t ps + (new + new1)"
    unfolding ms'(2) [unfolded same] using ms(2) by (simp add: add.assoc [symmetric])
  then show ?thesis using assms ms(1) ms'(1) same
    by (intro deliveredI [where msgs = "ms @ ms'"]) (auto simp: delivered_def add.assoc)
qed

text \<open>What a step does to a connection that had no failing writes ahead and does not subscribe.\<close>

definition accounts :: "endian \<Rightarrow> u64 \<Rightarrow> shared_label \<Rightarrow> 'u shared \<Rightarrow> 'u shared \<Rightarrow> bool" where
  "accounts host i e s s' \<longleftrightarrow> (\<forall>c. sh_objects s i = Some c \<longrightarrow> (\<exists>c'. sh_objects s' i = Some c' \<and> (sk_open (c_socket c') \<longrightarrow>
     sk_open (c_socket c) \<and> (sk_writes (c_socket c) = [] \<longrightarrow> c_topic_id c \<noteq> 0 \<longrightarrow> e \<noteq> Sh_subscribed i \<longrightarrow>
       delivered host i (label_begun i (c_topic_id c) e) (sh_publishers s) (sh_publishers s') c c'))))"

lemma accountsD:
  assumes "accounts host i e s s'" "sh_objects s i = Some c"
  shows "\<exists>c'. sh_objects s' i = Some c' \<and> (sk_open (c_socket c') \<longrightarrow>
     sk_open (c_socket c) \<and> (sk_writes (c_socket c) = [] \<longrightarrow> c_topic_id c \<noteq> 0 \<longrightarrow> e \<noteq> Sh_subscribed i \<longrightarrow>
       delivered host i (label_begun i (c_topic_id c) e) (sh_publishers s) (sh_publishers s') c c'))"
  using assms by (simp add: accounts_def)

lemma accounts_quiet:
  assumes "quiet i s s'"
  shows "accounts host i Sh_other s s'"
  unfolding accounts_def
proof (intro allI impI)
  fix c assume c: "sh_objects s i = Some c"
  then obtain c' where c': "sh_objects s' i = Some c'" "sk_open (c_socket c') \<longrightarrow> c' = c" "sh_publishers s' = sh_publishers s"
    using assms by (auto simp: quiet_def)
  then show "\<exists>c'. sh_objects s' i = Some c' \<and> (sk_open (c_socket c') \<longrightarrow> sk_open (c_socket c) \<and> (sk_writes (c_socket c) = []
      \<longrightarrow> c_topic_id c \<noteq> 0 \<longrightarrow> Sh_other \<noteq> Sh_subscribed i \<longrightarrow>
      delivered host i (label_begun i (c_topic_id c) Sh_other) (sh_publishers s) (sh_publishers s') c c'))"
    by (auto intro!: delivered_nothing)
qed

subsection \<open>Every step\<close>

lemma accounts_read:
  assumes "shared_read host lim j s w = (s', w')"
  shows "accounts host i (read_label host lim j s w) s s'"
proof (cases "j = i \<and> i \<in> sh_reading s \<and> sh_objects s i \<noteq> None")
  case False
  have "read_label host lim j s w = Sh_other \<or> j \<noteq> i" using False by (auto simp: read_label_def split: option.split)
  moreover have "quiet i s s'"
    using assms False by (cases "j = i") (auto simp: shared_read_def split: option.splits if_splits prod.splits)
  ultimately show ?thesis
    using accounts_quiet [of i s s' host] by (auto simp: accounts_def read_label_def split: option.splits if_splits)
next
  case True
  then obtain c where c: "sh_objects s i = Some c" "j = i" by auto
  obtain r c' w1 where r: "read_request host lim (sh_router s) c w = (r, c', w1)" by (metis prod_cases3)
  have s': "sh_objects s' i = Some c'" "sh_publishers s' = sh_publishers s"
    using assms c True r by (auto simp: shared_read_def)
  have "delivered host i {#} (sh_publishers s) (sh_publishers s) c c'"
    if "sk_open (c_socket c')" "sk_writes (c_socket c) = []" "read_label host lim j s w \<noteq> Sh_subscribed i"
  proof -
    have "fst (read_frame host lim c w) \<noteq> Frame_topic" using that(3) c True by (auto simp: read_label_def)
    from read_request_sends [OF r this that(2, 1)] obtain msgs where m: "\<forall>m \<in> set msgs. fst m = 0"
      "sk_tx (c_socket c') = sk_tx (c_socket c) @ sent_bytes host (c_cross_ending c) msgs" "c_topic_id c' = c_topic_id c"
      "c_cross_ending c' = c_cross_ending c" "sk_writes (c_socket c') = []"
      by blast
    have "[m \<leftarrow> msgs. fst m \<noteq> 0] = []" using m(1) by (simp add: filter_empty_conv)
    then show ?thesis using m by (intro deliveredI [where msgs = msgs]) simp_all
  qed
  moreover have "label_begun i t (read_label host lim j s w) = {#}" for t
    using c True by (simp add: read_label_def)
  ultimately show ?thesis using s' c read_request_open [OF r] by (simp add: accounts_def)
qed

lemma shared_response_object:
  assumes "sh_objects s i = Some c"
  shows "\<exists>c'. sh_objects (snd (shared_response host own res k i s w)) i = Some c' \<and> (sk_open (c_socket c') \<longrightarrow>
    sk_open (c_socket c) \<and> (sk_writes (c_socket c) = [] \<longrightarrow> sk_writes (c_socket c') = [] \<and> c_topic_id c' = c_topic_id c
      \<and> c_cross_ending c' = c_cross_ending c \<and> sk_tx (c_socket c') = sk_tx (c_socket c) @ sent_bytes host (c_cross_ending c) [(k, res)]))"
proof (cases "sk_open (c_socket c) \<and> sk_writes (c_socket c) = []")
  case True
  then show ?thesis using shared_response_sends [OF assms, of host own res k w] by (auto simp: sent_bytes_def)
next
  case False
  obtain ec c1 where w: "response_write host res k c w = (ec, c1)" by fastforce
  have "sk_open (c_socket c1) = sk_open (c_socket c)" using response_write_frame [OF w] by simp
  moreover have "\<exists>c'. sh_objects (snd (shared_response host own res k i s w)) i = Some c' \<and> (sk_open (c_socket c') \<longrightarrow> c' = c1)"
    using shared_close_quiet [of i "put_object i c1 s" own True i] assms w
    by (auto simp: shared_response_def quiet_def)
  ultimately show ?thesis using False by auto
qed

lemma shared_response_publishers [simp]: "sh_publishers (snd (shared_response host own res k i s w)) = sh_publishers s"
  using shared_close_quiet [of i "put_object i _ s" own True i]
  by (auto simp: shared_response_def quiet_def split: option.split prod.split)

lemma accounts_answer: "accounts host i Sh_other s (snd (shared_response host own res 0 j s w))"
proof (cases "j = i")
  case False
  then show ?thesis by (intro accounts_quiet shared_response_other)
next
  case True
  let ?s' = "snd (shared_response host own res 0 i s w)"
  have "\<exists>c'. sh_objects ?s' i = Some c' \<and> (sk_open (c_socket c') \<longrightarrow> sk_open (c_socket c) \<and> (sk_writes (c_socket c) = []
      \<longrightarrow> delivered host i {#} (sh_publishers s) (sh_publishers ?s') c c'))" if c: "sh_objects s i = Some c" for c
    using shared_response_object [OF c, of host own res 0 w] by (auto intro!: deliveredI [where msgs = "[(0, res)]"])
  then show ?thesis unfolding True by (fastforce simp: accounts_def)
qed

lemma accounts_begin: "accounts host i (Sh_began topic res (sh_table s)) s (publish_begin topic res s)"
  by (auto simp: accounts_def publish_begin_def pending_def intro!: delivered_nothing)

lemma accounts_accept:
  assumes "sh_objects s j = None"
  shows "accounts host i Sh_other s (shared_accept j c s)"
  using assms by (intro accounts_quiet) (auto simp: quiet_def shared_accept_def)

lemma accounts_next:
  assumes "shared_inv s"
  shows "accounts host i Sh_other s (publish_next host own k s w)"
proof (cases "k < length (sh_publishers s) \<and> pb_left (sh_publishers s ! k) \<noteq> []")
  case False
  then have "publish_next host own k s w = s" by (auto simp: publish_next_def Let_def split: list.split)
  then show ?thesis by (simp add: accounts_quiet)
next
  case True
  define p where "p = sh_publishers s ! k"
  obtain j left where l: "pb_left p = j # left" using True by (auto simp: p_def neq_Nil_conv)
  define ps where "ps = (sh_publishers s)[k := p\<lparr>pb_left := left\<rparr>]"
  define s1 where "s1 = s\<lparr>sh_publishers := ps\<rparr>"
  let ?s' = "publish_to host own (pb_topic p) (pb_result p) j s1 w"
  have s': "publish_next host own k s w = ?s'"
    using True l by (simp add: publish_next_def p_def [symmetric] ps_def s1_def Let_def)
  have pend: "pending i t (sh_publishers s) + pending i t [p\<lparr>pb_left := left\<rparr>] = pending i t ps + pending i t [p]" for t
    using True pending_update [of k "sh_publishers s" i t "p\<lparr>pb_left := left\<rparr>"] by (simp add: ps_def p_def)
  have pubs: "sh_publishers ?s' = ps" by (simp add: publish_to_def s1_def)
  show ?thesis
  proof (cases "j = i")
    case False
    have "quiet i s1 ?s'" using False shared_response_other by (auto simp: publish_to_def)
    then have q: "\<exists>c'. sh_objects ?s' i = Some c' \<and> (sk_open (c_socket c') \<longrightarrow> c' = c)" if "sh_objects s i = Some c" for c
      using that by (auto simp: quiet_def s1_def)
    have "pending i t [p\<lparr>pb_left := left\<rparr>] = pending i t [p]" for t using False l by (simp add: pending_def)
    then have "pending i t ps = pending i t (sh_publishers s)" for t using pend [of t] by simp
    then have d: "delivered host i {#} (sh_publishers s) ps c c" if "sk_writes (c_socket c) = []" for c
      using that by (auto intro: delivered_nothing)
    show ?thesis unfolding s' accounts_def pubs using q d by fastforce
  next
    case True
    have "distinct (pb_left p)" using assms \<open>k < _ \<and> _\<close> by (simp add: shared_inv_def p_def)
    then have left: "i \<notin> set left" using l True by simp
    have "\<exists>c'. sh_objects ?s' i = Some c' \<and> (sk_open (c_socket c') \<longrightarrow> sk_open (c_socket c) \<and> (sk_writes (c_socket c) = []
        \<longrightarrow> c_topic_id c \<noteq> 0 \<longrightarrow> delivered host i {#} (sh_publishers s) ps c c'))" if c: "sh_objects s i = Some c" for c
    proof (cases "c_topic_id c = pb_topic p")
      case t: True
      have "?s' = snd (shared_response host own (pb_result p) (pb_topic p) i s1 w)"
        using c t True by (simp add: publish_to_def s1_def)
      moreover have "pending i (c_topic_id c) ps + {#(pb_topic p, pb_result p)#} = pending i (c_topic_id c) (sh_publishers s)"
        using pend [of "c_topic_id c"] t l True left by (simp add: pending_def)
      ultimately show ?thesis
        using shared_response_object [of s1 i c host own "pb_result p" "pb_topic p" w] c t
        by (auto simp: s1_def intro!: deliveredI [where msgs = "[(pb_topic p, pb_result p)]"])
    next
      case f: False
      have "?s' = s1" using c f True by (simp add: publish_to_def s1_def)
      moreover have "pending i (c_topic_id c) ps = pending i (c_topic_id c) (sh_publishers s)"
        using pend [of "c_topic_id c"] f by (simp add: pending_def)
      ultimately show ?thesis using c by (auto simp: s1_def intro!: delivered_nothing)
    qed
    then show ?thesis unfolding s' accounts_def pubs by fastforce
  qed
qed

lemma shared_step_accounts:
  assumes "shared_step host lim e sw sw'" "shared_inv (fst sw)"
  shows "accounts host i e (fst sw) (fst sw')"
  using assms
proof (induction rule: shared_step.induct)
  case (sh_accept j c s w)
  then show ?case by (simp add: accounts_accept fresh_object_def)
next
  case (sh_read j s w s' w')
  then show ?case using accounts_read by simp
next
  case (sh_answer own env args ctx s w ec ctx' s')
  then show ?case using shared_answer_cases [OF sh_answer(1)] accounts_answer [of host i s] accounts_quiet [of i s s host] by auto
qed (simp_all add: accounts_begin accounts_next accounts_quiet run_posted_quiet shared_check_timeout_def shared_stop_def
      shared_sweep_quiet)

subsection \<open>Every run\<close>

lemma shared_run_accounts:
  assumes "shared_run host lim sw es sw'" "shared_inv (fst sw)" "w_quits (snd sw) = []" "sh_objects (fst sw) i = Some c"
  shows "\<exists>c'. sh_objects (fst sw') i = Some c' \<and> (sk_open (c_socket c') \<longrightarrow> sk_open (c_socket c)
    \<and> (sk_writes (c_socket c) = [] \<longrightarrow> c_topic_id c \<noteq> 0 \<longrightarrow> Sh_subscribed i \<notin> set es \<longrightarrow>
       delivered host i (begun i (c_topic_id c) es) (sh_publishers (fst sw)) (sh_publishers (fst sw')) c c'))"
  using assms
proof (induction rule: shared_run.induct)
  case shared_nil
  then show ?case by (auto intro: delivered_nothing)
next
  case (shared_snoc es sw1 e sw2)
  obtain c1 where c1: "sh_objects (fst sw1) i = Some c1" "sk_open (c_socket c1) \<longrightarrow> sk_open (c_socket c)
      \<and> (sk_writes (c_socket c) = [] \<longrightarrow> c_topic_id c \<noteq> 0 \<longrightarrow> Sh_subscribed i \<notin> set es \<longrightarrow>
         delivered host i (begun i (c_topic_id c) es) (sh_publishers (fst sw)) (sh_publishers (fst sw1)) c c1)"
    using shared_snoc.IH [OF shared_snoc.prems] by blast
  have "shared_inv (fst sw1)" using shared_run_inv [OF shared_snoc.hyps(1)] shared_snoc.prems by blast
  from accountsD [OF shared_step_accounts [OF shared_snoc.hyps(2) this] c1(1)]
  obtain c2 where c2: "sh_objects (fst sw2) i = Some c2" "sk_open (c_socket c2) \<longrightarrow> sk_open (c_socket c1)
      \<and> (sk_writes (c_socket c1) = [] \<longrightarrow> c_topic_id c1 \<noteq> 0 \<longrightarrow> e \<noteq> Sh_subscribed i \<longrightarrow>
         delivered host i (label_begun i (c_topic_id c1) e) (sh_publishers (fst sw1)) (sh_publishers (fst sw2)) c1 c2)"
    by blast
  have "delivered host i (begun i (c_topic_id c) (es @ [e])) (sh_publishers (fst sw)) (sh_publishers (fst sw2)) c c2"
    if o: "sk_open (c_socket c2)" "sk_writes (c_socket c) = []" "c_topic_id c \<noteq> 0" "Sh_subscribed i \<notin> set (es @ [e])"
  proof -
    have d: "delivered host i (begun i (c_topic_id c) es) (sh_publishers (fst sw)) (sh_publishers (fst sw1)) c c1"
      using c1(2) c2(2) o by simp
    then have k: "sk_writes (c_socket c1) = []" "c_topic_id c1 = c_topic_id c" by (simp_all add: delivered_def)
    then have "delivered host i (label_begun i (c_topic_id c) e) (sh_publishers (fst sw1)) (sh_publishers (fst sw2)) c1 c2"
      using c2(2) o by auto
    from delivered_trans [OF d this] show ?thesis by simp
  qed
  then show ?case using c1(2) c2 by auto
qed

lemma pending_finished: "\<forall>p \<in> set ps. pb_left p = [] \<Longrightarrow> pending i t ps = {#}"
  by (auto simp: pending_def filter_empty_conv)

text \<open>Publications come to an end: every pass of a loop leaves less to do, and nothing but a new publication more.\<close>

definition work :: "'u shared \<Rightarrow> nat" where
  "work s = sum_list (map (\<lambda>p. length (pb_left p)) (sh_publishers s))"

lemma publish_to_publishers [simp]: "sh_publishers (publish_to host own topic res i s w) = sh_publishers s"
  by (simp add: publish_to_def)

lemma publish_next_work:
  assumes "k < length (sh_publishers s)" "pb_left (sh_publishers s ! k) = i # left"
  shows "work s = Suc (work (publish_next host own k s w))"
  using assms elem_le_sum_list [of k "map (\<lambda>p. length (pb_left p)) (sh_publishers s)"]
  by (simp add: work_def publish_next_def Let_def map_update sum_list_update)

text \<open>A pass that reaches a subscriber.\<close>

lemma publish_next_sends:
  assumes "k < length (sh_publishers s)" "sh_publishers s ! k = p" "pb_left p = i # left"
    and "sh_objects s i = Some c" "sk_open (c_socket c)" "sk_writes (c_socket c) = []" "c_topic_id c = pb_topic p"
  shows "\<exists>c'. publish_next host own k s w = put_object i c' (s\<lparr>sh_publishers := (sh_publishers s)[k := p\<lparr>pb_left := left\<rparr>]\<rparr>)
    \<and> sk_open (c_socket c') \<and> sk_writes (c_socket c') = [] \<and> c_topic_id c' = c_topic_id c \<and> c_cross_ending c' = c_cross_ending c
    \<and> sk_tx (c_socket c') = sk_tx (c_socket c) @ sent_bytes host (c_cross_ending c) [(pb_topic p, pb_result p)]"
proof -
  let ?s = "s\<lparr>sh_publishers := (sh_publishers s)[k := p\<lparr>pb_left := left\<rparr>]\<rparr>"
  have "publish_next host own k s w = snd (shared_response host own (pb_result p) (pb_topic p) i ?s w)"
    using assms by (simp add: publish_next_def publish_to_def)
  then show ?thesis
    using shared_response_sends [of ?s i c host own "pb_result p" "pb_topic p" w] assms(4 - 6)
    by (simp add: sent_bytes_def)
qed

text \<open>
  Publications under way at the same time get through to everyone, once each. Take two moments of a
  run, the later one with no publication under way, and a subscriber that is open at the end, did not subscribe
  again and had no failing writes ahead. Whatever happened in between, the writes that were started on it are of
  whole frames; among them the publications are, in some order, exactly those it had still to get at the first
  moment and those that began since while it was in the table.
\<close>

lemma publications_started:
  assumes "(server_step host lim)\<^sup>*\<^sup>* (rpc_server_new address port n, world0 u) (sv, w0)"
    and "shared_run host lim (shared_of sv, w0) es1 (s1, w1)" "shared_run host lim (s1, w1) es2 (s2, w2)"
    and "sh_objects s1 i = Some c1" "sk_writes (c_socket c1) = []" "c_topic_id c1 \<noteq> 0" "Sh_subscribed i \<notin> set es2"
    and "sh_objects s2 i = Some c2" "sk_open (c_socket c2)" "\<forall>p \<in> set (sh_publishers s2). pb_left p = []"
  shows "\<exists>msgs. sk_tx (c_socket c2) = sk_tx (c_socket c1) @ sent_bytes host (c_cross_ending c1) msgs
    \<and> mset [m \<leftarrow> msgs. fst m \<noteq> 0] = pending i (c_topic_id c1) (sh_publishers s1) + begun i (c_topic_id c1) es2"
proof -
  have sv: "server_inv (sv, w0)" by (rule server_reachable_inv [OF assms(1) server_inv_new])
  then have "w_quits w0 = []" by (simp add: server_inv_def)
  then have inv: "shared_inv s1" "w_quits w1 = []" using shared_run_inv [OF assms(2)] shared_of_inv [OF sv] by simp_all
  have "delivered host i (begun i (c_topic_id c1) es2) (sh_publishers s1) (sh_publishers s2) c1 c2"
    using shared_run_accounts [OF assms(3), of i c1] inv assms(4 - 9) by simp
  then show ?thesis using pending_finished [OF assms(10)] by (auto simp: delivered_def)
qed

section \<open>Orders\<close>

text \<open>
  C37: two publications of one topic that overlap may reach two subscribers in different orders. Wherever two
  subscribers are in the table, there is a run of two publications after which one has got the first before
  the second and the other the second before the first; both publications have ended.
\<close>

theorem overlapping_publications_cross:
  assumes "sh_table s = [i, j]" "i \<noteq> j" "sh_publishers s = []" "sh_objects s i = Some a" "sh_objects s j = Some b"
    and "sk_open (c_socket a)" "sk_open (c_socket b)" "sk_writes (c_socket a) = []" "sk_writes (c_socket b) = []"
    and "c_topic_id a = t" "c_topic_id b = t"
  shows "\<exists>es s' a' b'. shared_run host lim (s, w) es (s', w) \<and> sh_objects s' i = Some a' \<and> sh_objects s' j = Some b'
    \<and> sk_tx (c_socket a') = sk_tx (c_socket a) @ sent_bytes host (c_cross_ending a) [(t, r1), (t, r2)]
    \<and> sk_tx (c_socket b') = sk_tx (c_socket b) @ sent_bytes host (c_cross_ending b) [(t, r2), (t, r1)]
    \<and> (\<forall>p \<in> set (sh_publishers s'). pb_left p = [])"
proof -
  let ?p = "\<lambda>r is. \<lparr>pb_topic = t, pb_result = r, pb_left = is\<rparr>"
  define s2 where "s2 = publish_begin t r2 (publish_begin t r1 s)"
  have s2: "sh_publishers s2 = [?p r1 [i, j], ?p r2 [i, j]]" "sh_objects s2 = sh_objects s"
    using assms(1, 3) by (simp_all add: s2_def publish_begin_def)
  obtain a1 where a1: "publish_next host True 0 s2 w = put_object i a1 (s2\<lparr>sh_publishers := [?p r1 [j], ?p r2 [i, j]]\<rparr>)"
    "sk_open (c_socket a1)" "sk_writes (c_socket a1) = []" "c_topic_id a1 = t" "c_cross_ending a1 = c_cross_ending a"
    "sk_tx (c_socket a1) = sk_tx (c_socket a) @ sent_bytes host (c_cross_ending a) [(t, r1)]"
    using publish_next_sends [of 0 s2 "?p r1 [i, j]" i "[j]" a host True w] s2 assms by auto
  define s3 where "s3 = publish_next host True 0 s2 w"
  obtain a2 where a2: "publish_next host True 1 s3 w = put_object i a2 (s3\<lparr>sh_publishers := [?p r1 [j], ?p r2 [j]]\<rparr>)"
    "sk_tx (c_socket a2) = sk_tx (c_socket a1) @ sent_bytes host (c_cross_ending a1) [(t, r2)]"
    using publish_next_sends [of 1 s3 "?p r2 [i, j]" i "[j]" a1 host True w] a1 s3_def by auto
  define s4 where "s4 = publish_next host True 1 s3 w"
  have b0: "sh_objects s4 j = Some b" using a1(1) a2(1) s2(2) assms(2, 5) by (simp add: s3_def s4_def)
  obtain b1 where b1: "publish_next host True 1 s4 w = put_object j b1 (s4\<lparr>sh_publishers := [?p r1 [j], ?p r2 []]\<rparr>)"
    "sk_open (c_socket b1)" "sk_writes (c_socket b1) = []" "c_topic_id b1 = t" "c_cross_ending b1 = c_cross_ending b"
    "sk_tx (c_socket b1) = sk_tx (c_socket b) @ sent_bytes host (c_cross_ending b) [(t, r2)]"
    using publish_next_sends [of 1 s4 "?p r2 [j]" j "[]" b host True w] b0 a2(1) assms by (auto simp: s4_def)
  define s5 where "s5 = publish_next host True 1 s4 w"
  obtain b2 where b2: "publish_next host True 0 s5 w = put_object j b2 (s5\<lparr>sh_publishers := [?p r1 [], ?p r2 []]\<rparr>)"
    "sk_tx (c_socket b2) = sk_tx (c_socket b1) @ sent_bytes host (c_cross_ending b1) [(t, r1)]"
    using publish_next_sends [of 0 s5 "?p r1 [j]" j "[]" b1 host True w] b1 by (auto simp: s5_def)
  note r = shared_snoc [OF shared_snoc [OF shared_nil sh_begin] sh_begin, of host lim s w t r1 t r2, folded s2_def]
  note r = shared_snoc [OF r sh_next [of host lim s2 w True 0], folded s3_def]
  note r = shared_snoc [OF r sh_next [of host lim s3 w True 1], folded s4_def]
  note r = shared_snoc [OF r sh_next [of host lim s4 w True 1], folded s5_def]
  note r = shared_snoc [OF r sh_next [of host lim s5 w True 0]]
  show ?thesis
    by (intro exI conjI, rule r) (use a1 a2 b1 b2 assms(2) in \<open>auto simp: s3_def s4_def s5_def sent_bytes_def\<close>)
qed

text \<open>Two subscribers of the topic 7.\<close>

definition subscriber :: "u64 \<Rightarrow> connection" where
  "subscriber i = (set_quit_callback (new_connection (fresh_socket []) i False 0))\<lparr>c_topic_id := 7\<rparr>"

definition two_subscribers :: "unit shared" where
  "two_subscribers = \<lparr>sh_objects = [0 \<mapsto> subscriber 0, 1 \<mapsto> subscriber 1], sh_table = [0, 1], sh_reading = {0, 1}, sh_posted = [],
     sh_quits = [], sh_publishers = [], sh_router = empty_router\<rparr>"

theorem overlapping_publications_cross_witness:
  "\<exists>es s' a' b'. shared_run Little 100 (two_subscribers, world0 ()) es (s', world0 ())
    \<and> sh_objects s' 0 = Some a' \<and> sh_objects s' 1 = Some b'
    \<and> sk_tx (c_socket a') = sent_bytes Little False [(7, rpc_result_of_string [65]), (7, rpc_result_of_string [66])]
    \<and> sk_tx (c_socket b') = sent_bytes Little False [(7, rpc_result_of_string [66]), (7, rpc_result_of_string [65])]"
  using overlapping_publications_cross [of two_subscribers 0 1 "subscriber 0" "subscriber 1" 7 Little 100 "world0 ()"
      "rpc_result_of_string [65]" "rpc_result_of_string [66]"]
  by (simp add: two_subscribers_def subscriber_def set_quit_callback_def new_connection_def fresh_socket_def) blast

section \<open>A publication without interruption\<close>

text \<open>The loop of \<open>publish\<close> on the thread of its connections, with nothing in between.\<close>

definition publish_all :: "endian \<Rightarrow> u32 \<Rightarrow> rpc_result \<Rightarrow> 'u shared \<Rightarrow> 'u world \<Rightarrow> 'u shared" where
  "publish_all host topic res s w =
     ((\<lambda>s. publish_next host True (length (sh_publishers s) - 1) s w) ^^ length (sh_table s)) (publish_begin topic res s)"

lemma response_shared:
  assumes "sh_objects s i = Some c" "c_id c = i" "c_quit_cb c" "\<not> c_has_closed c" "response host res k c w = (ec, c', w')"
  shows "\<exists>ids. w' = w\<lparr>w_quits := w_quits w @ ids\<rparr> \<and> snd (shared_response host True res k i s w)
    = (put_object i c' s)\<lparr>sh_table := filter (\<lambda>j. j \<notin> set ids) (sh_table s), sh_quits := sh_quits s @ ids\<rparr>"
proof -
  obtain ec1 c1 where r: "response_write host res k c w = (ec1, c1)" by fastforce
  note f = response_write_frame [OF r]
  have fil: "filter (\<lambda>j. j \<noteq> i) xs = filter (\<lambda>j. j \<notin> set [i]) xs" for xs by simp
  show ?thesis
  proof (cases "ec_set ec1")
    case True
    then show ?thesis
      using assms r f
      by (intro exI [of _ "[i]"])
         (auto simp: response_slices shared_response_def shared_close_def close_lambda_def conn_close_def put_object_def Let_def)
  next
    case False
    then show ?thesis using assms r
      by (intro exI [of _ "[]"]) (simp add: response_slices shared_response_def)
  qed
qed

lemma response_write_now: "response_write host res k c (w\<lparr>w_quits := q\<rparr>) = response_write host res k c w"
  by (simp add: response_write_def set_last_time_def)

lemma publish_to_now: "publish_to host own topic res i s (w\<lparr>w_quits := q\<rparr>) = publish_to host own topic res i s w"
  by (cases "sh_objects s i") (simp_all add: publish_to_def shared_response_def response_write_now)

lemma publish_loop_keys: "publish_loop host k res cs w = (cs', w') \<Longrightarrow> map fst cs' = map fst cs"
  by (induction cs arbitrary: w cs' w') (auto split: if_splits prod.splits)

lemma publish_loop_slices:
  assumes "publish_loop host k res cs w = (cs', w1)" "table_ok cs" "sh_publishers s = [\<lparr>pb_topic = k, pb_result = res, pb_left = map fst cs\<rparr>]"
    and "\<forall>(i, c) \<in> set cs. sh_objects s i = Some c"
  shows "\<exists>ids. w1 = w\<lparr>w_quits := w_quits w @ ids\<rparr> \<and> (\<exists>s'. ((\<lambda>s. publish_next host True 0 s w) ^^ length cs) s = s'
    \<and> sh_publishers s' = [\<lparr>pb_topic = k, pb_result = res, pb_left = []\<rparr>]
    \<and> sh_objects s' = sh_objects s ++ map_of cs' \<and> sh_table s' = filter (\<lambda>j. j \<notin> set ids) (sh_table s))"
  using assms
proof (induction cs arbitrary: w cs' w1 s)
  case Nil
  then show ?case by (intro exI [of _ "[]"]) simp
next
  case (Cons q cs)
  obtain i c where q: "q = (i, c)" by fastforce
  have c: "c_id c = i" "c_quit_cb c" "\<not> c_has_closed c" "i \<notin> fst ` set cs" and ok: "table_ok cs"
    using Cons.prems(2) q by (auto simp: table_ok_def)
  let ?p = "\<lambda>is. \<lparr>pb_topic = k, pb_result = res, pb_left = is\<rparr>"
  define s1 where "s1 = s\<lparr>sh_publishers := [?p (map fst cs)]\<rparr>"
  have s1: "sh_objects s1 i = Some c" using Cons.prems(4) q by (simp add: s1_def)
  have next1: "publish_next host True 0 s w = publish_to host True k res i s1 w"
    using Cons.prems(3) q by (simp add: publish_next_def s1_def)
  define r where "r = (if c_topic_id c = k then snd (response host res k c w) else (c, w))"
  obtain c1 wa where r1: "r = (c1, wa)" by fastforce
  obtain cs2 wb where l: "publish_loop host k res cs wa = (cs2, wb)" by fastforce
  have cs': "cs' = (i, c1) # cs2" "w1 = wb"
    using Cons.prems(1) q l r1 by (auto simp: r_def split: if_splits prod.splits)
  obtain ids where ids: "wa = w\<lparr>w_quits := w_quits w @ ids\<rparr>" "sh_objects (publish_to host True k res i s1 w) = (sh_objects s1)(i \<mapsto> c1)"
    "sh_table (publish_to host True k res i s1 w) = filter (\<lambda>j. j \<notin> set ids) (sh_table s1)"
  proof (cases "c_topic_id c = k")
    case True
    obtain ec c' w' where rs: "response host res k c w = (ec, c', w')" by (metis prod_cases3)
    obtain ids where "w' = w\<lparr>w_quits := w_quits w @ ids\<rparr>" "snd (shared_response host True res k i s1 w)
        = (put_object i c' s1)\<lparr>sh_table := filter (\<lambda>j. j \<notin> set ids) (sh_table s1), sh_quits := sh_quits s1 @ ids\<rparr>"
      using response_shared [OF s1 c(1 - 3) rs] by blast
    then show thesis using that [of ids] rs r1 True s1 by (simp add: r_def publish_to_def)
  next
    case False
    then show thesis using that [of "[]"] r1 s1 by (simp add: r_def publish_to_def fun_upd_idem)
  qed
  let ?s2 = "publish_to host True k res i s1 w"
  have pubs: "sh_publishers ?s2 = [?p (map fst cs)]" by (simp add: s1_def)
  have objs: "\<forall>(j, d) \<in> set cs. sh_objects ?s2 j = Some d"
    using Cons.prems(4) c(4) ids(2) by (force simp: s1_def)
  from Cons.IH [OF l ok pubs objs] obtain ids2 s' where ih: "wb = wa\<lparr>w_quits := w_quits wa @ ids2\<rparr>"
    "((\<lambda>s. publish_next host True 0 s wa) ^^ length cs) ?s2 = s'" "sh_publishers s' = [?p []]"
    "sh_objects s' = sh_objects ?s2 ++ map_of cs2" "sh_table s' = filter (\<lambda>j. j \<notin> set ids2) (sh_table ?s2)"
    by blast
  have "publish_next host True 0 s wa = publish_next host True 0 s w" for s :: "'a shared"
    unfolding ids(1) publish_next_def by (simp add: publish_to_now cong: list.case_cong)
  then have run: "((\<lambda>s. publish_next host True 0 s w) ^^ length (q # cs)) s = s'"
    using ih(2) next1 by (simp add: funpow_Suc_right del: funpow.simps)
  have "i \<notin> dom (map_of cs2)"
    using publish_loop_keys [OF l] c(4) by (metis dom_map_of_conv_image_fst set_map)
  then have "sh_objects ?s2 ++ map_of cs2 = sh_objects s ++ map_of cs'"
    unfolding ids(2) cs'(1) by (auto simp: s1_def map_add_def fun_eq_iff split: option.splits)
  then show ?case
    using run ih ids(1, 3) cs'(2) by (intro exI [of _ "ids @ ids2"]) (auto simp: s1_def)
qed

text \<open>
  What a publication is to do to a connection of the table: nothing, unless it is a subscriber of the topic;
  else one write of one frame, which carries the topic and the packed value, and if that fails, the connection
  leaves the table.
\<close>

definition published :: "endian \<Rightarrow> codec_env \<Rightarrow> bytes \<Rightarrow> ctype \<Rightarrow> cval \<Rightarrow> 'u world \<Rightarrow> connection \<Rightarrow> connection option" where
  "published host env topic t v w c =
     (if c_topic_id c \<noteq> hash_name topic then Some c
      else case async_write (response_frame host (c_cross_ending c) (rpc_result_of_string (pack_args env [(t, v)])) (hash_name topic))
                  (c_socket c) of
             (ec, sk) \<Rightarrow> if ec_set ec then None else Some ((set_last_time w c)\<lparr>c_socket := sk\<rparr>))"

lemma published_response:
  assumes "c_id c = i" "c_quit_cb c" "\<not> c_has_closed c" "c_topic_id c = hash_name topic"
  shows "\<exists>ec c'. response host (packed_result env [(t, v)]) (hash_name topic) c w
    = (ec, c', case published host env topic t v w c of None \<Rightarrow> w\<lparr>w_quits := w_quits w @ [i]\<rparr> | Some _ \<Rightarrow> w)
    \<and> (\<forall>d. published host env topic t v w c = Some d \<longrightarrow> c' = d)"
  using assms
  by (auto simp: published_def response_def response_frame_packed [symmetric] conn_close_def Let_def split: prod.splits)

lemma published_now: "published host env topic t v (w\<lparr>w_quits := q\<rparr>) c = published host env topic t v w c"
  by (simp add: published_def set_last_time_def split: prod.split)

lemma publish_loop_published:
  assumes "publish_loop host (hash_name topic) (packed_result env [(t, v)]) cs w = (cs', w1)" "table_ok cs"
  shows "\<exists>ids. w1 = w\<lparr>w_quits := w_quits w @ ids\<rparr> \<and> set ids \<subseteq> fst ` set cs
    \<and> (\<forall>i. map_of (filter (\<lambda>p. fst p \<notin> set ids) cs') i = Option.bind (map_of cs i) (published host env topic t v w))"
  using assms
proof (induction cs arbitrary: w cs' w1)
  case Nil
  then show ?case by (intro exI [of _ "[]"]) simp
next
  case (Cons q cs)
  let ?k = "hash_name topic" and ?res = "packed_result env [(t, v)]"
  obtain i c where q: "q = (i, c)" by fastforce
  have c: "c_id c = i" "c_quit_cb c" "\<not> c_has_closed c" "i \<notin> fst ` set cs" and ok: "table_ok cs"
    using Cons.prems(2) q by (auto simp: table_ok_def)
  define r where "r = (if c_topic_id c = ?k then snd (response host ?res ?k c w) else (c, w))"
  obtain c1 wa where r1: "r = (c1, wa)" by fastforce
  obtain cs2 wb where l: "publish_loop host ?k ?res cs wa = (cs2, wb)" by fastforce
  have cs': "cs' = (i, c1) # cs2" "w1 = wb"
    using Cons.prems(1) q l r1 by (auto simp: r_def split: if_splits prod.splits)
  define out where "out = (if published host env topic t v w c = None then [i] else [])"
  have wa: "wa = w\<lparr>w_quits := w_quits w @ out\<rparr>" and c1: "published host env topic t v w c \<noteq> None \<longrightarrow> published host env topic t v w c = Some c1"
    using r1 published_response [OF c(1 - 3), of topic host env t v w] by (auto simp: r_def out_def published_def split: if_splits prod.splits)
  obtain ids where ids: "wb = wa\<lparr>w_quits := w_quits wa @ ids\<rparr>" "set ids \<subseteq> fst ` set cs"
    "\<forall>i. map_of (filter (\<lambda>p. fst p \<notin> set ids) cs2) i = Option.bind (map_of cs i) (published host env topic t v wa)"
    using Cons.IH [OF l ok] by blast
  have keys: "map fst cs2 = map fst cs" by (rule publish_loop_keys [OF l])
  then have k2: "i \<notin> fst ` set cs2" using c(4) by (metis set_map)
  have rest: "filter (\<lambda>p. fst p \<notin> set (out @ ids)) cs2 = filter (\<lambda>p. fst p \<notin> set ids) cs2"
    using k2 by (intro filter_cong) (auto simp: out_def)
  have "map_of (filter (\<lambda>p. fst p \<notin> set (out @ ids)) cs') j = Option.bind (map_of (q # cs) j) (published host env topic t v w)" for j
  proof (cases "j = i")
    case True
    have "map_of (filter (\<lambda>p. fst p \<notin> set ids) cs2) i = None" using k2 by (auto simp: map_of_eq_None_iff)
    then show ?thesis using True q cs'(1) c1 c(4) ids(2) rest by (auto simp: out_def)
  next
    case False
    then show ?thesis using q cs'(1) rest ids(3) unfolding wa published_now by auto
  qed
  then show ?case using ids(1, 2) cs'(2) wa q by (intro exI [of _ "out @ ids"]) (auto simp: out_def)
qed

text \<open>
  C10: what a publication does, and that it does the same in slices. On a state a server can reach,
  \<open>publish\<close> does to every connection of the table what \<open>published\<close> says: one frame to each subscriber
  of the topic, nothing to others, and only subscribers whose write fails are taken out; the state of the handlers
  stays. Its slices, which can be interrupted, come to the same connections, table and fields
  when they are run one after the other, and they are steps of a run of the shared connections.
\<close>

theorem publish_is_its_slices:
  assumes "(server_step host lim)\<^sup>*\<^sup>* (rpc_server_new address port n, world0 u) (sv, w)"
    and "publish host env topic t v sv w = (sv', w')"
    and "s' = publish_all host (hash_name topic) (packed_result env [(t, v)]) (shared_of sv) w"
  shows "w' = w \<and> (\<forall>i. map_of (sv_conns sv') i = Option.bind (map_of (sv_conns sv) i) (published host env topic t v w))
    \<and> sh_table s' = map fst (sv_conns sv') \<and> (\<forall>i \<in> set (sh_table s'). sh_objects s' i = map_of (sv_conns sv') i)
    \<and> (\<forall>p \<in> set (sh_publishers s'). pb_left p = []) \<and> (\<exists>es. shared_run host lim (shared_of sv, w) es (s', w))"
proof -
  let ?k = "hash_name topic" and ?res = "packed_result env [(t, v)]"
  have inv: "server_inv (sv, w)" by (rule server_reachable_inv [OF assms(1) server_inv_new])
  then have ok: "table_ok (sv_conns sv)" and q: "w_quits w = []" by (simp_all add: server_inv_def)
  let ?s = "publish_begin ?k ?res (shared_of sv)"
  obtain cs w1 where l: "publish_loop host ?k ?res (sv_conns sv) w = (cs, w1)" by fastforce
  have s: "sh_publishers ?s = [\<lparr>pb_topic = ?k, pb_result = ?res, pb_left = map fst (sv_conns sv)\<rparr>]"
    "sh_objects ?s = map_of (sv_conns sv)" "sh_table ?s = map fst (sv_conns sv)"
    by (simp_all add: publish_begin_def shared_of_def)
  have objs: "\<forall>(i, c) \<in> set (sv_conns sv). sh_objects ?s i = Some c" using ok s(2) by (auto simp: table_ok_def)
  from publish_loop_slices [OF l ok s(1) objs] obtain ids s1 where ids: "w1 = w\<lparr>w_quits := w_quits w @ ids\<rparr>"
    "((\<lambda>s. publish_next host True 0 s w) ^^ length (sv_conns sv)) ?s = s1"
    "sh_publishers s1 = [\<lparr>pb_topic = ?k, pb_result = ?res, pb_left = []\<rparr>]"
    "sh_objects s1 = sh_objects ?s ++ map_of cs" "sh_table s1 = filter (\<lambda>j. j \<notin> set ids) (sh_table ?s)"
    by blast
  have iter: "length (sh_publishers r) = 1 \<Longrightarrow> ((\<lambda>s. publish_next host True (length (sh_publishers s) - 1) s w) ^^ m) r
      = ((\<lambda>s. publish_next host True 0 s w) ^^ m) r \<and> length (sh_publishers (((\<lambda>s. publish_next host True 0 s w) ^^ m) r)) = 1" for m r
    by (induction m) (auto simp: publish_next_def Let_def split: list.split)
  have s': "s' = s1" using ids(2) iter [of ?s] s(1) unfolding assms(3) publish_all_def by (simp add: shared_of_def)
  have sv': "sv_conns sv' = filter (\<lambda>p. fst p \<notin> set ids) cs" "w' = w"
    using assms(2) l ids(1) q quits_none [OF q] by (auto simp: publish_def run_quits_simp)
  obtain ids' where ids': "w1 = w\<lparr>w_quits := w_quits w @ ids'\<rparr>"
    "\<forall>i. map_of (filter (\<lambda>p. fst p \<notin> set ids') cs) i = Option.bind (map_of (sv_conns sv) i) (published host env topic t v w)"
    using publish_loop_published [OF l ok] by blast
  have "ids' = ids" using ids'(1) ids(1) by (metis append_same_eq same_append_eq world.select_convs(3) world.surjective world.update_convs(3))
  with ids'(2) have spec: "\<forall>i. map_of (sv_conns sv') i = Option.bind (map_of (sv_conns sv) i) (published host env topic t v w)"
    unfolding sv'(1) by simp
  have keys: "map fst cs = map fst (sv_conns sv)" by (rule publish_loop_keys [OF l])
  have "sh_table s' = map fst (sv_conns sv')"
    unfolding s' ids(5) s(3) sv'(1) keys [symmetric] by (simp add: filter_map comp_def)
  moreover have "sh_objects s' i = map_of (sv_conns sv') i" if "i \<in> set (sh_table s')" for i
  proof -
    have i: "i \<notin> set ids" "i \<in> fst ` set cs" using that keys unfolding s' ids(5) s(3) by (auto simp flip: set_map)
    then obtain c where "map_of cs i = Some c" by (metis domD dom_map_of_conv_image_fst)
    then show ?thesis using i(1) unfolding s' ids(4) sv'(1) map_of_filter_fst by (simp add: map_add_def)
  qed
  moreover have "\<exists>es. shared_run host lim (shared_of sv, w) es (((\<lambda>s. publish_next host True 0 s w) ^^ m) ?s, w)" for m
  proof (induction m)
    case 0
    show ?case using shared_snoc [OF shared_nil sh_begin, of host lim "shared_of sv" w ?k ?res] by auto
  next
    case (Suc m)
    then show ?case using shared_snoc [OF _ sh_next] by (simp only: funpow.simps comp_def) blast
  qed
  ultimately show ?thesis using sv'(2) ids(2, 3) s' spec by auto
qed

theorem publish_is_its_slices_witness:
  "\<exists>(sv :: unit server) sv' c'. publish Little (default_env True) (str_bytes ''a'') T_int32 (V_int 5) sv (world0 ()) = (sv', world0 ())
    \<and> sv_conns sv' = [(0, c')] \<and> sk_tx (c_socket c') \<noteq> []
    \<and> sh_objects (publish_all Little (hash_name (str_bytes ''a'')) (packed_result (default_env True) [(T_int32, V_int 5)]) (shared_of sv) (world0 ())) 0
        = Some c'"
proof -
  let ?t = "hash_name (str_bytes ''a'')" and ?env = "default_env True"
  obtain es c and sv :: "unit server" where run: "server_run Little 100 (rpc_server_new [] [] 1, world0 ()) es (sv, world0 ())"
    and sv: "sv_conns sv = [(0, c)]" "serving c 0 False True" "c_topic_id c = ?t" "sk_tx (c_socket c) = []"
    using broker_witness_server [of ?t] by blast
  obtain sv' w' where p: "publish Little ?env (str_bytes ''a'') T_int32 (V_int 5) sv (world0 ()) = (sv', w')" by fastforce
  have q: "w_quits (world0 ()) = []" by (simp add: world0_def)
  obtain c' where c': "sv_conns sv' = [(0, c')]" "sk_tx (c_socket c') \<noteq> []"
    using p sv q response_success [of c Little "packed_result ?env [(T_int32, V_int 5)]" ?t "world0 ()"]
    by (auto simp: publish_def run_quits_simp serving_def response_frame_def)
  from publish_is_its_slices [OF server_run_steps [OF run] p refl] have "w' = world0 ()"
    "sh_objects (publish_all Little ?t (packed_result ?env [(T_int32, V_int 5)]) (shared_of sv) (world0 ())) 0 = Some c'"
    using c'(1) by auto
  then show ?thesis using p c' by blast
qed

end
