(* ===== verification/Write_Pieces.thy ===== *)
theory Write_Pieces
  imports Concurrent_Publications Calls
begin

text \<open>
  The writes of the connections in pieces. \<open>asio::async_write\<close> is documented as a composed operation: it hands
  over as much as the socket takes at a time, other code of the program runs in between, and the program has
  to see to it that no other write is made on the socket meanwhile. \<open>rpc_connection::response\<close>
  (include/rest_rpc/rpc_connection.hpp) is called by the connection's own loop, by \<open>rpc_context\<close> and by
  \<open>rpc_server::publish\<close>, and nothing keeps these calls apart. Here the events of Shared_Connections start
  writes, and further steps hand their bytes over: \<open>sk_tx\<close> of a connection is what writes were started with,
  and what went out is kept beside it.
\<close>

section \<open>Writes in flight\<close>

text \<open>Who waits for a write: the read loop of a connection, a publication, or whoever answers through a context.\<close>

datatype writer = W_loop u64 | W_publisher nat | W_context

record wires =
  wi_flight :: "(u64 \<times> writer \<times> bytes) list" \<comment> \<open>connection, writer and the bytes it has still to hand over\<close>
  wi_sent :: "u64 \<Rightarrow> bytes" \<comment> \<open>what went out on each connection\<close>

definition tx_of :: "'u shared \<Rightarrow> u64 \<Rightarrow> bytes" where
  "tx_of s i = (case sh_objects s i of None \<Rightarrow> [] | Some c \<Rightarrow> sk_tx (c_socket c))"

definition closed_in :: "'u shared \<Rightarrow> u64 \<Rightarrow> bool" where
  "closed_in s i \<longleftrightarrow> (case sh_objects s i of None \<Rightarrow> False | Some c \<Rightarrow> \<not> sk_open (c_socket c))"

definition flight_on :: "u64 \<Rightarrow> wires \<Rightarrow> (u64 \<times> writer \<times> bytes) list" where
  "flight_on i x = filter (\<lambda>f. fst f = i) (wi_flight x)"

definition left_on :: "u64 \<Rightarrow> wires \<Rightarrow> bytes" where
  "left_on i x = concat (map (\<lambda>f. snd (snd f)) (flight_on i x))"

definition waits :: "writer \<Rightarrow> wires \<Rightarrow> bool" where
  "waits who x \<longleftrightarrow> (\<exists>f \<in> set (wi_flight x). fst (snd f) = who)"

text \<open>
  \<open>async_write\<close> in \<open>response\<close>: what an event has added to the bytes of a connection is in flight. A write
  that fails has handed over what it could, and the connection is closed.
\<close>

definition start_write :: "writer \<Rightarrow> u64 \<Rightarrow> 'u shared \<Rightarrow> 'u shared \<Rightarrow> wires \<Rightarrow> wires" where
  "start_write who i s s' x =
     (let new = drop (length (tx_of s i)) (tx_of s' i) in
      if new = [] then x
      else if closed_in s' i then x\<lparr>wi_sent := (wi_sent x)(i := wi_sent x i @ new)\<rparr>
      else x\<lparr>wi_flight := wi_flight x @ [(i, who, new)]\<rparr>)"

text \<open>
  The steps. A coroutine does not go on while its own write is in flight. Nothing else has to wait, except on
  the connections of \<open>apart\<close>, on which no write is made to start while another is in flight: with no
  connection there, the runs are those of the code. A write in flight hands over bytes as long as the
  connection is open, and ends with an error when it was closed.
\<close>

inductive wire_step ::
  "endian \<Rightarrow> nat \<Rightarrow> u64 set \<Rightarrow> shared_label option \<Rightarrow> 'u shared \<times> 'u world \<times> wires \<Rightarrow> 'u shared \<times> 'u world \<times> wires \<Rightarrow> bool"
  for host :: endian and lim :: nat and apart :: "u64 set"
where
  wire_read: "shared_read host lim i s w = (s', w') \<Longrightarrow> \<not> waits (W_loop i) x \<Longrightarrow> (i \<in> apart \<longrightarrow> flight_on i x = []) \<Longrightarrow>
    wire_step host lim apart (Some (read_label host lim i s w)) (s, w, x) (s', w', start_write (W_loop i) i s s' x)"
| wire_answer: "shared_answer host own env args ctx s w = (ec, ctx', s') \<Longrightarrow> ctx_conn ctx = Some i \<Longrightarrow>
    (i \<in> apart \<longrightarrow> flight_on i x = []) \<Longrightarrow>
    wire_step host lim apart (Some Sh_other) (s, w, x) (s', w, start_write W_context i s s' x)"
| wire_next: "publish_next host own k s w = s' \<Longrightarrow> k < length (sh_publishers s) \<Longrightarrow> pb_left (sh_publishers s ! k) = i # left \<Longrightarrow>
    \<not> waits (W_publisher k) x \<Longrightarrow> (i \<in> apart \<longrightarrow> flight_on i x = []) \<Longrightarrow>
    wire_step host lim apart (Some Sh_other) (s, w, x) (s', w, start_write (W_publisher k) i s s' x)"
| wire_accept: "fresh_object i c s \<Longrightarrow> wire_step host lim apart (Some Sh_other) (s, w, x) (shared_accept i c s, w, x)"
| wire_begin: "wire_step host lim apart (Some (Sh_began topic res (sh_table s))) (s, w, x) (publish_begin topic res s, w, x)"
| wire_lambda: "wire_step host lim apart (Some Sh_other) (s, w, x) (run_posted j s, w, x)"
| wire_timeout: "wire_step host lim apart (Some Sh_other) (s, w, x) (shared_check_timeout owns dur w s, w, x)"
| wire_stop: "wire_step host lim apart (Some Sh_other) (s, w, x) (shared_stop owns s, w, x)"
| wire_handlers: "quits_kept rt \<Longrightarrow> wire_step host lim apart (Some Sh_other) (s, w, x) (s\<lparr>sh_router := rt\<rparr>, w, x)"
| wire_clock: "w_now w \<le> t \<Longrightarrow> wire_step host lim apart (Some Sh_other) (s, w, x) (s, w\<lparr>w_now := t\<rparr>, x)"
| wire_piece: "wi_flight x = fl @ (i, who, p @ q) # fl' \<Longrightarrow> p \<noteq> [] \<Longrightarrow> \<not> closed_in s i \<Longrightarrow>
    wire_step host lim apart None (s, w, x)
      (s, w, x\<lparr>wi_flight := fl @ (if q = [] then [] else [(i, who, q)]) @ fl', wi_sent := (wi_sent x)(i := wi_sent x i @ p)\<rparr>)"
| wire_aborted: "wi_flight x = fl @ (i, who, bs) # fl' \<Longrightarrow> closed_in s i \<Longrightarrow>
    wire_step host lim apart None (s, w, x) (s, w, x\<lparr>wi_flight := fl @ fl'\<rparr>)"

inductive wire_run ::
  "endian \<Rightarrow> nat \<Rightarrow> u64 set \<Rightarrow> 'u shared \<times> 'u world \<times> wires \<Rightarrow> shared_label list \<Rightarrow> 'u shared \<times> 'u world \<times> wires \<Rightarrow> bool"
  for host :: endian and lim :: nat and apart :: "u64 set" and st :: "'u shared \<times> 'u world \<times> wires"
where
  wire_nil: "wire_run host lim apart st [] st"
| wire_event: "wire_run host lim apart st es st1 \<Longrightarrow> wire_step host lim apart (Some e) st1 st2 \<Longrightarrow>
    wire_run host lim apart st (es @ [e]) st2"
| wire_bytes: "wire_run host lim apart st es st1 \<Longrightarrow> wire_step host lim apart None st1 st2 \<Longrightarrow>
    wire_run host lim apart st es st2"

text \<open>A server between two events, with nothing in flight.\<close>

definition wires_of :: "'u shared \<Rightarrow> wires" where
  "wires_of s = \<lparr>wi_flight = [], wi_sent = tx_of s\<rparr>"

section \<open>The events are those of the shared connections\<close>

text \<open>Forgetting what is in flight, a run is a run of Shared_Connections.\<close>

lemma wire_step_shared:
  assumes "wire_step host lim apart (Some e) (s, w, x) (s', w', x')"
  shows "shared_step host lim e (s, w) (s', w')"
  using assms by (cases rule: wire_step.cases) (auto intro: shared_step.intros)

lemma wire_step_bytes:
  assumes "wire_step host lim apart None (s, w, x) (s', w', x')"
  shows "s' = s \<and> w' = w"
  using assms by (cases rule: wire_step.cases) auto

lemma wire_run_shared:
  assumes "wire_run host lim apart (s, w, x) es st"
  shows "shared_run host lim (s, w) es (fst st, fst (snd st))"
  using assms
proof (induction rule: wire_run.induct)
  case wire_nil
  then show ?case by (simp add: shared_nil)
next
  case (wire_event es st1 e st2)
  then show ?case by (cases st1; cases st2) (auto intro: shared_snoc wire_step_shared)
next
  case (wire_bytes es st1 st2)
  then show ?case by (cases st1; cases st2) (auto dest: wire_step_bytes)
qed

section \<open>Writes kept apart\<close>

text \<open>
  Where writes are kept apart, at most one is in flight, and what writes were started with is what went
  out and what that one has left; until the connection is closed.
\<close>

definition in_order :: "u64 \<Rightarrow> 'u shared \<Rightarrow> wires \<Rightarrow> bool" where
  "in_order i s x \<longleftrightarrow> (closed_in s i \<or> length (flight_on i x) \<le> 1 \<and> tx_of s i = wi_sent x i @ left_on i x)"

lemma in_order_start:
  assumes "in_order i s x" "i = j \<longrightarrow> flight_on i x = []" "\<exists>new. tx_of s' j = tx_of s j @ new" "i \<noteq> j \<longrightarrow> tx_of s' i = tx_of s i"
    and "closed_in s i \<longrightarrow> closed_in s' i"
  shows "in_order i s' (start_write who j s s' x)"
  using assms by (auto simp: in_order_def start_write_def flight_on_def left_on_def Let_def)

text \<open>An operation on one connection adds to its bytes, and leaves those of the others; closing adds nothing.\<close>

definition tx_grows :: "u64 \<Rightarrow> 'u shared \<Rightarrow> 'u shared \<Rightarrow> bool" where
  "tx_grows j s s' \<longleftrightarrow> (\<exists>new. tx_of s' j = tx_of s j @ new) \<and> (\<forall>i. i \<noteq> j \<longrightarrow> tx_of s' i = tx_of s i)"

lemma tx_grows_same: "tx_of s' = tx_of s \<Longrightarrow> tx_grows j s s'"
  by (simp add: tx_grows_def)

lemma close_lambda_tx: "tx_of (close_lambda need_cb j s) = tx_of s"
  by (auto simp: tx_of_def close_lambda_def put_object_def Let_def fun_eq_iff split: option.split)

lemma shared_close_tx: "tx_of (shared_close own need_cb j s) = tx_of s"
  using close_lambda_tx by (auto simp: shared_close_def tx_of_def split: option.split)

lemma sweep_tx: "tx_of (shared_sweep own old s) = tx_of s"
proof -
  have "tx_of (fold (\<lambda>j. shared_close (own j) False j) js s) = tx_of s" for js and s :: "'a shared"
    by (induction js arbitrary: s) (simp_all add: shared_close_tx)
  then show ?thesis by (simp add: shared_sweep_def) (simp add: tx_of_def fun_eq_iff)
qed

lemma run_posted_tx: "tx_of (run_posted j s) = tx_of s"
  by (simp add: run_posted_def close_lambda_tx split: prod.split) (simp add: tx_of_def fun_eq_iff)

lemma accept_tx: "fresh_object j c s \<Longrightarrow> tx_of (shared_accept j c s) = tx_of s"
  by (auto simp: tx_of_def shared_accept_def fresh_object_def fun_eq_iff)

lemma begin_tx: "tx_of (publish_begin topic res s) = tx_of s" and handlers_tx: "tx_of (s\<lparr>sh_router := rt\<rparr>) = tx_of s"
  by (simp_all add: tx_of_def publish_begin_def fun_eq_iff)

lemma async_write_tx: "async_write bs s = (ec, s') \<Longrightarrow> \<exists>new. sk_tx s' = sk_tx s @ new"
  by (auto simp: async_write_def split: if_splits list.splits option.splits)

lemma shared_response_grows: "tx_grows j s (snd (shared_response host own res k j s w))"
proof (cases "sh_objects s j")
  case (Some c)
  obtain ec c' where r: "response_write host res k c w = (ec, c')" by fastforce
  obtain new where "sk_tx (c_socket c') = sk_tx (c_socket c) @ new"
    using r async_write_tx by (fastforce simp: response_write_def Let_def split: prod.splits)
  then have "tx_grows j s (put_object j c' s)" using Some by (auto simp: tx_grows_def tx_of_def)
  then show ?thesis using Some r by (simp add: shared_response_def tx_grows_def shared_close_tx)
qed (simp add: shared_response_def tx_grows_def)

lemma read_request_tx:
  assumes "read_request host lim rt c w = (r, c', w')"
  shows "\<exists>new. sk_tx (c_socket c') = sk_tx (c_socket c) @ new"
proof -
  obtain fr c1 w1 where f: "read_frame host lim c w = (fr, c1, w1)" by (metis prod_cases3)
  have t: "sk_tx (c_socket c1) = sk_tx (c_socket c)"
    using f by (auto simp: read_frame_def conn_close_def Let_def split: prod.splits if_splits dest!: async_read_keeps)
  have "\<exists>new. sk_tx (c_socket c') = sk_tx (c_socket c1) @ new" if "route_request host rt key c1 w1 = (r, c', w')" for key
    using that by (fastforce simp: route_request_def response_def conn_close_def Let_def split: prod.splits if_splits dest!: async_write_tx)
  then show ?thesis using assms f t by (cases fr) (auto simp: read_request_def)
qed

lemma shared_read_grows:
  assumes "shared_read host lim j s w = (s', w')"
  shows "tx_grows j s s'"
proof (cases "\<exists>c. sh_objects s j = Some c \<and> j \<in> sh_reading s")
  case True
  then obtain c where c: "sh_objects s j = Some c" "j \<in> sh_reading s" by blast
  obtain r c' w1 where r: "read_request host lim (sh_router s) c w = (r, c', w1)" by (metis prod_cases3)
  then show ?thesis using assms c read_request_tx [OF r] by (auto simp: shared_read_def tx_grows_def tx_of_def)
qed (use assms in \<open>auto simp: shared_read_def tx_grows_def split: option.splits if_splits\<close>)

lemma shared_answer_grows:
  assumes "shared_answer host own env args ctx s w = (ec, ctx', s')" "ctx_conn ctx = Some j"
  shows "tx_grows j s s'"
proof (cases "ctx_has_response ctx")
  case False
  then show ?thesis using assms shared_response_grows [of j s host own "packed_result env args" 0 w]
    by (auto simp: shared_answer_def split: prod.splits)
qed (use assms in \<open>simp add: shared_answer_def tx_grows_def\<close>)

lemma publish_next_grows:
  assumes "k < length (sh_publishers s)" "pb_left (sh_publishers s ! k) = j # left"
  shows "tx_grows j s (publish_next host own k s w)"
proof -
  let ?s = "s\<lparr>sh_publishers := (sh_publishers s)[k := (sh_publishers s ! k)\<lparr>pb_left := left\<rparr>]\<rparr>"
  have "tx_of ?s = tx_of s" by (simp add: tx_of_def fun_eq_iff)
  then show ?thesis
    using assms shared_response_grows [of j ?s host own "pb_result (sh_publishers s ! k)" "pb_topic (sh_publishers s ! k)" w]
    by (simp add: publish_next_def publish_to_def tx_grows_def Let_def)
qed

lemma closed_stays:
  assumes "shared_step host lim e (s, w) (s', w')" "shared_inv s" "closed_in s i"
  shows "closed_in s' i"
proof -
  obtain c where c: "sh_objects s i = Some c" "\<not> sk_open (c_socket c)" using assms(3) by (auto simp: closed_in_def split: option.splits)
  from accountsD [OF shared_step_accounts [OF assms(1), of i]] show ?thesis
    using assms(2) c by (auto simp: closed_in_def)
qed

lemma in_order_event:
  assumes "in_order i s x" "i \<in> apart" "j \<in> apart \<longrightarrow> flight_on j x = []" "tx_grows j s s'"
    and "shared_step host lim e (s, w) (s', w')" "shared_inv s"
  shows "in_order i s' (start_write who j s s' x)"
  using assms(2 - 4) closed_stays [OF assms(5, 6)]
  by (intro in_order_start [OF assms(1)]) (auto simp: tx_grows_def)

lemma in_order_quiet:
  assumes "in_order i s x" "tx_of s' = tx_of s" "shared_step host lim e (s, w) (s', w')" "shared_inv s"
  shows "in_order i s' x"
  using assms(1, 2) closed_stays [OF assms(3, 4)] by (auto simp: in_order_def)

lemma in_order_step:
  assumes "wire_step host lim apart l (s, w, x) (s', w', x')" "i \<in> apart" "shared_inv s" "in_order i s x"
  shows "in_order i s' x'"
proof (cases l)
  case (Some e)
  note st = wire_step_shared [OF assms(1) [unfolded Some]]
  note ev = in_order_event [OF assms(4, 2) _ _ st assms(3)] and qu = in_order_quiet [OF assms(4) _ st assms(3)]
  from assms(1) Some st show ?thesis
  proof (cases rule: wire_step.cases)
    case (wire_read j)
    then have "tx_grows j s s'" by (blast intro: shared_read_grows)
    then show ?thesis using ev [of j] wire_read by auto
  next
    case (wire_answer own env args ctx ec ctx' j)
    then have "tx_grows j s s'" by (blast intro: shared_answer_grows)
    then show ?thesis using ev [of j] wire_answer by auto
  next
    case (wire_next own k j left)
    then have "tx_grows j s s'" using publish_next_grows by blast
    then show ?thesis using ev [of j] wire_next by auto
  qed (use qu in \<open>auto simp: accept_tx begin_tx handlers_tx run_posted_tx sweep_tx shared_check_timeout_def shared_stop_def\<close>)
next
  case None
  from assms(1) None show ?thesis
  proof (cases rule: wire_step.cases)
    case (wire_piece fl j who p q fl')
    then show ?thesis using assms(4) by (auto simp: in_order_def flight_on_def left_on_def)
  next
    case (wire_aborted fl j who bs fl')
    then show ?thesis using assms(4) by (auto simp: in_order_def flight_on_def left_on_def split: if_splits)
  qed simp_all
qed

lemma in_order_run:
  assumes "wire_run host lim apart (s, w, x) es st" "i \<in> apart" "shared_inv s" "w_quits w = []" "in_order i s x"
  shows "in_order i (fst st) (snd (snd st))"
  using assms
proof (induction rule: wire_run.induct)
  case (wire_event es st1 e st2)
  obtain s1 w1 x1 s2 w2 x2 where st: "st1 = (s1, w1, x1)" "st2 = (s2, w2, x2)" by (metis prod_cases3)
  have "shared_inv s1" using shared_run_inv [OF wire_run_shared [OF wire_event.hyps(1)]] wire_event.prems st by simp
  from in_order_step [OF wire_event.hyps(2) [unfolded st] wire_event.prems(1) this] show ?case
    using wire_event st by simp
next
  case (wire_bytes es st1 st2)
  obtain s1 w1 x1 s2 w2 x2 where st: "st1 = (s1, w1, x1)" "st2 = (s2, w2, x2)" by (metis prod_cases3)
  have "shared_inv s1" using shared_run_inv [OF wire_run_shared [OF wire_bytes.hyps(1)]] wire_bytes.prems st by simp
  from in_order_step [OF wire_bytes.hyps(2) [unfolded st] wire_bytes.prems(1) this] show ?case
    using wire_bytes st by simp
qed simp

lemma wire_run_trans:
  assumes "wire_run host lim apart st1 es2 st2" "wire_run host lim apart st0 es1 st1"
  shows "wire_run host lim apart st0 (es1 @ es2) st2"
  using assms
proof (induction rule: wire_run.induct)
  case (wire_event es st2 e st3)
  then show ?case using wire_run.wire_event [of host lim apart st0 "es1 @ es" st2 e st3] by simp
next
  case (wire_bytes es st2 st3)
  then show ?case using wire_run.wire_bytes by blast
qed simp

text \<open>
  C8: publications under way at the same time get through to everyone, once each, as long as the writes on a
  connection do not overlap. Take two moments of a run, the later one with no publication under way, and a
  subscriber on which no write was started while another was in flight, and nothing is in flight in the end. It
  is open, did not subscribe again and had no failing writes ahead. However publications, reads, answers,
  closings, timeouts and the pieces of writes followed one another, what went out on it is the rest of the
  write in flight at the first moment and then whole frames; among them the publications are, in some order,
  exactly those it had still to get at the first moment and those that began since while it was in the table.
\<close>

theorem concurrent_publications_delivered:
  assumes "(server_step host lim)\<^sup>*\<^sup>* (rpc_server_new address port n, world0 u) (sv, w0)"
    and "wire_run host lim apart (shared_of sv, w0, wires_of (shared_of sv)) es1 (s1, w1, x1)"
    and "wire_run host lim apart (s1, w1, x1) es2 (s2, w2, x2)" "i \<in> apart"
    and "sh_objects s1 i = Some c1" "sk_writes (c_socket c1) = []" "c_topic_id c1 \<noteq> 0" "Sh_subscribed i \<notin> set es2"
    and "sh_objects s2 i = Some c2" "sk_open (c_socket c2)" "\<forall>p \<in> set (sh_publishers s2). pb_left p = []" "flight_on i x2 = []"
  shows "\<exists>msgs. wi_sent x2 i = wi_sent x1 i @ left_on i x1 @ sent_bytes host (c_cross_ending c1) msgs
    \<and> mset [m \<leftarrow> msgs. fst m \<noteq> 0] = pending i (c_topic_id c1) (sh_publishers s1) + begun i (c_topic_id c1) es2"
proof -
  have sv: "server_inv (sv, w0)" by (rule server_reachable_inv [OF assms(1) server_inv_new])
  then have q: "w_quits w0 = []" and inv0: "shared_inv (shared_of sv)" using shared_of_inv by (auto simp: server_inv_def)
  have run1: "shared_run host lim (shared_of sv, w0) es1 (s1, w1)" and run2: "shared_run host lim (s1, w1) es2 (s2, w2)"
    using wire_run_shared [OF assms(2)] wire_run_shared [OF assms(3)] by simp_all
  have "in_order i (shared_of sv) (wires_of (shared_of sv))" by (simp add: in_order_def wires_of_def flight_on_def left_on_def)
  then have o1: "in_order i s1 x1" using in_order_run [OF assms(2, 4) inv0 q] by simp
  have inv1: "shared_inv s1" "w_quits w1 = []" using shared_run_inv [OF run1] inv0 q by simp_all
  have o2: "in_order i s2 x2" using in_order_run [OF assms(3, 4) inv1 o1] by simp
  obtain c2' where "sh_objects s2 i = Some c2'" "sk_open (c_socket c2') \<longrightarrow> sk_open (c_socket c1)"
    using shared_run_accounts [OF run2, of i c1] inv1 assms(5) by auto
  then have "\<not> closed_in s1 i" "\<not> closed_in s2 i" using assms(5, 9, 10) by (simp_all add: closed_in_def)
  then have tx: "sk_tx (c_socket c1) = wi_sent x1 i @ left_on i x1" "sk_tx (c_socket c2) = wi_sent x2 i"
    using o1 o2 assms(5, 9, 12) by (simp_all add: in_order_def tx_of_def left_on_def)
  from publications_started [OF assms(1) run1 run2 assms(5 - 11)] show ?thesis unfolding tx by simp
qed

text \<open>A connection that takes a publication in two pieces.\<close>

theorem concurrent_publications_delivered_witness:
  "\<exists>(sv :: unit server) s2 x2 msgs. map fst (sv_conns sv) = [0]
    \<and> wire_run Little 100 {0} (shared_of sv, world0 (), wires_of (shared_of sv)) [Sh_began 7 rpc_result_init [0], Sh_other] (s2, world0 (), x2)
    \<and> wi_flight x2 = [] \<and> wi_sent x2 0 = sent_bytes Little False msgs \<and> mset [m \<leftarrow> msgs. fst m \<noteq> 0] = {#(7, rpc_result_init)#}"
proof -
  obtain es c and sv :: "unit server" where run: "server_run Little 100 (rpc_server_new [] [] 1, world0 ()) es (sv, world0 ())"
    and sv: "sv_conns sv = [(0, c)]" "serving c 0 False True" "c_topic_id c = 7" "sk_tx (c_socket c) = []"
    using broker_witness_server [of 7] by blast
  let ?s = "shared_of sv" and ?w = "world0 ()" and ?x = "wires_of (shared_of sv)" and ?f = "response_frame Little False rpc_result_init 7"
  define s1 where "s1 = publish_begin 7 rpc_result_init ?s"
  have s: "sh_objects ?s 0 = Some c" "sh_table ?s = [0]" "sh_publishers ?s = []" using sv(1) by (simp_all add: shared_of_def)
  have s1: "sh_publishers s1 = [\<lparr>pb_topic = 7, pb_result = rpc_result_init, pb_left = [0]\<rparr>]" "sh_objects s1 0 = Some c"
    using s by (simp_all add: s1_def publish_begin_def)
  have c: "sk_open (c_socket c)" "sk_writes (c_socket c) = []" "c_cross_ending c = False"
    using sv(2) by (auto simp: serving_def)
  obtain c2 where c2: "publish_next Little True 0 s1 ?w
      = put_object 0 c2 (s1\<lparr>sh_publishers := [\<lparr>pb_topic = 7, pb_result = rpc_result_init, pb_left = []\<rparr>]\<rparr>)" "sk_open (c_socket c2)"
    "sk_tx (c_socket c2) = ?f"
    using publish_next_sends [of 0 s1 _ 0 "[]" c Little True ?w] s1 c sv(3, 4) by (auto simp: sent_bytes_def)
  define s2 where "s2 = publish_next Little True 0 s1 ?w"
  have o2: "sh_objects s2 0 = Some c2" "\<not> closed_in s2 0" using c2 by (simp_all add: s2_def closed_in_def)
  define y where "y = start_write (W_publisher 0) 0 s1 s2 ?x"
  have ne: "?f \<noteq> []" by (simp add: response_frame_def)
  have x0: "wi_flight ?x = []" "wi_sent ?x 0 = []" using s(1) sv(4) by (simp_all add: wires_of_def tx_of_def)
  have y: "wi_flight y = [(0, W_publisher 0, ?f)]" "wi_sent y 0 = []"
    using s1(2) sv(4) o2 c2(3) ne x0 by (simp_all add: y_def start_write_def tx_of_def)
  obtain p q where pq: "?f = p @ q" "p \<noteq> []" "q \<noteq> []"
    using that [of "[hd ?f]" "tl ?f"] ne by (simp add: response_frame_def header_bytes_def)
  let ?y1 = "y\<lparr>wi_flight := [] @ (if q = [] then [] else [(0, W_publisher 0, q)]) @ [], wi_sent := (wi_sent y)(0 := wi_sent y 0 @ p)\<rparr>"
  let ?y2 = "?y1\<lparr>wi_flight := [] @ (if ([] :: bytes) = [] then [] else [(0, W_publisher 0, [])]) @ [], wi_sent := (wi_sent ?y1)(0 := wi_sent ?y1 0 @ q)\<rparr>"
  have "wire_step Little 100 {0} (Some (Sh_began 7 rpc_result_init (sh_table ?s))) (?s, ?w, ?x) (s1, ?w, ?x)"
    unfolding s1_def by (rule wire_begin)
  note r1 = wire_event [OF wire_nil this]
  have "wire_step Little 100 {0} (Some Sh_other) (s1, ?w, ?x) (s2, ?w, y)"
    unfolding y_def by (rule wire_next [where own = True and left = "[]"])
      (use s1 x0 in \<open>simp_all add: s2_def waits_def flight_on_def\<close>)
  note r2 = wire_event [OF r1 this]
  have "wire_step Little 100 {0} None (s2, ?w, y) (s2, ?w, ?y1)"
    by (rule wire_piece) (use y(1) pq o2 in simp_all)
  note r3 = wire_bytes [OF r2 this]
  have "wire_step Little 100 {0} None (s2, ?w, ?y1) (s2, ?w, ?y2)"
    by (rule wire_piece) (use pq o2 in simp_all)
  note r4 = wire_bytes [OF r3 this]
  have left: "wi_flight ?y2 = []" by simp
  have "\<exists>msgs. wi_sent ?y2 0 = wi_sent ?x 0 @ left_on 0 ?x @ sent_bytes Little (c_cross_ending c) msgs
    \<and> mset [m \<leftarrow> msgs. fst m \<noteq> 0] = pending 0 (c_topic_id c) (sh_publishers ?s)
        + begun 0 (c_topic_id c) (([] @ [Sh_began 7 rpc_result_init (sh_table ?s)]) @ [Sh_other])"
    by (rule concurrent_publications_delivered [OF server_run_steps [OF run] wire_nil r4, of 0 c c2])
       (use c c2(1, 2) o2(1) sv(3) s in \<open>simp_all add: s2_def flight_on_def\<close>)
  moreover have "left_on 0 ?x = []" using x0 by (simp add: left_on_def flight_on_def)
  ultimately obtain msgs where m: "wi_sent ?y2 0 = sent_bytes Little False msgs" "mset [m \<leftarrow> msgs. fst m \<noteq> 0] = {#(7, rpc_result_init)#}"
    using sv(3) c(3) s(2, 3) x0(2) by (auto simp: pending_def)
  have r: "wire_run Little 100 {0} (?s, ?w, ?x) [Sh_began 7 rpc_result_init [0], Sh_other] (s2, ?w, ?y2)"
    using r4 s(2) by simp
  show ?thesis using sv(1) by (intro exI [of _ sv] exI [of _ s2] exI [of _ ?y2] exI [of _ msgs] conjI r left m) simp
qed

section \<open>An answer and a publication at the same time\<close>

lemma response_frame_split:
  "response_frame host cross res k = header_bytes host (response_header host cross res k) @ errc_byte (rr_ec res) # rr_data res"
  using rr_data_empty [of res] by (auto simp: response_frame_def)

text \<open>A client that waits for an answer and gets another frame between its header and its body.\<close>

lemma wait_response_mixed:
  assumes "sk_open (cl_impl cl)" "cl_cross_ending cl = cross" "is_void R"
    and "length (rr_data res) < lim" "length (rr_data res) < 2 ^ 64 - 1"
    and "sk_rx (cl_impl cl) = header_bytes host (response_header host cross res 0) @ response_frame host cross pub topic
           @ errc_byte (rr_ec res) # rr_data res"
  shows "fst (wait_response host lim env R cl) = Returned \<lparr>cr_ec = errc_of_byte 39, cr_value = cr_value (init_result R)\<rparr>"
proof -
  let ?h = "response_header host cross res 0" and ?plain = "response_header host False res 0"
  let ?f = "response_frame host cross pub topic" and ?b = "errc_byte (rr_ec res) # rr_data res"
  have hd: "\<exists>fs. ?f = 39 # fs"
    by (simp add: response_frame_split header_bytes_def response_header_def prepare_for_send_def init_header_def Let_def)
  have "unat (of_nat (length ?b) :: u64) = length ?b" by (rule unat_of_nat_small) (use assms(5) in simp)
  then have len: "unat (body_len ?plain) = length ?b"
    by (simp add: response_header_def Let_def rr_size_data add.commute)
  have rd: "async_read header_size (cl_impl cl) = (no_error, header_bytes host ?h, (cl_impl cl)\<lparr>sk_rx := ?f @ ?b\<rparr>)"
    using async_read_full [of "cl_impl cl" "header_bytes host ?h" "?f @ ?b" header_size] assms(1, 6) by simp
  define body where "body = take (length ?b) (?f @ ?b)"
  have rd2: "async_read (length ?b) ((cl_impl cl)\<lparr>sk_rx := ?f @ ?b\<rparr>)
      = (no_error, body, (cl_impl cl)\<lparr>sk_rx := drop (length ?b) (?f @ ?b)\<rparr>)"
    using async_read_full [of "(cl_impl cl)\<lparr>sk_rx := ?f @ ?b\<rparr>" body "drop (length ?b) (?f @ ?b)" "length ?b"] assms(1)
    unfolding body_def append_take_drop_id by simp
  have body: "body \<noteq> []" "hd body = 39" using hd by (auto simp: body_def)
  have "(if cross then parse_recieved host ?h else ?h) = ?plain" "magic ?h = 39"
    by (simp_all add: response_header_def Let_def init_header_def)
  then show ?thesis
    using assms(1 - 4) rd rd2 len body
    by (cases cross) (simp_all add: wait_response_def Let_def complete_topic_reply init_result_def)
qed

text \<open>
  C38: an answer and a publication that are written at the same time can spoil each other. A subscriber
  calls while a publication is under way: there is a run in which the loop of its connection starts to write the
  answer and the socket takes the header of it, then \<open>publish\<close> writes to the same connection, without
  waiting, and only then the rest of the answer goes out. The client takes the header of the publication
  for the body of its answer and returns, for a function without result, a code that is not an enumerator of
  \<open>rpc_errc\<close>.
\<close>

theorem overlapping_writes_spoil_answer:
  assumes "sh_objects s i = Some c" "serving c i cross cb" "c_topic_id c = topic" "i \<in> sh_reading s"
    and "sk_rx (c_socket c) = request_frame host cross key body @ r" "length body \<le> lim" "length body < 2 ^ 64"
    and "route (sh_router s) key body (set_connection i w) = (res, w1)" "\<not> tls_delay (w_tls w1)" "w_quits w1 = []"
    and "sh_table s = i # js" "sh_publishers s = []" "wi_flight x = []"
    and "sk_open (cl_impl cl)" "cl_cross_ending cl = cross" "is_void R"
    and "length (rr_data res) < lim'" "length (rr_data res) < 2 ^ 64 - 1"
  shows "\<exists>s' x' rx. wire_run host lim {} (s, w, x) [Sh_began topic pub (i # js), Sh_other, Sh_other] (s', w1, x')
    \<and> wi_flight x' = [] \<and> wi_sent x' i = wi_sent x i @ rx
    \<and> fst (wait_response host lim' env R (cl\<lparr>cl_impl := (cl_impl cl)\<lparr>sk_rx := rx\<rparr>\<rparr>))
        = Returned \<lparr>cr_ec = errc_of_byte 39, cr_value = cr_value (init_result R)\<rparr>
    \<and> errc_of_byte 39 \<notin> set enumerators"
proof -
  let ?h = "header_bytes host (response_header host cross res 0)" and ?b = "errc_byte (rr_ec res) # rr_data res"
  let ?f = "response_frame host cross pub topic" and ?p = "\<lambda>is. \<lparr>pb_topic = topic, pb_result = pub, pb_left = is\<rparr>"
  have fr: "response_frame host cross res 0 = ?h @ ?b" "?h \<noteq> []" "?f \<noteq> []"
    by (simp_all add: response_frame_split header_bytes_def)
  define s1 where "s1 = publish_begin topic pub s"
  have s1: "sh_publishers s1 = [?p (i # js)]" "sh_objects s1 = sh_objects s" "sh_reading s1 = sh_reading s" "sh_router s1 = sh_router s"
    using assms(11, 12) by (simp_all add: s1_def publish_begin_def)
  obtain c2 res2 w2 where c2: "route (sh_router s) key body (set_connection i w) = (res2, w2)" "serving c2 i cross cb"
    "c_topic_id c2 = c_topic_id c"
    "sk_tx (c_socket c2) = sk_tx (c_socket c) @ (if tls_delay (w_tls w2) then [] else response_frame host cross res2 0)"
    "read_step host lim (sh_router s) (c, w) (c2, if tls_delay (w_tls w2) then set_delay False w2 else w2)"
    using read_step_request [OF assms(2, 5 - 7)] by metis
  then have tx2: "sk_tx (c_socket c2) = sk_tx (c_socket c) @ ?h @ ?b"
    and rq: "read_request host lim (sh_router s) c w = (None, c2, w1)"
    using assms(8, 9) fr by (simp_all add: read_step_def)
  obtain s2 where s2: "shared_read host lim i s1 w = (s2, w1)" "sh_objects s2 = (sh_objects s)(i \<mapsto> c2)" "sh_publishers s2 = [?p (i # js)]"
    using assms(1, 4, 10) s1 rq by (simp add: shared_read_def)
  have so: "sk_open (c_socket c2)" "sk_writes (c_socket c2) = []" "c_cross_ending c2 = cross"
    using c2(2) by (auto simp: serving_def)
  obtain c3 where c3: "publish_next host True 0 s2 w1 = put_object i c3 (s2\<lparr>sh_publishers := [?p js]\<rparr>)" "sk_open (c_socket c3)"
    "sk_tx (c_socket c3) = sk_tx (c_socket c2) @ ?f"
    using publish_next_sends [of 0 s2 "?p (i # js)" i js c2 host True w1] s2(2, 3) so c2(3) assms(3) by (auto simp: sent_bytes_def)
  define s3 where "s3 = publish_next host True 0 s2 w1"
  have s3: "sh_objects s3 i = Some c3" using c3(1) by (simp add: s3_def)
  let ?x1 = "x\<lparr>wi_flight := [(i, W_loop i, ?h @ ?b)]\<rparr>"
  let ?x2 = "?x1\<lparr>wi_flight := [(i, W_loop i, ?b)], wi_sent := (wi_sent ?x1)(i := wi_sent ?x1 i @ ?h)\<rparr>"
  let ?x3 = "?x2\<lparr>wi_flight := [(i, W_loop i, ?b), (i, W_publisher 0, ?f)]\<rparr>"
  let ?x4 = "?x3\<lparr>wi_flight := [(i, W_loop i, ?b)], wi_sent := (wi_sent ?x3)(i := wi_sent ?x3 i @ ?f)\<rparr>"
  let ?x5 = "?x4\<lparr>wi_flight := [], wi_sent := (wi_sent ?x4)(i := wi_sent ?x4 i @ ?b)\<rparr>"
  have open2: "\<not> closed_in s2 i" and open3: "\<not> closed_in s3 i" using s2(2) so(1) s3 c3(2) by (simp_all add: closed_in_def)
  have st1: "start_write (W_loop i) i s1 s2 x = ?x1"
    using s1(2) s2(2) assms(1, 13) tx2 open2 by (simp add: start_write_def tx_of_def)
  have st2: "start_write (W_publisher 0) i s2 s3 ?x2 = ?x3"
    using s2(2) s3 c3(3) fr(3) open3 by (simp add: start_write_def tx_of_def)
  have label: "read_label host lim i s1 w = Sh_other"
    using assms(1, 4) s1 read_frame_request [of c host key body r lim w] assms(2, 5 - 7) by (auto simp: read_label_def serving_def)
  have "wire_step host lim {} (Some (Sh_began topic pub (sh_table s))) (s, w, x) (s1, w, x)"
    unfolding s1_def by (rule wire_begin)
  note run = wire_event [OF wire_nil this]
  have "wire_step host lim {} (Some Sh_other) (s1, w, x) (s2, w1, ?x1)"
    using wire_read [OF s2(1), of x "{}"] assms(13) st1 label by (simp add: waits_def)
  note run = wire_event [OF run this]
  have "wire_step host lim {} None (s2, w1, ?x1) (s2, w1, ?x2)"
    using wire_piece [of ?x1 "[]" i "W_loop i" ?h ?b "[]" s2 host lim "{}" w1] fr(2) open2 by simp
  note run = wire_bytes [OF run this]
  have "wire_step host lim {} (Some Sh_other) (s2, w1, ?x2) (s3, w1, ?x3)"
    using wire_next [of host True 0 s2 w1 s3 i js ?x2 "{}" lim] s2(3) st2 by (simp add: s3_def waits_def)
  note run = wire_event [OF run this]
  have "wire_step host lim {} None (s3, w1, ?x3) (s3, w1, ?x4)"
    using wire_piece [of ?x3 "[(i, W_loop i, ?b)]" i "W_publisher 0" ?f "[]" "[]" s3 host lim "{}" w1] fr(3) open3 by simp
  note run = wire_bytes [OF run this]
  have "wire_step host lim {} None (s3, w1, ?x4) (s3, w1, ?x5)"
    using wire_piece [of ?x4 "[]" i "W_loop i" ?b "[]" "[]" s3 host lim "{}" w1] open3 by simp
  note run = wire_bytes [OF run this]
  have "wire_run host lim {} (s, w, x) [Sh_began topic pub (i # js), Sh_other, Sh_other] (s3, w1, ?x5)"
    using run assms(11) by simp
  moreover have "fst (wait_response host lim' env R (cl\<lparr>cl_impl := (cl_impl cl)\<lparr>sk_rx := ?h @ ?f @ ?b\<rparr>\<rparr>))
      = Returned \<lparr>cr_ec = errc_of_byte 39, cr_value = cr_value (init_result R)\<rparr>"
    by (rule wait_response_mixed) (use assms(14 - 18) in simp_all)
  moreover have "errc_of_byte 39 \<notin> set enumerators" by (simp add: errc_of_byte_def enumerators_def)
  ultimately show ?thesis by (intro exI [of _ s3] exI [of _ ?x5] exI [of _ "?h @ ?f @ ?b"]) simp
qed

text \<open>A subscriber of the topic 7 whose request is waiting to be read, on a server whose function returns nothing.\<close>

definition calling_subscriber :: "unit shared" where
  "calling_subscriber = \<lparr>sh_objects = [0 \<mapsto> (subscriber 0)\<lparr>c_socket := fresh_socket (request_frame Little False 5 [])\<rparr>],
     sh_table = [0], sh_reading = {0}, sh_posted = [], sh_quits = [], sh_publishers = [],
     sh_router = empty_router\<lparr>map_invokers := [5 \<mapsto> (\<lambda>data ret w. (Inr ret, w))]\<rparr>\<rparr>"

theorem overlapping_writes_spoil_answer_witness:
  "\<exists>s' w' x' rx. wire_run Little 100 {} (calling_subscriber, world0 (), wires_of calling_subscriber)
       [Sh_began 7 (rpc_result_of_string [104, 105]) [0], Sh_other, Sh_other] (s', w', x')
    \<and> wi_sent x' 0 = rx
    \<and> fst (wait_response Little 10 (default_env True) T_void (rpc_client_new\<lparr>cl_impl := fresh_socket rx\<rparr>))
        = Returned \<lparr>cr_ec = errc_other 39, cr_value = V_unit\<rparr>"
proof -
  let ?c = "(subscriber 0)\<lparr>c_socket := fresh_socket (request_frame Little False 5 [])\<rparr>"
  let ?cl = "rpc_client_new\<lparr>cl_impl := fresh_socket []\<rparr>" and ?w1 = "set_connection 0 (world0 ())"
  have c: "sh_objects calling_subscriber 0 = Some ?c" "sh_reading calling_subscriber = {0}" "sh_table calling_subscriber = [0]"
    "sh_publishers calling_subscriber = []" by (simp_all add: calling_subscriber_def)
  have v: "serving ?c 0 False True" "c_topic_id ?c = 7" "sk_rx (c_socket ?c) = request_frame Little False 5 [] @ []"
    by (simp_all add: serving_def subscriber_def set_quit_callback_def new_connection_def fresh_socket_def)
  obtain res where r: "route (sh_router calling_subscriber) 5 [] ?w1 = (res, ?w1)" "rr_data res = []"
    by (simp add: calling_subscriber_def route_def rpc_result_init_def rr_data_def Let_def)
  have w: "\<not> tls_delay (w_tls ?w1)" "w_quits ?w1 = []" by (simp_all add: set_connection_def world0_def)
  have x: "wi_flight (wires_of calling_subscriber) = []" "wi_sent (wires_of calling_subscriber) 0 = []"
    using c(1) by (simp_all add: wires_of_def tx_of_def fresh_socket_def)
  have e: "errc_of_byte 39 = errc_other 39" "cr_value (init_result T_void) = V_unit"
    by (simp_all add: errc_of_byte_def enumerators_def init_result_def)
  have "\<exists>s' x' rx. wire_run Little 100 {} (calling_subscriber, world0 (), wires_of calling_subscriber)
       [Sh_began 7 (rpc_result_of_string [104, 105]) (0 # []), Sh_other, Sh_other] (s', ?w1, x')
    \<and> wi_flight x' = [] \<and> wi_sent x' 0 = wi_sent (wires_of calling_subscriber) 0 @ rx
    \<and> fst (wait_response Little 10 (default_env True) T_void (?cl\<lparr>cl_impl := (cl_impl ?cl)\<lparr>sk_rx := rx\<rparr>\<rparr>))
        = Returned \<lparr>cr_ec = errc_of_byte 39, cr_value = cr_value (init_result T_void)\<rparr>
    \<and> errc_of_byte 39 \<notin> set enumerators"
    by (rule overlapping_writes_spoil_answer [OF c(1) v(1, 2) _ v(3) _ _ r(1) w])
       (use c r(2) x in \<open>simp_all add: fresh_socket_def rpc_client_new_def is_void_def\<close>)
  then show ?thesis unfolding e using x(2) by (fastforce simp: fresh_socket_def)
qed

end
