(* ===== verification/Interleaving.thy ===== *)
theory Interleaving
  imports Connection Scheduler
begin

text \<open>
  Several connections on one thread, include/rest_rpc/rpc_connection.hpp: a context of the pool runs
  the read loops of all connections that were given to it, and \<open>co_await router_.route(...)\<close> lets
  others go on while a handler waits. The thread-local data is shared by them. A loop is reading, or
  waits for a handler, or has ended. Here \<open>router_.route\<close> is a coroutine: it catches what the
  handler throws, so it returns a result.
\<close>

section \<open>The loops of a thread\<close>

datatype 'u task =
    Reading
  | Running "('u world, rpc_result) coro"
  | Ended loop_end

type_synonym 'u co_router = "u32 \<Rightarrow> bytes \<Rightarrow> ('u world, rpc_result) coro"

text \<open>What follows \<open>co_await router_.route(...)\<close> in the loop.\<close>

definition finish_request ::
  "endian \<Rightarrow> rpc_result \<Rightarrow> connection \<Rightarrow> 'u world \<Rightarrow> (connection \<times> 'u task) \<times> 'u world"
where
  "finish_request host res c w =
     (if tls_delay (w_tls w) then ((c, Reading), set_delay False w)
      else case response host res 0 c w of (ec, c, w) \<Rightarrow>
        if ec_set ec then ((c, Ended Write_failed), w) else ((c, Reading), w))"

text \<open>A slice of the handler; when it returns, the loop goes on at once.\<close>

definition run_slice ::
  "endian \<Rightarrow> ('u world, rpc_result) coro \<Rightarrow> connection \<Rightarrow> 'u world \<Rightarrow> (connection \<times> 'u task) \<times> 'u world"
where
  "run_slice host k c w =
     (case k of
        Co_return res \<Rightarrow> finish_request host res c w
      | Co_resume f \<Rightarrow>
          (case f w of (w', k') \<Rightarrow>
             case k' of Co_return res \<Rightarrow> finish_request host res c w' | Co_resume _ \<Rightarrow> ((c, Running k'), w')))"

definition conn_step ::
  "endian \<Rightarrow> nat \<Rightarrow> 'u co_router \<Rightarrow> connection \<times> 'u task \<Rightarrow> 'u world \<Rightarrow> ((connection \<times> 'u task) \<times> 'u world) option"
where
  "conn_step host lim rt ct w =
     (case ct of
        (c, Reading) \<Rightarrow>
          Some (case read_frame host lim c w of
            (Frame_end e, c, w) \<Rightarrow> ((c, Ended e), w)
          | (Frame_topic, c, w) \<Rightarrow> ((c, Reading), w)
          | (Frame_request key, c, w) \<Rightarrow>
              run_slice host (rt key (c_body c)) c (set_connection (c_id c) w))
      | (c, Running k) \<Rightarrow> Some (run_slice host k c w)
      | (c, Ended e) \<Rightarrow> None)"

section \<open>Handlers that do not suspend\<close>

text \<open>A router of plain functions as coroutines.\<close>

definition plain_router :: "'u world router \<Rightarrow> 'u co_router" where
  "plain_router rt key data =
     Co_resume (\<lambda>w. case route rt key data w of (res, w') \<Rightarrow> (w', Co_return res))"

lemma run_slice_plain:
  "run_slice host (plain_router rt key (c_body c)) c (set_connection (c_id c) w) =
     (case route_request host rt key c w of (r, c', w') \<Rightarrow>
        ((c', case r of None \<Rightarrow> Reading | Some e \<Rightarrow> Ended e), w'))"
  by (auto simp: run_slice_def plain_router_def finish_request_def route_request_def split: prod.splits)

lemma conn_step_plain:
  "conn_step host lim (plain_router rt) (c, Reading) w =
     (case read_request host lim rt c w of (r, c', w') \<Rightarrow>
        Some ((c', case r of None \<Rightarrow> Reading | Some e \<Rightarrow> Ended e), w'))"
  by (auto simp: conn_step_def read_request_def run_slice_plain split: prod.splits frame.splits)

section \<open>Every schedule ends\<close>

text \<open>A loop goes down in the bytes it has left to read, then from running over reading to its end.\<close>

definition task_less :: "('u task \<times> 'u task) set" where
  "task_less = {(t', t). case t of
      Ended _ \<Rightarrow> False
    | Reading \<Rightarrow> (\<exists>e. t' = Ended e)
    | Running k \<Rightarrow> (case t' of Running k' \<Rightarrow> co_child k' k | _ \<Rightarrow> True)}"

definition conn_less :: "((connection \<times> 'u task) \<times> (connection \<times> 'u task)) set" where
  "conn_less = inv_image (less_than <*lex*> task_less) (\<lambda>(c, t). (length (sk_rx (c_socket c)), t))"

lemma wf_task_less: "wf (task_less :: ('u task \<times> 'u task) set)"
proof (rule wfUNIVI)
  fix P :: "'u task \<Rightarrow> bool" and t
  assume step: "\<forall>x. (\<forall>y. (y, x) \<in> task_less \<longrightarrow> P y) \<longrightarrow> P x"
  have e: "P (Ended e)" for e using step [rule_format, of "Ended e"] by (auto simp: task_less_def)
  have r: "P Reading" using step [rule_format, of Reading] e by (auto simp: task_less_def)
  have "P (Running k)" for k
  proof (induction k rule: wf_induct_rule [OF wf_co_child])
    case (1 k)
    show ?case
    proof (rule step [rule_format])
      fix y assume "(y, Running k) \<in> task_less"
      then show "P y" using 1 e r by (cases y) (auto simp: task_less_def)
    qed
  qed
  then show "P t" using e r by (cases t) auto
qed

lemma finish_request_rx:
  "finish_request host res c w = ((c', t'), w') \<Longrightarrow>
     sk_rx (c_socket c') = sk_rx (c_socket c) \<and> (t' = Reading \<or> (\<exists>e. t' = Ended e))"
  by (auto simp: finish_request_def split: if_splits prod.splits dest!: response_rx)

lemma run_slice_less:
  assumes "run_slice host k c w = ((c', t'), w')"
  shows "sk_rx (c_socket c') = sk_rx (c_socket c) \<and> (t', Running k) \<in> task_less"
proof (cases k)
  case (Co_return res)
  then show ?thesis using assms finish_request_rx [of host res c w c' t' w']
    by (auto simp: run_slice_def task_less_def)
next
  case k: (Co_resume f)
  obtain w1 k1 where f: "f w = (w1, k1)" by fastforce
  have child: "co_child k1 k" unfolding k by (rule co_child.intros [of f w w1 k1, OF f])
  show ?thesis
  proof (cases k1)
    case (Co_return res)
    then have "finish_request host res c w1 = ((c', t'), w')" using assms f k by (simp add: run_slice_def)
    then show ?thesis using finish_request_rx [of host res c w1] k by (auto simp: task_less_def)
  next
    case (Co_resume g)
    then have "c' = c" "t' = Running k1" using assms f k by (simp_all add: run_slice_def)
    then show ?thesis using child by (simp add: task_less_def)
  qed
qed

lemma read_frame_rx_le:
  "read_frame host lim c w = (fr, c', w') \<Longrightarrow> length (sk_rx (c_socket c')) \<le> length (sk_rx (c_socket c))"
  by (auto simp: read_frame_def Let_def conn_close_def split: if_splits prod.splits dest!: async_read_frame)

lemma conn_step_less:
  assumes "conn_step host lim rt ct w = Some (ct', w')"
  shows "(ct', ct) \<in> conn_less"
proof -
  obtain c t where ct: "ct = (c, t)" by fastforce
  obtain c' t' where ct': "ct' = (c', t')" by fastforce
  show ?thesis
  proof (cases t)
    case Reading
    obtain fr c1 w1 where fr: "read_frame host lim c w = (fr, c1, w1)" by (metis prod_cases3)
    show ?thesis
    proof (cases fr)
      case (Frame_end e)
      then have "ct' = (c1, Ended e)" using assms ct Reading fr by (simp add: conn_step_def)
      then show ?thesis using read_frame_rx_le [OF fr] ct Reading
        by (auto simp: conn_less_def task_less_def)
    next
      case Frame_topic
      then have "ct' = (c1, Interleaving.Reading)" using assms ct Reading fr by (simp add: conn_step_def)
      then show ?thesis using read_frame_consumes [OF fr] Frame_topic ct Reading by (auto simp: conn_less_def)
    next
      case (Frame_request key)
      then have "run_slice host (rt key (c_body c1)) c1 (set_connection (c_id c1) w1) = (ct', w')"
        using assms ct Reading fr by (simp add: conn_step_def)
      then have "sk_rx (c_socket c') = sk_rx (c_socket c1)" using ct' run_slice_less by blast
      then show ?thesis using read_frame_consumes [OF fr] Frame_request ct ct' Reading by (auto simp: conn_less_def)
    qed
  next
    case (Running k)
    then have "run_slice host k c w = (ct', w')" using assms ct by (simp add: conn_step_def)
    then show ?thesis using run_slice_less [of host k c w c' t' w'] ct ct' Running by (simp add: conn_less_def)
  next
    case (Ended e)
    then show ?thesis using assms ct by (simp add: conn_step_def)
  qed
qed

interpretation conns: terminating_tasks "conn_step host lim rt" conn_less for host lim rt
proof
  show "wf conn_less" unfolding conn_less_def by (intro wf_inv_image wf_lex_prod wf_less_than wf_task_less)
qed (rule conn_step_less)

lemma conn_step_None: "conn_step host lim rt ct w = None \<longleftrightarrow> (\<exists>e. snd ct = Ended e)"
  by (cases ct) (auto simp: conn_step_def split: task.split)

section \<open>Every request is answered\<close>

text \<open>A coroutine that keeps a property of the world in each of its slices.\<close>

inductive co_keeps :: "('w \<Rightarrow> bool) \<Rightarrow> ('w, 'r) coro \<Rightarrow> bool" for P :: "'w \<Rightarrow> bool" where
  keeps_return: "co_keeps P (Co_return r)"
| keeps_resume: "(\<And>w. P w \<Longrightarrow> P (fst (f w)) \<and> co_keeps P (snd (f w))) \<Longrightarrow> co_keeps P (Co_resume f)"

inductive_cases co_keeps_resumeE: "co_keeps P (Co_resume f)"

text \<open>What a coroutine may return, resumed each time in some world with the property.\<close>

inductive co_may :: "('w \<Rightarrow> bool) \<Rightarrow> ('w, 'r) coro \<Rightarrow> 'r \<Rightarrow> bool" for P :: "'w \<Rightarrow> bool" where
  may_return: "co_may P (Co_return r) r"
| may_resume: "P w \<Longrightarrow> f w = (w', k) \<Longrightarrow> co_may P k r \<Longrightarrow> co_may P (Co_resume f) r"

inductive_simps co_may_return [simp]: "co_may P (Co_return r) r'"

abbreviation no_delay :: "'u world \<Rightarrow> bool" where
  "no_delay w \<equiv> \<not> tls_delay (w_tls w)"

abbreviation frames :: "endian \<Rightarrow> bool \<Rightarrow> (u32 \<times> bytes) list \<Rightarrow> bytes" where
  "frames host cross reqs \<equiv> concat (map (\<lambda>(key, body). request_frame host cross key body) reqs)"

abbreviation answers :: "endian \<Rightarrow> bool \<Rightarrow> rpc_result list \<Rightarrow> bytes" where
  "answers host cross rs \<equiv> concat (map (\<lambda>res. response_frame host cross res 0) rs)"

text \<open>Requests and results: each is one that the handler of its request may return.\<close>

abbreviation answered :: "'u co_router \<Rightarrow> (u32 \<times> bytes) list \<Rightarrow> rpc_result list \<Rightarrow> bool" where
  "answered rt \<equiv> list_all2 (\<lambda>(key, body) res. co_may no_delay (rt key body) res)"

text \<open>How far a loop has come with its requests: what it has answered and what is still to be read.\<close>

definition progress ::
  "endian \<Rightarrow> nat \<Rightarrow> 'u co_router \<Rightarrow> u64 \<Rightarrow> bool \<Rightarrow> bool \<Rightarrow> bytes \<Rightarrow> bytes \<Rightarrow> (u32 \<times> bytes) list \<Rightarrow> connection \<times> 'u task \<Rightarrow> bool"
where
  "progress host lim rt conn cross cb tx r reqs ct \<longleftrightarrow>
     (\<exists>ds rs rest. sk_tx (c_socket (fst ct)) = tx @ answers host cross rs \<and> answered rt ds rs
        \<and> (case snd ct of
             Ended e \<Rightarrow> e = Closed \<and> \<not> sk_open (c_socket (fst ct)) \<and> reqs = ds
           | Reading \<Rightarrow> reqs = ds @ rest
           | Running k \<Rightarrow> \<exists>key body. reqs = ds @ (key, body) # rest \<and> co_keeps no_delay k
               \<and> (\<forall>res. co_may no_delay k res \<longrightarrow> co_may no_delay (rt key body) res))
        \<and> ((\<forall>e. snd ct \<noteq> Ended e) \<longrightarrow> serving (fst ct) conn cross cb
             \<and> sk_rx (c_socket (fst ct)) = frames host cross rest @ r
             \<and> (\<forall>(key, body) \<in> set rest. length body \<le> lim \<and> length body < 2 ^ 64)))"

lemma finish_request_answers:
  assumes "serving c conn cross cb" "no_delay w"
  shows "\<exists>c'. finish_request host res c w = ((c', Reading), w) \<and> serving c' conn cross cb
    \<and> sk_rx (c_socket c') = sk_rx (c_socket c) \<and> sk_tx (c_socket c') = sk_tx (c_socket c) @ response_frame host cross res 0"
  using assms response_success [of c host res 0 w]
  by (simp add: finish_request_def serving_def)

lemma run_slice_progress:
  assumes "co_keeps no_delay k" "no_delay w" "serving c conn cross cb"
    and "sk_tx (c_socket c) = tx @ answers host cross rs" "sk_rx (c_socket c) = frames host cross rest @ r"
    and "answered rt ds rs" "reqs = ds @ (key, body) # rest" "\<forall>(key, body) \<in> set rest. length body \<le> lim \<and> length body < 2 ^ 64"
    and "\<And>res. co_may no_delay k res \<Longrightarrow> co_may no_delay (rt key body) res"
    and "run_slice host k c w = (ct', w')"
  shows "progress host lim rt conn cross cb tx r reqs ct' \<and> no_delay w'"
proof -
  have fin: "progress host lim rt conn cross cb tx r reqs ct' \<and> no_delay w'"
    if f: "finish_request host res c w1 = (ct', w')" "no_delay w1" "co_may no_delay k res" for res w1
  proof -
    obtain c' where c': "finish_request host res c w1 = ((c', Reading), w1)" "serving c' conn cross cb"
      "sk_rx (c_socket c') = sk_rx (c_socket c)" "sk_tx (c_socket c') = sk_tx (c_socket c) @ response_frame host cross res 0"
      using finish_request_answers [OF assms(3) f(2)] by blast
    then have "ct' = (c', Reading)" "w' = w1" using f(1) by auto
    moreover have "answered rt (ds @ [(key, body)]) (rs @ [res])"
      using assms(6, 9) f(3) by (auto intro: list_all2_appendI)
    ultimately show ?thesis using c' assms(4, 5, 7, 8) f(2) unfolding progress_def
      by (intro conjI exI [of _ "ds @ [(key, body)]"] exI [of _ "rs @ [res]"] exI [of _ rest]) auto
  qed
  show ?thesis
  proof (cases k)
    case (Co_return res)
    then show ?thesis using fin assms(2, 10) by (simp add: run_slice_def)
  next
    case k: (Co_resume f)
    obtain w1 k1 where f: "f w = (w1, k1)" by fastforce
    have "no_delay (fst (f w)) \<and> co_keeps no_delay (snd (f w))"
      using assms(1) unfolding k by (rule co_keeps_resumeE) (use assms(2) in blast)
    then have w1: "no_delay w1" "co_keeps no_delay k1" using f by simp_all
    have may: "co_may no_delay k res" if "co_may no_delay k1 res" for res
      unfolding k by (rule may_resume [where P = no_delay and w = w and f = f, OF assms(2) f that])
    show ?thesis
    proof (cases k1)
      case (Co_return res)
      then show ?thesis using fin [of res w1] may assms(10) f k w1 by (simp add: run_slice_def)
    next
      case (Co_resume g)
      then have "ct' = (c, Running k1)" "w' = w1" using assms(10) f k by (simp_all add: run_slice_def)
      moreover have "\<forall>res. co_may no_delay k1 res \<longrightarrow> co_may no_delay (rt key body) res"
        using may assms(9) by blast
      ultimately show ?thesis using assms(3 - 8) w1 unfolding progress_def
        by (intro conjI exI [of _ ds] exI [of _ rs] exI [of _ rest]) auto
    qed
  qed
qed

lemma read_frame_end_of_stream:
  assumes "serving c conn cross cb" "length (sk_rx (c_socket c)) < header_size"
  shows "\<exists>c'. read_frame host lim c w = (Frame_end Closed, c', if cb then w\<lparr>w_quits := w_quits w @ [conn]\<rparr> else w)
    \<and> \<not> sk_open (c_socket c') \<and> sk_tx (c_socket c') = sk_tx (c_socket c)"
  using assms by (auto simp: serving_def read_frame_def async_read_def header_size_def conn_close_def Let_def)

lemma conn_step_progress:
  assumes "progress host lim rt conn cross cb tx r reqs ct" "no_delay w" "length r < header_size"
    and "\<And>key data. co_keeps no_delay (rt key data)" "conn_step host lim rt ct w = Some (ct', w')"
  shows "progress host lim rt conn cross cb tx r reqs ct' \<and> no_delay w'"
proof -
  obtain c t where ct: "ct = (c, t)" by fastforce
  have t: "\<forall>e. t \<noteq> Ended e" using assms(5) ct by (auto simp: conn_step_def)
  obtain ds rs rest where tx: "sk_tx (c_socket c) = tx @ answers host cross rs" "answered rt ds rs"
    and n: "case t of Ended e \<Rightarrow> e = Closed \<and> \<not> sk_open (c_socket c) \<and> reqs = ds | Reading \<Rightarrow> reqs = ds @ rest
           | Running k \<Rightarrow> \<exists>key body. reqs = ds @ (key, body) # rest \<and> co_keeps no_delay k
               \<and> (\<forall>res. co_may no_delay k res \<longrightarrow> co_may no_delay (rt key body) res)"
    and live: "(\<forall>e. t \<noteq> Ended e) \<longrightarrow> serving c conn cross cb \<and> sk_rx (c_socket c) = frames host cross rest @ r
      \<and> (\<forall>(key, body) \<in> set rest. length body \<le> lim \<and> length body < 2 ^ 64)"
    using assms(1) unfolding progress_def ct fst_conv snd_conv by blast
  have rs: "sk_tx (c_socket c) = tx @ answers host cross rs" "serving c conn cross cb"
      "sk_rx (c_socket c) = frames host cross rest @ r" "\<forall>(key, body) \<in> set rest. length body \<le> lim \<and> length body < 2 ^ 64"
    using tx live t by blast+
  show ?thesis
  proof (cases t)
    case Reading
    show ?thesis
    proof (cases rest)
      case Nil
      then obtain c1 w1 where "read_frame host lim c w = (Frame_end Closed, c1, w1)" "no_delay w1"
        "\<not> sk_open (c_socket c1)" "sk_tx (c_socket c1) = sk_tx (c_socket c)"
        using read_frame_end_of_stream [OF rs(2), of host lim w] rs(3) assms(2, 3) by (auto split: if_splits)
      moreover from this have "ct' = (c1, Ended Closed)" "w' = w1"
        using assms(5) ct Reading by (simp_all add: conn_step_def)
      ultimately show ?thesis using rs(1) tx(2) n Nil Reading unfolding progress_def by auto
    next
      case (Cons req rest')
      obtain key body where req: "req = (key, body)" by fastforce
      let ?c1 = "(set_last_time w c)\<lparr>c_socket := (c_socket c)\<lparr>sk_rx := frames host cross rest' @ r\<rparr>, c_body := body\<rparr>"
      have "read_frame host lim c w = (Frame_request key, ?c1, w)"
        using rs Cons req by (intro read_frame_request) (auto simp: serving_def)
      then have "run_slice host (rt key body) ?c1 (set_connection (c_id c) w) = (ct', w')"
        using assms(5) ct Reading by (simp add: conn_step_def)
      moreover have "no_delay (set_connection (c_id c) w)" "serving ?c1 conn cross cb" "sk_tx (c_socket ?c1) = tx @ answers host cross rs"
        "sk_rx (c_socket ?c1) = frames host cross rest' @ r" "reqs = ds @ (key, body) # rest'"
        "\<forall>(key, body) \<in> set rest'. length body \<le> lim \<and> length body < 2 ^ 64"
        using rs n Cons req Reading assms(2) by (auto simp: serving_def set_connection_def)
      ultimately show ?thesis by (intro run_slice_progress [OF assms(4) _ _ _ _ tx(2)])
    qed
  next
    case (Running k)
    then have "run_slice host k c w = (ct', w')" using assms(5) ct by (simp add: conn_step_def)
    moreover obtain key body where "reqs = ds @ (key, body) # rest" "co_keeps no_delay k"
      "\<And>res. co_may no_delay k res \<Longrightarrow> co_may no_delay (rt key body) res" using n Running by auto
    ultimately show ?thesis using run_slice_progress [OF _ assms(2) rs(2, 1, 3) tx(2) _ rs(4)] by blast
  next
    case (Ended e)
    then show ?thesis using t by simp
  qed
qed

text \<open>The data of a connection at the start: itself and the requests that arrive on it.\<close>

definition receives ::
  "endian \<Rightarrow> nat \<Rightarrow> connection \<Rightarrow> (u32 \<times> bytes) list \<Rightarrow> bytes \<Rightarrow> bool"
where
  "receives host lim c reqs r \<longleftrightarrow> serving c (c_id c) (c_cross_ending c) (c_quit_cb c)
     \<and> sk_rx (c_socket c) = frames host (c_cross_ending c) reqs @ r \<and> length r < header_size
     \<and> (\<forall>(key, body) \<in> set reqs. length body \<le> lim \<and> length body < 2 ^ 64)"

lemma schedule_progress:
  fixes rt :: "'u co_router"
  assumes "(sched_step (conn_step host lim rt))\<^sup>*\<^sup>* (map (\<lambda>c. (c, Reading)) cs, w) (ts, w')"
    and "\<And>key data. co_keeps no_delay (rt key data)" "no_delay w"
    and "list_all2 (\<lambda>c (reqs, r). receives host lim c reqs r) cs rqs"
  shows "no_delay w' \<and> length ts = length cs \<and> (\<forall>i < length cs. progress host lim rt (c_id (cs ! i)) (c_cross_ending (cs ! i))
    (c_quit_cb (cs ! i)) (sk_tx (c_socket (cs ! i))) (snd (rqs ! i)) (fst (rqs ! i)) (ts ! i))"
  using assms(1)
proof (induction "(ts, w')" arbitrary: ts w' rule: rtranclp_induct)
  case base
  have "receives host lim (cs ! i) (fst (rqs ! i)) (snd (rqs ! i))" if "i < length cs" for i
    using list_all2_nthD [OF assms(4) that] by (simp add: case_prod_unfold)
  then have "progress host lim rt (c_id (cs ! i)) (c_cross_ending (cs ! i)) (c_quit_cb (cs ! i)) (sk_tx (c_socket (cs ! i)))
      (snd (rqs ! i)) (fst (rqs ! i)) (cs ! i, Reading :: 'u task)" if "i < length cs" for i
    using that unfolding progress_def receives_def by (intro exI [of _ "[]"] exI [of _ "fst (rqs ! i)"]) simp
  then show ?case using assms(3) by simp
next
  case (step s)
  obtain ts1 w1 where s: "s = (ts1, w1)" by fastforce
  note IH = step(3) [OF s]
  obtain j t' where j: "j < length ts1" "conn_step host lim rt (ts1 ! j) w1 = Some (t', w')" "ts = ts1[j := t']"
    using step(2) unfolding s by (auto elim: sched_stepE)
  have r: "length (snd (rqs ! j)) < header_size"
    using list_all2_nthD [OF assms(4), of j] IH j(1) by (auto simp: receives_def case_prod_unfold)
  have "progress host lim rt (c_id (cs ! j)) (c_cross_ending (cs ! j)) (c_quit_cb (cs ! j)) (sk_tx (c_socket (cs ! j)))
      (snd (rqs ! j)) (fst (rqs ! j)) t' \<and> no_delay w'"
    by (rule conn_step_progress [OF _ _ r assms(2) j(2)]) (use IH j(1) in auto)
  then show ?case using IH j by (auto simp: nth_list_update)
qed

text \<open>
  C12: every request is answered. However the loops of the connections of a thread are interleaved
  while their handlers suspend, no schedule goes on for ever; and when nothing is left to run, every
  connection has answered each request it received, in order, with one frame, which carries a result that
  the handler of that request may return, and is closed. This needs handlers that do not create an
  \<open>rpc_context\<close>: they leave the thread's request to put off an answer unset.
\<close>

theorem every_request_answered:
  assumes "(sched_step (conn_step host lim rt))\<^sup>*\<^sup>* (map (\<lambda>c. (c, Reading)) cs, w) (ts, w')"
    and "finished (conn_step host lim rt) (ts, w')"
    and "\<And>key data. co_keeps no_delay (rt key data)" "no_delay w"
    and "list_all2 (\<lambda>c (reqs, r). receives host lim c reqs r) cs rqs" "i < length cs"
  shows "(\<exists>c rs. ts ! i = (c, Ended Closed) \<and> \<not> sk_open (c_socket c)
      \<and> list_all2 (\<lambda>(key, body) res. co_may no_delay (rt key body) res) (fst (rqs ! i)) rs
      \<and> sk_tx (c_socket c) = sk_tx (c_socket (cs ! i))
          @ concat (map (\<lambda>res. response_frame host (c_cross_ending (cs ! i)) res 0) rs))
    \<and> wf {(s', s). sched_step (conn_step host lim rt) s s'}"
proof -
  note p = schedule_progress [OF assms(1, 3 - 5)]
  obtain c t where ct: "ts ! i = (c, t)" by fastforce
  have "ts ! i \<in> set ts" using p assms(6) by simp
  then obtain e where "t = Ended e"
    using assms(2) ct conn_step_None [of host lim rt "ts ! i" w'] by (auto simp: finished_def)
  then show ?thesis using p assms(6) ct conns.wf_sched [of host lim rt] by (fastforce simp: progress_def)
qed

text \<open>A connection with one request for the examples below, and a handler that suspends once.\<close>

definition one_request :: "u64 \<Rightarrow> u32 \<Rightarrow> connection" where
  "one_request conn key = new_connection (fresh_socket (request_frame Little False key [])) conn False 0"

lemma receives_one_request: "receives Little 100 (one_request conn key) [(key, [])] []"
  by (simp add: one_request_def receives_def serving_def new_connection_def fresh_socket_def header_size_def)

text \<open>Two connections whose handlers suspend once and return their own key as the text of the result.\<close>

theorem every_request_answered_witness:
  "\<exists>ts w' c1 c2. (sched_step (conn_step Little 100 (\<lambda>key data. Co_resume (\<lambda>w. (w, Co_resume (\<lambda>w.
         (w, Co_return (rpc_result_of_string (to_string (uint key))))))))))\<^sup>*\<^sup>*
       ([(one_request 1 5, Reading), (one_request 2 6, Reading)], world0 ()) (ts, w')
     \<and> ts ! 0 = (c1, Ended Closed) \<and> sk_tx (c_socket c1) = response_frame Little False (rpc_result_of_string (to_string 5)) 0
     \<and> ts ! 1 = (c2, Ended Closed) \<and> sk_tx (c_socket c2) = response_frame Little False (rpc_result_of_string (to_string 6)) 0"
proof -
  let ?rt = "\<lambda>(key :: u32) (data :: bytes). Co_resume (\<lambda>w :: unit world. (w, Co_resume (\<lambda>w.
      (w, Co_return (rpc_result_of_string (to_string (uint key)))))))"
  let ?cs = "[one_request 1 5, one_request 2 6]" and ?rqs = "[([(5, [])], []), ([(6, [])], [])] :: ((u32 \<times> bytes) list \<times> bytes) list"
  obtain s where "(sched_step (conn_step Little 100 ?rt))\<^sup>*\<^sup>* (map (\<lambda>c. (c, Reading)) ?cs, world0 ()) s"
    "finished (conn_step Little 100 ?rt) s" using conns.finishes by blast
  moreover obtain ts w' where "s = (ts, w')" by fastforce
  ultimately have steps: "(sched_step (conn_step Little 100 ?rt))\<^sup>*\<^sup>* (map (\<lambda>c. (c, Reading)) ?cs, world0 ()) (ts, w')"
    "finished (conn_step Little 100 ?rt) (ts, w')" by simp_all
  have k: "co_keeps no_delay (?rt key data)" for key data by (auto intro!: co_keeps.intros)
  have may: "res = rpc_result_of_string (to_string (uint key))" if "co_may no_delay (?rt key data) res" for key data res
    using that by (auto elim!: co_may.cases)
  have "\<exists>c. ts ! i = (c, Ended Closed) \<and> sk_tx (c_socket c) = response_frame Little False
      (rpc_result_of_string (to_string (uint (fst (hd (fst (?rqs ! i))))))) 0" if "i < 2" for i
  proof -
    have q: "length (fst (?rqs ! i)) = 1" "sk_tx (c_socket (?cs ! i)) = []" "\<not> c_cross_ending (?cs ! i)"
      using that by (auto simp: less_2_cases_iff one_request_def new_connection_def fresh_socket_def)
    have "(\<exists>c rs. ts ! i = (c, Ended Closed) \<and> \<not> sk_open (c_socket c)
        \<and> list_all2 (\<lambda>(key, body) res. co_may no_delay (?rt key body) res) (fst (?rqs ! i)) rs
        \<and> sk_tx (c_socket c) = sk_tx (c_socket (?cs ! i))
            @ concat (map (\<lambda>res. response_frame Little (c_cross_ending (?cs ! i)) res 0) rs))
      \<and> wf {(s', s). sched_step (conn_step Little 100 ?rt) s s'}"
      by (rule every_request_answered [OF steps k]) (use that in \<open>simp_all add: world0_def receives_one_request\<close>)
    then obtain c rs where c: "ts ! i = (c, Ended Closed)"
      "list_all2 (\<lambda>(key, body) res. co_may no_delay (?rt key body) res) (fst (?rqs ! i)) rs"
      "sk_tx (c_socket c) = concat (map (\<lambda>res. response_frame Little False res 0) rs)" using q by auto
    obtain kb where kb: "fst (?rqs ! i) = [kb]" using q(1) by (auto simp: length_Suc_conv)
    with c(2) obtain res where "rs = [res]" "co_may no_delay (?rt (fst kb) (snd kb)) res" by (auto simp: list_all2_Cons1 case_prod_unfold)
    then show ?thesis using c(1, 3) kb may by auto
  qed
  from this [of 0] this [of 1] steps(1) show ?thesis by fastforce
qed

section \<open>What the thread-local data mixes up\<close>

text \<open>
  Two connections on a thread, each with one request; the first handler suspends once, the second
  returns at once.
\<close>

lemma conn_step_request:
  assumes "receives host lim c [(key, body)] r"
  shows "conn_step host lim rt (c, Reading) w = Some (run_slice host (rt key body)
    ((set_last_time w c)\<lparr>c_socket := (c_socket c)\<lparr>sk_rx := r\<rparr>, c_body := body\<rparr>) (set_connection (c_id c) w))"
proof -
  have "read_frame host lim c w = (Frame_request key, (set_last_time w c)\<lparr>c_socket := (c_socket c)\<lparr>sk_rx := r\<rparr>, c_body := body\<rparr>, w)"
    using assms by (intro read_frame_request) (auto simp: receives_def serving_def)
  then show ?thesis by (simp add: conn_step_def)
qed

lemma steps_two:
  assumes "step a w = Some (a1, w1)" "step b w1 = Some (b1, w2)" "step a1 w2 = Some (a2, w3)"
  shows "run_schedule step [0, 1, 0] ([a, b], w) = ([a2, b1], w3)"
  using assms by simp

lemma waiting_handler_slices:
  assumes "receives host lim a [(ka, ba)] ra" "receives host lim b [(kb, bb)] rb"
    and "rt ka ba = Co_resume (\<lambda>w. (f w, Co_resume g))" "rt kb bb = Co_resume (\<lambda>w. (w, Co_return res_b))"
    and "g w2 = (w3, Co_return res_a)"
    and "w1 = f (set_connection (c_id a) w)"
    and "finish_request host res_b ((set_last_time w1 b)\<lparr>c_socket := (c_socket b)\<lparr>sk_rx := rb\<rparr>, c_body := bb\<rparr>)
           (set_connection (c_id b) w1) = ((b', Reading), w2)"
    and "finish_request host res_a ((set_last_time w a)\<lparr>c_socket := (c_socket a)\<lparr>sk_rx := ra\<rparr>, c_body := ba\<rparr>) w3
           = ((a', Reading), w4)"
  shows "run_schedule (conn_step host lim rt) [0, 1, 0] ([(a, Reading), (b, Reading)], w) = ([(a', Reading), (b', Reading)], w4)"
proof (rule steps_two)
  let ?a = "(set_last_time w a)\<lparr>c_socket := (c_socket a)\<lparr>sk_rx := ra\<rparr>, c_body := ba\<rparr>"
  show "conn_step host lim rt (a, Reading) w = Some ((?a, Running (Co_resume g)), w1)"
    unfolding conn_step_request [OF assms(1)] by (simp add: run_slice_def assms(3, 6))
  show "conn_step host lim rt (b, Reading) w1 = Some ((b', Reading), w2)"
    unfolding conn_step_request [OF assms(2)] by (simp add: run_slice_def assms(4, 7))
  show "conn_step host lim rt (?a, Running (Co_resume g)) w2 = Some ((a', Reading), w4)"
    by (simp add: conn_step_def run_slice_def assms(5, 8))
qed

text \<open>
  C36: the request to put off an answer is kept per thread, not per connection. A handler that
  creates an \<open>rpc_context\<close> and then suspends leaves the flag to whichever connection of the thread
  finishes next: that connection's answer is not sent, and the first connection is answered by its
  loop although its handler wanted to answer later.
\<close>

theorem delay_crosses_connections:
  assumes "receives host lim a [(ka, ba)] ra" "receives host lim b [(kb, bb)] rb"
    and "rt ka ba = Co_resume (\<lambda>w. (snd (rpc_context_new w), Co_resume (\<lambda>w. (w, Co_return res_a))))"
    and "rt kb bb = Co_resume (\<lambda>w. (w, Co_return res_b))"
  shows "\<exists>a' b' w'. (sched_step (conn_step host lim rt))\<^sup>*\<^sup>* ([(a, Reading), (b, Reading)], w) ([(a', Reading), (b', Reading)], w')
    \<and> sk_tx (c_socket b') = sk_tx (c_socket b)
    \<and> sk_tx (c_socket a') = sk_tx (c_socket a) @ response_frame host (c_cross_ending a) res_a 0"
proof -
  let ?w1 = "snd (rpc_context_new (set_connection (c_id a) w))"
  let ?a = "(set_last_time w a)\<lparr>c_socket := (c_socket a)\<lparr>sk_rx := ra\<rparr>, c_body := ba\<rparr>"
  let ?b = "(set_last_time ?w1 b)\<lparr>c_socket := (c_socket b)\<lparr>sk_rx := rb\<rparr>, c_body := bb\<rparr>"
  let ?w2 = "set_delay False (set_connection (c_id b) ?w1)"
  have fb: "finish_request host res_b ?b (set_connection (c_id b) ?w1) = ((?b, Reading), ?w2)"
    by (simp add: finish_request_def rpc_context_new_def set_delay_def set_connection_def)
  have "serving ?a (c_id a) (c_cross_ending a) (c_quit_cb a)" "no_delay ?w2"
    using assms(1) by (auto simp: receives_def serving_def set_delay_def)
  then obtain a' where a': "finish_request host res_a ?a ?w2 = ((a', Reading), ?w2)"
    "sk_tx (c_socket a') = sk_tx (c_socket ?a) @ response_frame host (c_cross_ending a) res_a 0"
    using finish_request_answers by blast
  have "run_schedule (conn_step host lim rt) [0, 1, 0] ([(a, Reading), (b, Reading)], w) = ([(a', Reading), (?b, Reading)], ?w2)"
    by (rule waiting_handler_slices [OF assms(1 - 4) refl refl fb a'(1)])
  then have "(sched_step (conn_step host lim rt))\<^sup>*\<^sup>* ([(a, Reading), (b, Reading)], w) ([(a', Reading), (?b, Reading)], ?w2)"
    using run_schedule_steps [of "conn_step host lim rt" "([(a, Reading), (b, Reading)], w)" "[0, 1, 0]"] by simp
  then show ?thesis using a'(2) by (intro exI [of _ a'] exI [of _ ?b] exI [of _ ?w2]) simp
qed

theorem delay_crosses_connections_witness:
  "\<exists>a' b' w'. (sched_step (conn_step Little 100 (\<lambda>key data. if key = 5
        then Co_resume (\<lambda>w. (snd (rpc_context_new w), Co_resume (\<lambda>w. (w, Co_return rpc_result_init))))
        else Co_resume (\<lambda>w. (w, Co_return rpc_result_init)))))\<^sup>*\<^sup>*
      ([(one_request 1 5, Reading), (one_request 2 6, Reading)], world0 ()) ([(a', Reading), (b', Reading)], w')
    \<and> sk_tx (c_socket b') = sk_tx (c_socket (one_request 2 6))"
  using delay_crosses_connections [OF receives_one_request [of 1 5] receives_one_request [of 2 6], of
      "\<lambda>key data. if key = 5
        then Co_resume (\<lambda>w. (snd (rpc_context_new w), Co_resume (\<lambda>w. (w, Co_return rpc_result_init))))
        else Co_resume (\<lambda>w. (w, Co_return rpc_result_init))" rpc_result_init rpc_result_init "world0 ()"]
  by auto

text \<open>
  An \<open>rpc_context\<close> that a handler creates after it has suspended belongs to another client: the
  constructor takes the connection that was dispatched last on the thread, so that what the handler
  answers goes to that connection. \<open>w_user\<close> keeps the context here.
\<close>

theorem late_context_takes_other_connection:
  assumes "receives host lim a [(ka, ba)] ra" "receives host lim b [(kb, bb)] rb" "no_delay w"
    and "rt ka ba = Co_resume (\<lambda>w. (w, Co_resume (\<lambda>w. case rpc_context_new w of (ctx, w') \<Rightarrow>
           (w'\<lparr>w_user := Some ctx\<rparr>, Co_return res_a))))"
    and "rt kb bb = Co_resume (\<lambda>w. (w, Co_return res_b))"
  shows "\<exists>a' b' w'. (sched_step (conn_step host lim rt))\<^sup>*\<^sup>* ([(a, Reading), (b, Reading)], w) ([(a', Reading), (b', Reading)], w')
    \<and> w_user w' = Some \<lparr>ctx_conn = Some (c_id b), ctx_has_response = False\<rparr> \<and> sk_tx (c_socket a') = sk_tx (c_socket a)"
proof -
  let ?w1 = "set_connection (c_id a) w"
  let ?a = "(set_last_time w a)\<lparr>c_socket := (c_socket a)\<lparr>sk_rx := ra\<rparr>, c_body := ba\<rparr>"
  let ?b = "(set_last_time ?w1 b)\<lparr>c_socket := (c_socket b)\<lparr>sk_rx := rb\<rparr>, c_body := bb\<rparr>"
  let ?w2 = "set_connection (c_id b) ?w1"
  let ?w3 = "(set_delay True ?w2)\<lparr>w_user := Some \<lparr>ctx_conn = Some (c_id b), ctx_has_response = False\<rparr>\<rparr>"
  have "serving ?b (c_id b) (c_cross_ending b) (c_quit_cb b)" "no_delay ?w2"
    using assms(2, 3) by (auto simp: receives_def serving_def set_connection_def)
  then obtain b' where b': "finish_request host res_b ?b ?w2 = ((b', Reading), ?w2)"
    using finish_request_answers by blast
  have g: "(case rpc_context_new ?w2 of (ctx, w') \<Rightarrow> (w'\<lparr>w_user := Some ctx\<rparr>, Co_return res_a)) = (?w3, Co_return res_a)"
    by (simp add: rpc_context_new_def set_connection_def)
  have fa: "finish_request host res_a ?a ?w3 = ((?a, Reading), set_delay False ?w3)"
    by (simp add: finish_request_def set_delay_def)
  have "run_schedule (conn_step host lim rt) [0, 1, 0] ([(a, Reading), (b, Reading)], w)
      = ([(?a, Reading), (b', Reading)], set_delay False ?w3)"
    by (rule waiting_handler_slices [OF assms(1, 2, 4, 5) g refl b' fa])
  then have "(sched_step (conn_step host lim rt))\<^sup>*\<^sup>* ([(a, Reading), (b, Reading)], w) ([(?a, Reading), (b', Reading)], set_delay False ?w3)"
    using run_schedule_steps [of "conn_step host lim rt" "([(a, Reading), (b, Reading)], w)" "[0, 1, 0]"] by simp
  then show ?thesis by (intro exI [of _ ?a] exI [of _ b'] exI [of _ "set_delay False ?w3"]) (simp add: set_delay_def)
qed

theorem late_context_takes_other_connection_witness:
  "\<exists>a' b' w'. (sched_step (conn_step Little 100 (\<lambda>key data. if key = 5
        then Co_resume (\<lambda>w. (w, Co_resume (\<lambda>w. case rpc_context_new w of (ctx, w') \<Rightarrow>
               (w'\<lparr>w_user := Some ctx\<rparr>, Co_return rpc_result_init))))
        else Co_resume (\<lambda>w. (w, Co_return rpc_result_init)))))\<^sup>*\<^sup>*
      ([(one_request 1 5, Reading), (one_request 2 6, Reading)], world0 None) ([(a', Reading), (b', Reading)], w')
    \<and> w_user w' = Some \<lparr>ctx_conn = Some 2, ctx_has_response = False\<rparr>"
  using late_context_takes_other_connection [OF receives_one_request [of 1 5] receives_one_request [of 2 6], of "world0 None"
      "\<lambda>key data. if key = 5
        then Co_resume (\<lambda>w. (w, Co_resume (\<lambda>w. case rpc_context_new w of (ctx, w') \<Rightarrow>
               (w'\<lparr>w_user := Some ctx\<rparr>, Co_return rpc_result_init))))
        else Co_resume (\<lambda>w. (w, Co_return rpc_result_init))" rpc_result_init rpc_result_init]
  by (auto simp: world0_def one_request_def new_connection_def)

end
