(* ===== verification/String_Resize.thy ===== *)
theory String_Resize
  imports Codec
begin

text \<open>
  Growing a string without initialising it, include/rest_rpc/string_resize.hpp. A \<open>std::string\<close> is
  its allocated bytes, one more than its capacity, and its size; \<open>string_ok\<close> is the invariant of the
  class. What freshly allocated memory holds and how far the library over-allocates are parameters.
  The three implementations of \<open>resize\<close> are modelled next to each other: \<open>resize_and_overwrite\<close> where
  the library has it, setting the length through a private member where it is one of the known
  libraries, and the plain \<open>resize\<close> otherwise.
\<close>

section \<open>Strings with their storage\<close>

record cpp_string =
  s_buf :: bytes
  s_size :: nat

definition str_capacity :: "cpp_string \<Rightarrow> nat" where
  "str_capacity s = length (s_buf s) - 1"

definition str_data :: "cpp_string \<Rightarrow> bytes" where
  "str_data s = take (s_size s) (s_buf s)"

definition string_ok :: "cpp_string \<Rightarrow> bool" where
  "string_ok s \<longleftrightarrow> s_size s < length (s_buf s) \<and> s_buf s ! s_size s = 0"

definition empty_string :: cpp_string where
  "empty_string = \<lparr>s_buf = replicate 16 0, s_size = 0\<rparr>"

text \<open>The allocator: \<open>mem_limit\<close> is the largest request it serves, \<open>junk\<close> what the memory holds.\<close>

record allocator =
  al_limit :: nat
  al_junk :: bytes
  al_grow :: nat \<comment> \<open>what the growth policy of the library would allocate\<close>

definition fresh_memory :: "allocator \<Rightarrow> nat \<Rightarrow> bytes" where
  "fresh_memory al n = take n (al_junk al @ replicate n 0)"

lemma length_fresh_memory [simp]: "length (fresh_memory al n) = n"
  by (simp add: fresh_memory_def)

text \<open>\<open>std::string::reserve\<close>: the old characters and their terminator are copied.\<close>

definition str_reserve :: "allocator \<Rightarrow> nat \<Rightarrow> cpp_string \<Rightarrow> exn + cpp_string" where
  "str_reserve al n s =
     (if n \<le> str_capacity s then Inr s
      else if al_limit al < n then Inl (Std_exception ''basic_string::reserve'')
      else Inr (s\<lparr>s_buf := take (s_size s + 1) (s_buf s)
                              @ fresh_memory al (max n (al_grow al) - s_size s)\<rparr>))"

section \<open>The implementations of resize\<close>

datatype stl = Glibcxx | Glibcxx_cow | Libcxx | Msvc_stl

text \<open>
  What the stolen member does: \<open>_M_set_length\<close> and \<open>_M_set_length_and_sharable\<close> of libstdc++ store the
  length and the terminator, \<open>__set_size\<close> of libc++ and \<open>_Mysize\<close> of MSVC only the length.
\<close>

fun string_set_length_hacker :: "stl \<Rightarrow> nat \<Rightarrow> cpp_string \<Rightarrow> cpp_string" where
  "string_set_length_hacker Glibcxx sz s = s\<lparr>s_size := sz, s_buf := (s_buf s)[sz := 0]\<rparr>"
| "string_set_length_hacker Glibcxx_cow sz s = s\<lparr>s_size := sz, s_buf := (s_buf s)[sz := 0]\<rparr>"
| "string_set_length_hacker Libcxx sz s = s\<lparr>s_size := sz\<rparr>"
| "string_set_length_hacker Msvc_stl sz s = s\<lparr>s_size := sz\<rparr>"

definition resize_thief :: "stl \<Rightarrow> allocator \<Rightarrow> nat \<Rightarrow> cpp_string \<Rightarrow> exn + cpp_string" where
  "resize_thief lib al sz str =
     (case (if str_capacity str < sz then str_reserve al sz str else Inr str) of
        Inl e \<Rightarrow> Inl e
      | Inr str \<Rightarrow>
          let str = string_set_length_hacker lib sz str
          in Inr (str\<lparr>s_buf := (s_buf str)[sz := 0]\<rparr>))"

text \<open>\<open>resize_and_overwrite(sz, op)\<close> with an operation that writes nothing and returns \<open>sz\<close>.\<close>

definition resize_overwrite :: "allocator \<Rightarrow> nat \<Rightarrow> cpp_string \<Rightarrow> exn + cpp_string" where
  "resize_overwrite al sz str =
     (case str_reserve al sz str of
        Inl e \<Rightarrow> Inl e
      | Inr str \<Rightarrow> Inr (str\<lparr>s_size := sz, s_buf := (s_buf str)[sz := 0]\<rparr>))"

text \<open>\<open>std::string::resize\<close>: new characters are zero.\<close>

definition resize_plain :: "allocator \<Rightarrow> nat \<Rightarrow> cpp_string \<Rightarrow> exn + cpp_string" where
  "resize_plain al sz str =
     (case str_reserve al sz str of
        Inl e \<Rightarrow> Inl e
      | Inr str' \<Rightarrow>
          Inr (str'\<lparr>s_size := sz,
                    s_buf := take (min sz (s_size str)) (s_buf str') @ replicate (sz - s_size str) 0
                               @ [0] @ drop (sz + 1) (s_buf str')\<rparr>))"

datatype resize_impl = Resize_and_overwrite | String_thief stl | Plain_resize

fun detail_resize :: "resize_impl \<Rightarrow> allocator \<Rightarrow> nat \<Rightarrow> cpp_string \<Rightarrow> exn + cpp_string" where
  "detail_resize Resize_and_overwrite = resize_overwrite"
| "detail_resize (String_thief lib) = resize_thief lib"
| "detail_resize Plain_resize = resize_plain"

section \<open>The contract\<close>

lemma str_reserve_ok:
  assumes "string_ok s" "str_reserve al n s = Inr s'"
  shows "n \<le> str_capacity s'" "s_size s' = s_size s" "string_ok s'"
    "take (s_size s) (s_buf s') = str_data s" "n \<le> str_capacity s \<Longrightarrow> s' = s"
proof -
  have "s' = s \<and> n \<le> str_capacity s \<or>
    s' = s\<lparr>s_buf := take (s_size s + 1) (s_buf s) @ fresh_memory al (max n (al_grow al) - s_size s)\<rparr> \<and> str_capacity s < n"
    using assms(2) by (auto simp: str_reserve_def split: if_splits)
  then show "n \<le> str_capacity s'" "s_size s' = s_size s" "string_ok s'"
    "take (s_size s) (s_buf s') = str_data s" "n \<le> str_capacity s \<Longrightarrow> s' = s"
    using assms(1) by (auto simp: string_ok_def str_capacity_def str_data_def nth_append)
qed

text \<open>
  What the code relies on when it reads into a string: a resized string has the size asked for, its
  terminator, and keeps the characters it had as far as they fit; nothing is moved when the capacity
  is enough; it fails exactly when memory has to be allocated that is not to be had, with an exception
  derived from \<open>std::exception\<close>. What a failure leaves of the string is not represented: the caller's
  frame is left, and both read loops give the string up.
\<close>

locale resizable_string =
  fixes resize :: "allocator \<Rightarrow> nat \<Rightarrow> cpp_string \<Rightarrow> exn + cpp_string"
  assumes resize_Inr: "string_ok s \<Longrightarrow> resize al n s = Inr s' \<Longrightarrow>
      string_ok s' \<and> s_size s' = n \<and> take (min n (s_size s)) (str_data s') = take (min n (s_size s)) (str_data s)
      \<and> (n \<le> str_capacity s \<longrightarrow> str_capacity s' = str_capacity s)"
    and resize_Inl: "string_ok s \<Longrightarrow> (\<exists>e. resize al n s = Inl e) \<longleftrightarrow> str_capacity s < n \<and> al_limit al < n"
    and resize_exception: "string_ok s \<Longrightarrow> resize al n s = Inl e \<Longrightarrow> \<exists>what. e = Std_exception what"
begin

lemma resize_within_limit: "string_ok s \<Longrightarrow> n \<le> al_limit al \<Longrightarrow> \<exists>s'. resize al n s = Inr s'"
  using resize_Inl [of s al n] by (cases "resize al n s") auto

end

definition overwrite :: "bytes \<Rightarrow> cpp_string \<Rightarrow> cpp_string" where
  "overwrite bs s = s\<lparr>s_buf := bs @ drop (length bs) (s_buf s)\<rparr>"

lemma overwrite_data:
  assumes "string_ok s" "length bs = s_size s"
  shows "str_data (overwrite bs s) = bs" "string_ok (overwrite bs s)"
  using assms by (auto simp: overwrite_def str_data_def string_ok_def nth_append)

context resizable_string
begin

text \<open>Reading a body: resize to its length, then fill all of it.\<close>

lemma resize_then_fill:
  assumes "string_ok s" "resize al (length bs) s = Inr s'"
  shows "str_data (overwrite bs s') = bs \<and> string_ok (overwrite bs s')"
  using assms resize_Inr [OF assms] overwrite_data by auto

end

lemma set_length_zero:
  assumes "string_ok s" "sz \<le> str_capacity s"
  shows "string_ok (s\<lparr>s_size := sz, s_buf := (s_buf s)[sz := 0]\<rparr>)"
    "take (min sz (s_size s)) (str_data (s\<lparr>s_size := sz, s_buf := (s_buf s)[sz := 0]\<rparr>)) = take (min sz (s_size s)) (str_data s)"
    "str_capacity (s\<lparr>s_size := sz, s_buf := (s_buf s)[sz := 0]\<rparr>) = str_capacity s"
  using assms by (auto simp: string_ok_def str_capacity_def str_data_def min_def)

lemma resize_thief_overwrite: "resize_thief lib al sz s = resize_overwrite al sz s"
  by (cases lib) (auto simp: resize_thief_def resize_overwrite_def str_reserve_def Let_def split: sum.splits)

lemma resize_overwrite_contract: "resizable_string resize_overwrite"
proof
  fix s s' al n
  assume s: "string_ok s" and r: "resize_overwrite al n s = Inr s'"
  then obtain s1 where s1: "str_reserve al n s = Inr s1" "s' = s1\<lparr>s_size := n, s_buf := (s_buf s1)[n := 0]\<rparr>"
    by (auto simp: resize_overwrite_def split: sum.splits)
  note k = str_reserve_ok [OF s s1(1)]
  note z = set_length_zero [OF k(3) k(1), folded s1(2)]
  have "str_data s1 = str_data s" using k(2, 4) by (simp add: str_data_def)
  then show "string_ok s' \<and> s_size s' = n \<and> take (min n (s_size s)) (str_data s') = take (min n (s_size s)) (str_data s)
      \<and> (n \<le> str_capacity s \<longrightarrow> str_capacity s' = str_capacity s)"
    using z k(2, 5) s1(2) by auto
next
  fix s :: cpp_string and al n
  show "(\<exists>e. resize_overwrite al n s = Inl e) \<longleftrightarrow> str_capacity s < n \<and> al_limit al < n"
    by (auto simp: resize_overwrite_def str_reserve_def)
next
  fix s :: cpp_string and al n e
  assume "resize_overwrite al n s = Inl e"
  then show "\<exists>what. e = Std_exception what"
    by (auto simp: resize_overwrite_def str_reserve_def split: if_splits)
qed

lemma resize_plain_contract: "resizable_string resize_plain"
proof
  fix s s' al n
  assume s: "string_ok s" and r: "resize_plain al n s = Inr s'"
  then obtain s1 where s1: "str_reserve al n s = Inr s1"
    and s': "s' = s1\<lparr>s_size := n, s_buf := take (min n (s_size s)) (s_buf s1) @ replicate (n - s_size s) 0
               @ [0] @ drop (n + 1) (s_buf s1)\<rparr>"
    by (auto simp: resize_plain_def split: sum.splits)
  note k = str_reserve_ok [OF s s1]
  have len: "n < length (s_buf s1)" "s_size s < length (s_buf s1)"
    using k(1 - 3) by (auto simp: string_ok_def str_capacity_def)
  have "take (min n (s_size s)) (s_buf s1) = take (min n (s_size s)) (str_data s)"
    using k(4) by (metis min.cobounded2 min.absorb1 take_take)
  then show "string_ok s' \<and> s_size s' = n \<and> take (min n (s_size s)) (str_data s') = take (min n (s_size s)) (str_data s)
      \<and> (n \<le> str_capacity s \<longrightarrow> str_capacity s' = str_capacity s)"
    using len k(5) s by (auto simp: s' string_ok_def str_data_def str_capacity_def nth_append min_def)
next
  fix s :: cpp_string and al n
  show "(\<exists>e. resize_plain al n s = Inl e) \<longleftrightarrow> str_capacity s < n \<and> al_limit al < n"
    by (auto simp: resize_plain_def str_reserve_def)
next
  fix s :: cpp_string and al n e
  assume "resize_plain al n s = Inl e"
  then show "\<exists>what. e = Std_exception what"
    by (auto simp: resize_plain_def str_reserve_def split: if_splits)
qed

lemma detail_resize_contract: "resizable_string (detail_resize impl)"
proof (cases impl)
  case (String_thief lib)
  have "resize_thief lib = resize_overwrite" by (intro ext) (rule resize_thief_overwrite)
  then show ?thesis using String_thief resize_overwrite_contract by simp
qed (simp_all add: resize_overwrite_contract resize_plain_contract)

interpretation str: resizable_string "detail_resize impl" for impl
  by (rule detail_resize_contract)

text \<open>
  C28: whichever standard library the program is built with, growing or shrinking a string gives it
  exactly the size asked for, inside its storage and with its terminator, keeps the characters it
  had as far as they fit and moves nothing when the capacity is enough. It throws, an exception
  derived from \<open>std::exception\<close>, exactly when memory has to be allocated that is not to be had. A
  string that was resized and then filled, as both read loops do with a message body, holds exactly
  the bytes that were read, and none of what the memory held before.
\<close>

theorem detail_resize_behaviour:
  assumes "string_ok s"
  shows "case detail_resize impl al n s of
      Inl e \<Rightarrow> (str_capacity s < n \<and> al_limit al < n) \<and> (\<exists>what. e = Std_exception what)
    | Inr s' \<Rightarrow> \<not> (str_capacity s < n \<and> al_limit al < n)
        \<and> string_ok s' \<and> s_size s' = n \<and> take (min n (s_size s)) (str_data s') = take (min n (s_size s)) (str_data s)
        \<and> (n \<le> str_capacity s \<longrightarrow> str_capacity s' = str_capacity s)
        \<and> (\<forall>bs. length bs = n \<longrightarrow> str_data (overwrite bs s') = bs)"
proof (cases "detail_resize impl al n s")
  case (Inl e)
  then show ?thesis using str.resize_Inl [OF assms, of impl al n] str.resize_exception [OF assms] by auto
next
  case (Inr s')
  then have "\<not> (str_capacity s < n \<and> al_limit al < n)" using str.resize_Inl [OF assms, of impl al n] by auto
  then show ?thesis using Inr str.resize_Inr [OF assms Inr] str.resize_then_fill [OF assms, of impl al] by auto
qed

theorem detail_resize_behaviour_witness:
  "\<exists>s'. detail_resize (String_thief Libcxx) \<lparr>al_limit = 100, al_junk = [7, 7, 7], al_grow = 30\<rparr> 20 empty_string = Inr s'
     \<and> string_ok s' \<and> s_size s' = 20 \<and> str_data (overwrite (replicate 20 9) s') = replicate 20 9"
  using detail_resize_behaviour [of empty_string 20 "\<lparr>al_limit = 100, al_junk = [7, 7, 7], al_grow = 30\<rparr>" "String_thief Libcxx"]
  by (cases "detail_resize (String_thief Libcxx) \<lparr>al_limit = 100, al_junk = [7, 7, 7], al_grow = 30\<rparr> 20 empty_string")
     (auto simp: string_ok_def empty_string_def)

section \<open>Vectors\<close>

text \<open>
  The overload for vectors treats a vector of any element type as one of \<open>char\<close>: it reserves and
  sets the end in bytes. \<open>v_len\<close> is the distance of the end from the beginning in bytes.
\<close>

record cpp_vector =
  v_mem :: bytes
  v_len :: nat

definition vector_ok :: "cpp_vector \<Rightarrow> bool" where
  "vector_ok v \<longleftrightarrow> v_len v \<le> length (v_mem v)"

text \<open>\<open>size()\<close> of a vector with elements of \<open>k\<close> bytes.\<close>

definition vec_size :: "nat \<Rightarrow> cpp_vector \<Rightarrow> nat" where
  "vec_size k v = v_len v div k"

definition vec_reserve :: "allocator \<Rightarrow> nat \<Rightarrow> cpp_vector \<Rightarrow> exn + cpp_vector" where
  "vec_reserve al n v =
     (if n \<le> length (v_mem v) then Inr v
      else if al_limit al < n then Inl (Std_exception ''vector::reserve'')
      else Inr (v\<lparr>v_mem := take (v_len v) (v_mem v) @ fresh_memory al (n - v_len v)\<rparr>))"

definition vector_set_length_hacker :: "nat \<Rightarrow> cpp_vector \<Rightarrow> cpp_vector" where
  "vector_set_length_hacker sz v = v\<lparr>v_len := sz\<rparr>"

definition resize_vector :: "allocator \<Rightarrow> nat \<Rightarrow> cpp_vector \<Rightarrow> exn + cpp_vector" where
  "resize_vector al sz v =
     (case vec_reserve al sz v of Inl e \<Rightarrow> Inl e | Inr v \<Rightarrow> Inr (vector_set_length_hacker sz v))"

text \<open>
  The size of the vector afterwards is the argument divided by the size of an element, so the
  overload does what it says for vectors of one-byte elements only.
\<close>

theorem resize_vector_counts_bytes:
  assumes "vector_ok v" "resize_vector al sz v = Inr v'"
  shows "vector_ok v' \<and> vec_size k v' = sz div k \<and> take (min sz (v_len v)) (v_mem v') = take (min sz (v_len v)) (v_mem v)"
  using assms by (auto simp: resize_vector_def vec_reserve_def vector_set_length_hacker_def vector_ok_def vec_size_def
      min_def split: if_splits sum.splits)

end
