(* ===== verification/String_Views.thy ===== *)
theory String_Views
  imports Calls String_Resize
begin

text \<open>
  Results that are views. \<open>rpc_codec::unpack<std::string_view>\<close> (include/rest_rpc/codec.h) returns the bytes it
  is given, and \<open>wait_response\<close> (include/rest_rpc/rpc_client.hpp) gives it the client's own body, so that the
  \<open>call_result\<close> of a function like \<open>echo\<close> in examples/server.cpp points into a string that the next call
  resizes and fills. Here the body has an address: the memory of String_Resize with the number of its
  allocation, which changes when the string is moved.
\<close>

section \<open>The body in memory\<close>

record body_object =
  bo_block :: nat
  bo_string :: cpp_string

text \<open>A view is an allocation, an offset and a length; reading it when the allocation is gone is undefined.\<close>

record view =
  vw_block :: nat
  vw_offset :: nat
  vw_length :: nat

definition read_view :: "view \<Rightarrow> body_object \<Rightarrow> bytes option" where
  "read_view v b =
     (if vw_block v = bo_block b then Some (take (vw_length v) (drop (vw_offset v) (s_buf (bo_string b)))) else None)"

text \<open>\<open>detail::resize(socket_->body_, body_len)\<close> and the \<open>async_read\<close> that fills the body.\<close>

definition receive_body :: "resize_impl \<Rightarrow> allocator \<Rightarrow> bytes \<Rightarrow> body_object \<Rightarrow> exn + body_object" where
  "receive_body impl al bs b =
     (case detail_resize impl al (length bs) (bo_string b) of
        Inl e \<Rightarrow> Inl e
      | Inr s \<Rightarrow> Inr \<lparr>bo_block = (if length bs \<le> str_capacity (bo_string b) then bo_block b else bo_block b + 1),
                       bo_string = overwrite bs s\<rparr>)"

text \<open>\<open>std::string_view(body_.data() + 1, body_len - 1)\<close>, which \<open>unpack\<close> returns as it is.\<close>

definition result_view :: "body_object \<Rightarrow> view" where
  "result_view b = \<lparr>vw_block = bo_block b, vw_offset = 1, vw_length = s_size (bo_string b) - 1\<rparr>"

lemma receive_body_Inr:
  assumes "string_ok (bo_string b)" "receive_body impl al bs b = Inr b'"
  shows "string_ok (bo_string b')" "s_size (bo_string b') = length bs" "take (length bs) (s_buf (bo_string b')) = bs"
    "bo_block b' = (if length bs \<le> str_capacity (bo_string b) then bo_block b else bo_block b + 1)"
proof -
  obtain s where s: "detail_resize impl al (length bs) (bo_string b) = Inr s"
    and b': "b' = \<lparr>bo_block = (if length bs \<le> str_capacity (bo_string b) then bo_block b else bo_block b + 1),
      bo_string = overwrite bs s\<rparr>"
    using assms(2) by (auto simp: receive_body_def split: sum.splits)
  note r = str.resize_Inr [OF assms(1) s]
  have d: "str_data (overwrite bs s) = bs" "string_ok (overwrite bs s)"
    using overwrite_data [of s bs] r by auto
  show "string_ok (bo_string b')" "s_size (bo_string b') = length bs" using d(2) r by (simp_all add: b' overwrite_def)
  show "take (length bs) (s_buf (bo_string b')) = bs" by (simp add: b' overwrite_def)
  show "bo_block b' = (if length bs \<le> str_capacity (bo_string b) then bo_block b else bo_block b + 1)" by (simp add: b')
qed

text \<open>What the bytes of a result are right after the call, and after the next one.\<close>

lemma result_view_fresh:
  assumes "string_ok (bo_string b)" "receive_body impl al (x # bs) b = Inr b'"
  shows "read_view (result_view b') b' = Some bs"
proof -
  note r = receive_body_Inr [OF assms]
  have "take (length bs) (drop 1 (s_buf (bo_string b'))) = drop 1 (take (length (x # bs)) (s_buf (bo_string b')))"
    by (simp add: drop_take)
  then show ?thesis using r(2, 3) by (simp add: read_view_def result_view_def)
qed

lemma result_view_after:
  assumes "string_ok (bo_string b)" "receive_body impl al (x # bs) b = Inr b'"
    and "vw_offset v = 1" "vw_length v = length bs" "vw_block v = bo_block b"
  shows "read_view v b' = (if length bs < str_capacity (bo_string b) then Some bs else None)"
  using result_view_fresh [OF assms(1, 2)] receive_body_Inr [OF assms(1, 2)] assms(3 - 5)
  by (auto simp: read_view_def result_view_def split: if_splits)

text \<open>
  C39: the value of a call whose result type is \<open>std::string_view\<close> lasts until the next call. A client
  makes two such calls; each returns what the server sent, and the first result reads as that right after
  the first call. When the second answer has come, the first result reads as the second one, if that is as long
  and the client's string has room for it; and when the string had to be moved, it points into memory that has
  been given back.
\<close>

theorem string_view_result_overwritten:
  assumes "sk_open (cl_impl cl)" "rr_ec res1 = ok" "rr_ec res2 = ok"
    and "sk_rx (cl_impl cl) = response_frame host (cl_cross_ending cl) res1 0 @ response_frame host (cl_cross_ending cl) res2 0 @ r"
    and "length (rr_data res1) < lim" "length (rr_data res1) < 2 ^ 64 - 1"
    and "length (rr_data res2) < lim" "length (rr_data res2) < 2 ^ 64 - 1"
    and "string_ok (bo_string b)" "str_data (bo_string b) = cl_body cl"
    and "receive_body impl al (errc_byte ok # rr_data res1) b = Inr b1"
    and "receive_body impl al (errc_byte ok # rr_data res2) b1 = Inr b2"
  shows "\<exists>cl1 cl2. wait_response host lim env T_string_view cl = (Returned \<lparr>cr_ec = ok, cr_value = V_str (rr_data res1)\<rparr>, cl1)
    \<and> wait_response host lim env T_string_view cl1 = (Returned \<lparr>cr_ec = ok, cr_value = V_str (rr_data res2)\<rparr>, cl2)
    \<and> str_data (bo_string b1) = cl_body cl1 \<and> str_data (bo_string b2) = cl_body cl2
    \<and> read_view (result_view b1) b1 = Some (rr_data res1)
    \<and> (length (rr_data res1) = length (rr_data res2) \<longrightarrow> read_view (result_view b1) b2 = Some (rr_data res2))
    \<and> (str_capacity (bo_string b1) \<le> length (rr_data res2) \<longrightarrow> read_view (result_view b1) b2 = None)"
proof -
  note r1 = receive_body_Inr [OF assms(9, 11)]
  note r2 = receive_body_Inr [OF r1(1) assms(12)]
  let ?cl1 = "cl\<lparr>cl_impl := (cl_impl cl)\<lparr>sk_rx := response_frame host (cl_cross_ending cl) res2 0 @ r\<rparr>,
      cl_body := errc_byte ok # rr_data res1\<rparr>"
  let ?cl2 = "?cl1\<lparr>cl_impl := (cl_impl ?cl1)\<lparr>sk_rx := r\<rparr>, cl_body := errc_byte ok # rr_data res2\<rparr>"
  have u: "unpack env T_string_view d = Inr (V_str d)" "\<not> is_void T_string_view" for d
    by (simp_all add: unpack_def is_void_def is_fundamental_def)
  have "wait_response host lim env T_string_view cl = (Returned \<lparr>cr_ec = ok, cr_value = V_str (rr_data res1)\<rparr>, ?cl1)"
    using wait_response_frame [OF assms(1, 4 - 6), of env T_string_view] assms(2) u
    by (simp add: complete_topic_reply init_result_def Let_def)
  moreover have "wait_response host lim env T_string_view ?cl1 = (Returned \<lparr>cr_ec = ok, cr_value = V_str (rr_data res2)\<rparr>, ?cl2)"
    using wait_response_frame [of ?cl1 host res2 0 r lim env T_string_view] assms(1, 3, 7, 8) u
    by (simp add: complete_topic_reply init_result_def Let_def)
  moreover have "str_data (bo_string b1) = cl_body ?cl1" "str_data (bo_string b2) = cl_body ?cl2"
    using r1(2, 3) r2(2, 3) by (simp_all add: str_data_def)
  moreover have "read_view (result_view b1) b1 = Some (rr_data res1)" by (rule result_view_fresh [OF assms(9, 11)])
  moreover have "length (rr_data res2) < str_capacity (bo_string b1)" if "length (rr_data res1) = length (rr_data res2)"
    using r1(1, 2) that by (auto simp: string_ok_def str_capacity_def)
  moreover have "bo_block b2 \<noteq> bo_block b1" if "str_capacity (bo_string b1) \<le> length (rr_data res2)"
    using r2(4) that by simp
  ultimately show ?thesis
    using result_view_after [OF r1(1) assms(12), of "result_view b1"] r1(2)
    by (intro exI [of _ ?cl1] exI [of _ ?cl2]) (auto simp: result_view_def read_view_def)
qed

theorem string_view_result_overwritten_witness:
  "\<exists>b1 b2. receive_body Resize_and_overwrite \<lparr>al_limit = 100, al_junk = [], al_grow = 0\<rparr> [0, 65, 66] \<lparr>bo_block = 0, bo_string = empty_string\<rparr> = Inr b1
    \<and> receive_body Resize_and_overwrite \<lparr>al_limit = 100, al_junk = [], al_grow = 0\<rparr> [0, 67, 68] b1 = Inr b2
    \<and> read_view (result_view b1) b1 = Some [65, 66] \<and> read_view (result_view b1) b2 = Some [67, 68]"
proof -
  let ?al = "\<lparr>al_limit = 100, al_junk = [], al_grow = 0\<rparr>" and ?b = "\<lparr>bo_block = 0, bo_string = empty_string\<rparr>"
  let ?res1 = "rpc_result_of_string [65, 66]" and ?res2 = "rpc_result_of_string [67, 68]"
  let ?cl = "rpc_client_new\<lparr>cl_impl := fresh_socket (response_frame Little False ?res1 0 @ response_frame Little False ?res2 0 @ [])\<rparr>"
  have ok: "string_ok (bo_string ?b)" "str_data (bo_string ?b) = cl_body ?cl"
    by (simp_all add: string_ok_def empty_string_def str_data_def rpc_client_new_def)
  have "\<exists>s. detail_resize Resize_and_overwrite ?al n s' = Inr s" if "string_ok s'" "n \<le> 100" for n s'
    by (rule str.resize_within_limit [OF that(1)]) (use that(2) in simp)
  then have rb: "\<exists>b'. receive_body Resize_and_overwrite ?al bs b = Inr b'" if "string_ok (bo_string b)" "length bs \<le> 100" for bs b
    using that by (fastforce simp: receive_body_def)
  obtain b1 where b1: "receive_body Resize_and_overwrite ?al [0, 65, 66] ?b = Inr b1" using rb [OF ok(1), of "[0, 65, 66]"] by auto
  obtain b2 where b2: "receive_body Resize_and_overwrite ?al [0, 67, 68] b1 = Inr b2"
    using rb [OF receive_body_Inr(1) [OF ok(1) b1], of "[0, 67, 68]"] by auto
  have d: "rr_data ?res1 = [65, 66]" "rr_data ?res2 = [67, 68]" "rr_ec ?res1 = ok" "rr_ec ?res2 = ok"
    by (simp_all add: rr_data_def rpc_result_of_string_def rpc_result_init_def)
  have "sk_open (cl_impl ?cl)" "sk_rx (cl_impl ?cl) = response_frame Little (cl_cross_ending ?cl) ?res1 0
      @ response_frame Little (cl_cross_ending ?cl) ?res2 0 @ []"
    by (simp_all add: rpc_client_new_def fresh_socket_def)
  then show ?thesis
    using string_view_result_overwritten [of ?cl ?res1 ?res2 Little "[]" 100 ?b Resize_and_overwrite ?al b1 b2 "default_env True"]
      b1 b2 ok d by auto
qed

end
