(* ===== verification/Spec2Isabelle.thy ===== *)
theory Spec2Isabelle
  imports Topics_Run Client_Runs Write_Pieces Interleaving String_Views
begin

text \<open>
  rest_rpc (include/rest_rpc) is a C++20 header library for remote procedure calls over TCP. A
  server registers functions under their names; a client names the same function, sends a request
  with the arguments and waits for the answer. A client can also subscribe to a topic, and the
  server publishes values to it. This development models the library and proves what a call, a
  publication and the parts between them do.

  \<^bold>\<open>The parts and how they work together.\<close> A function is identified on the wire by a key of 32 bits:
  function_name.h cuts its qualified name out of what the compiler prints, md5.hpp hashes the name.
  \<open>rpc_client::call\<close> packs the arguments with codec.h, which formats a single basic value as text and
  gives everything else to struct_pack; the header of rest_rpc_protocol.hpp goes in front, in network
  byte order on demand. On the other side \<open>rpc_connection::start\<close> reads headers and bodies in a loop
  and passes each request to \<open>rpc_router::route\<close>, which finds the handler, unpacks, calls, packs the
  result and turns failures into an \<open>rpc_errc\<close>; \<open>response\<close> writes the answer. A handler may create an
  \<open>rpc_context\<close> and answer later. \<open>rpc_server\<close> accepts connections, keeps them in a table, publishes to
  subscribers, closes idle ones, and runs on the contexts of an \<open>io_context_pool\<close>.

  \<^bold>\<open>The theories,\<close> in the order in which they build on one another:

  \<^item> Prelude: fixed-width integers, byte strings, their little- and big-endian images, and the two
    contracts of codecs: the locale value_codec (what one side encodes the other decodes) and
    self_delimiting_codec (the decoder finds the end by itself and leaves the rest), a sublocale of it.
  \<^item> Md5 (md5.hpp): the constant-expression MD5 step by step on 32-bit words, with the index
    arithmetic of the padding, next to RFC 1321 written out independently, tables included; the equality of the two on
    names below \<open>2^29\<close> bytes; the termination of the block loop on every length; \<open>string_literal\<close>.
  \<^item> Protocol (rest_rpc_protocol.hpp): the header, its memory image on hosts of either byte order,
    \<open>prepare_for_send\<close> and \<open>parse_recieved\<close>; interpretation of self_delimiting_codec by the header.
  \<^item> Error_Code (error_code.h): the enumeration as the byte that travels, messages, comparison.
  \<^item> Cpp_Types (traits.h, asio_util.hpp): the C++ types and values the library is instantiated with,
    \<open>function_traits\<close>, the concepts that select an encoding, \<open>return_type_t\<close>.
  \<^item> Ordered_Containers: \<open>emplace\<close> of \<open>std::set\<close> and \<open>std::map\<close>, and what moving from an object leaves.
  \<^item> Struct_Pack_Layout, Struct_Pack, Struct_Pack_Typed (thirdparty/ylt/struct_pack): layout of aggregates, type
    literals and hash; the computed size, the writer and the reader, which reads into an object that is there,
    with the computed size as the written size and the round trip on every supported type, ordered maps and
    variants among them; the typing of whatever is accepted; interpretation of self_delimiting_codec.
  \<^item> Logger (logger.hpp): which logger a level and a build choose, and the line a statement writes.
  \<^item> Function_Name (function_name.h): the name cut out of the signature texts of GCC, Clang and MSVC.
  \<^item> Codec (codec.h, \<open>get_buffer\<close> of rpc_client.hpp): text, struct_pack or the user's own codec, chosen
    by type; interpretation of value_codec.
  \<^item> Router (rpc_router.hpp, util.hpp): the two tables, registration and removal, the invokers for no,
    one and several parameters, \<open>route\<close>. The locale handler_table states what a table of handlers
    promises and proves what follows for any sequence of operations; the router interprets it. The
    abstract call \<open>call_spec\<close> runs a handler on values, and \<open>route\<close> on the client's bytes refines it.
  \<^item> String_Resize (string_resize.hpp): strings and vectors as a size and a piece of memory, the three
    implementations of \<open>detail::resize\<close>, with the locale resizable_string for what its callers rely on.
  \<^item> Scheduler (asio_util.hpp): coroutines as trees of slices, a thread as a list of tasks of which any
    may run its next slice, \<open>async_start\<close>, \<open>async_future\<close>, \<open>sync_wait\<close>. The locale terminating_tasks shows
    that tasks whose slices go down in a well-founded order come to an end under every schedule; it is
    interpreted by coroutines here and by connections in Interleaving.
  \<^item> Net: what the code relies on of a TCP socket and of \<open>asio::async_read\<close>, \<open>async_write\<close>.
  \<^item> Connection (rpc_connection.hpp): the read loop, \<open>response\<close>, \<open>close\<close>, the thread-local data,
    \<open>rpc_context\<close>; requests are answered in order (the specification is \<open>serve\<close>, a function on the list
    of requests that knows neither sockets nor headers), the quit callback runs at most once.
  \<^item> Interleaving (rpc_connection.hpp): the connections of one thread, suspended inside handlers and
    resumed in any order: every request is answered when no handler puts its answer off, and what the
    thread-local data does to the others when one does.
  \<^item> Io_Context_Pool (io_context_pool.hpp): contexts handed out in turn.
  \<^item> Server (rpc_server.hpp): start, stop, accept, publication, answers by contexts, idle check, as functions
    and as the relation \<open>server_event\<close>, whose steps are labelled with what the users see and whose invariant
    says what the table of connections holds; \<open>server_step\<close> forgets the labels, \<open>server_run\<close> collects them.
  \<^item> Client (rpc_client.hpp): connect, call, subscribe, close, the watchdog. A call is \<open>call_impl || watchdog\<close>:
    \<open>timeout\<close> says at which suspension of the call the watchdog fires, \<open>aborted_call_impl\<close> is the rest of the
    call with the operation it waits for aborted, \<open>or_watchdog\<close> joins the two, so that a call that throws goes
    on waiting until the time is up. \<open>sub_join\<close> is the \<open>&&\<close> of subscribe, which waits for both sides.
  \<^item> Client_Runs: any sequence of client operations as the step relation \<open>client_step\<close>, its invariant, and
    what a timeout and a publication at the wrong time do to the calls that follow.
  \<^item> String_Views: a result that is a view into the client's body, with the memory of String_Resize behind it:
    what it reads as after the next call.
  \<^item> Calls: the lemmas on client and connection together, for one call and for calls one after the
    other (\<open>calls_return\<close> says what the same calls give locally).
  \<^item> Server_Runs: a connection inside a running server does what it does alone; a client that connects is
    accepted and served.
  \<^item> Broker: the abstract server, members with a topic and the messages they were sent, without sockets and
    headers. Every run of the server is a run of it with the same labels (\<open>implements\<close> is the simulation
    relation); what holds of the messages of a member carries over to the bytes of its connection.
  \<^item> Shared_Connections: the connections as shared objects, referred to by the table, by publications under way
    and by queued lambdas of \<open>close\<close>; the invariant of the table when closings are spread over threads.
  \<^item> Concurrent_Publications: what a subscriber gets when the slices of several publications run between reads,
    answers and closings; the account \<open>delivered\<close> of what it has got and has still to get is kept by every step.
    An uninterrupted publication is the one step of Server, and that step does to each connection what
    \<open>published\<close> says, a definition on one connection that knows neither table nor loop.
  \<^item> Write_Pieces: the same events with \<open>asio::async_write\<close> as the composed operation that it is: an event
    starts a write, further steps hand its bytes over, in between anything may run. Where the writes on a
    connection do not overlap, its subscriber gets every publication as whole frames; nothing in the code keeps
    them apart, and where they do an answer and a publication spoil each other.
  \<^item> Examples, Topics_Example (examples/server.cpp, examples/client.cpp): the programs that come with the
    library, run on the model: the calls return what is asserted, the published words are printed.
  \<^item> Topics_Run: the example's publisher in a server that goes on accepting and serving between its words.
  \<^item> This theory: calls, an exception and a publication all the way between client and server.

  \<^bold>\<open>State and effects.\<close> Every class with state is a record whose fields are its members, and every
  operation a function from the state to the state and the result. The code suspends for the network,
  for timers and inside handlers. In Connection, Server and Client what lies between two requests is one
  step, a write included, and \<open>server_step\<close> leaves the order of steps open; Interleaving takes handlers apart
  into slices and lets the other connections of the thread run between them; Write_Pieces takes writes apart.
  Shared_Connections takes the publications
  of a server apart too: each send is a step, a publication keeps the objects it captured at its start, and
  a closing first changes the object and later, when its posted callback runs, the table. The handlers are functions of the
  program that uses the library: they appear as the field \<open>h_body\<close>, an arbitrary function on argument
  values and the \<open>world\<close> that returns or throws. Exceptions are values of \<open>exn\<close>; the outcomes that a C++
  program does not define (a completion that is called twice, a view before the start of a buffer) and
  waiting without end are constructors of \<open>outcome\<close>.

  \<^bold>\<open>Parameters.\<close> \<open>host\<close> is the byte order of a machine; \<open>env\<close> says whether a program was compiled without
  \<open>NDEBUG\<close> and which types have a user codec, with that codec as functions; \<open>lim\<close> is the largest string
  that can be allocated; what the resolver, the acceptor and the timers answer are arguments of the
  operations that ask. A socket holds the bytes still to be received, the bytes sent, and the results
  of the next writes.

  \<^bold>\<open>Loops.\<close> The read loop \<open>start\<close> is total: every pass that goes on takes at least a header from the
  received bytes, and the end of those bytes is an error for \<open>async_read\<close>. The loop over the MD5 blocks
  is \<open>while_option\<close>, with a proof that it ends for each of the \<open>2^32\<close> lengths. The subscriber's loop in the
  examples is total for the same reason as \<open>start\<close>; the publisher's loop is over the words of the input, and
  the end of the input is \<open>None\<close>, since the code then goes on for ever. No definition uses fuel.

  \<^bold>\<open>Not modelled.\<close> Asio itself; \<open>use_asio.hpp\<close>, which only includes and names; time, except as
  the clock the idle check reads; the executors that connections and contexts name; data races between
  threads that touch one connection, except the overlap of writes, which Write_Pieces has and the other
  theories leave out; floating-point arguments; of struct_pack the
  unordered containers, \<open>expected\<close>, polymorphic pointers, variable length integers, compatible members,
  trivially copyable aggregates with padding (its bytes have no value), maps to types with an optional (they
  do not come back) and user-defined members; the tests.
\<close>

section \<open>A call, from the client to the handler and back\<close>

text \<open>
  C1: a remote call returns what a local call would. A client that calls a registered function with
  matching arguments sends one request, the bytes the connection receives; the connection runs the
  handler once, on exactly those arguments, and goes on with what follows in the stream; and when
  the bytes it wrote reach the client, the call returns the code \<open>ok\<close> and the handler's own
  result. This holds for functions of any number of parameters, for coroutines, with or without a
  result, for either setting of \<open>cross_ending\<close> that client and server share, and for debug and
  release builds on either side.
\<close>

theorem remote_call_returns_result:
  assumes "router_inv rt0" "register_handler sv name f rt0 = Inr rt" "handler_compiles sv f"
    and "passable env sv (h_params f) args"
    and "h_body f (map snd args) (set_connection conn w) = (Inr v, w1)" "\<not> tls_delay (w_tls w1)"
    and "if is_void_v (h_ret f) then v = V_unit else codec_ok sv env (return_type_t (h_ret f)) v"
    and "length (get_buffer env args) \<le> lim" "length (get_buffer env args) < 2 ^ 64"
    and "length (pack_args sv [(return_type_t (h_ret f), v)]) < lim'"
    and "length (pack_args sv [(return_type_t (h_ret f), v)]) < 2 ^ 64 - 1"
    and "serving c conn (cl_cross_ending cl) cb" "sk_tx (c_socket c) = []"
    and "sk_rx (c_socket c) = request_frame host (cl_cross_ending cl) (hash_name name) (get_buffer env args) @ r"
    and "sk_open (cl_impl cl)" "sk_writes (cl_impl cl) = []"
  shows "\<exists>c' cl'. start host lim rt c w = start host lim rt c' w1
    \<and> serving c' conn (cl_cross_ending cl) cb \<and> sk_rx (c_socket c') = r
    \<and> call_for host lim' env None (hash_name name) (return_type_t (h_ret f)) args
          (cl\<lparr>cl_impl := (cl_impl cl)\<lparr>sk_rx := sk_tx (c_socket c')\<rparr>\<rparr>)
        = (Returned \<lparr>cr_ec = ok, cr_value = v\<rparr>, cl')
    \<and> sk_tx (cl_impl cl') @ r = sk_tx (cl_impl cl) @ sk_rx (c_socket c)"
proof -
  have inv: "map_invokers rt (hash_name name) = Some (make_invoker sv f)"
    using router.find_register [OF assms(1, 2), of name] by simp
  have spec: "call_spec sv rt name f (map snd args) (set_connection conn w) = (rpc_result_of_string
      (if is_void_v (h_ret f) then [] else pack_args sv [(return_type_t (h_ret f), v)]), w1)"
    using assms(5) by (simp add: call_spec_def)
  show ?thesis
    by (rule remote_call [OF inv assms(3, 4) spec assms(6, 8, 9, 12 - 16)])
       (rule client_reads_reply [OF _ _ assms(7, 10, 11)])
qed

theorem remote_call_returns_result_witness:
  "\<exists>rt c' w' cl'. register_handler (default_env True) (str_bytes ''succ'') successor_handler empty_router = Inr rt
    \<and> start Little 100 rt (new_connection (fresh_socket
          (request_frame Little False (hash_name (str_bytes ''succ'')) (get_buffer (default_env False) [(T_int32, V_int 41)]))) 3 False 0)
        (world0 0) = start Little 100 rt c' w' \<and> w_user w' = 1 \<and> sk_rx (c_socket c') = []
    \<and> call_for Little 100 (default_env False) None (hash_name (str_bytes ''succ'')) T_int32 [(T_int32, V_int 41)]
        (rpc_client_new\<lparr>cl_impl := fresh_socket (sk_tx (c_socket c'))\<rparr>) = (Returned \<lparr>cr_ec = ok, cr_value = V_int 42\<rparr>, cl')"
proof -
  let ?f = successor_handler and ?args = "[(T_int32, V_int 41)]"
  let ?w = "world0 0 :: nat world"
  let ?w1 = "(set_connection 3 ?w)\<lparr>w_user := 1\<rparr>"
  let ?c = "new_connection (fresh_socket
      (request_frame Little False (hash_name (str_bytes ''succ'')) (get_buffer (default_env False) ?args))) 3 False 0"
  let ?cl = "rpc_client_new\<lparr>cl_impl := fresh_socket []\<rparr>"
  obtain rt where reg: "register_handler (default_env True) (str_bytes ''succ'') ?f empty_router = Inr rt"
    by (auto simp: register_handler_def register_handler_impl_def empty_router_def)
  have ret: "return_type_t (h_ret ?f) = T_int32" "\<not> is_void_v (h_ret ?f)"
    by (simp_all add: successor_handler_def return_type_t_def is_void_v_def)
  have buf: "get_buffer (default_env False) ?args = to_string 41" "pack_args (default_env True) [(T_int32, V_int 42)] = to_string 42"
    by (simp_all add: get_buffer_def pack_args_def is_basic_v_def is_fundamental_def pack_one_def)
  have len: "length (to_string 41) = 2" "length (to_string 42) = 2"
    by (simp_all add: to_string_def dec_digits.simps)
  have comp: "handler_compiles (default_env True) ?f"
    by (simp add: handler_compiles_def successor_handler_def return_type_t_def unpack_compiles_def is_fundamental_def is_basic_v_def)
  have pass: "passable (default_env False) (default_env True) (h_params ?f) ?args"
    by (simp add: passable_def successor_handler_def in_range_def int_min_def int_max_def is_fundamental_def)
  have body: "h_body ?f (map snd ?args) (set_connection 3 ?w) = (Inr (V_int 42), ?w1)" "\<not> tls_delay (w_tls ?w1)"
    by (simp_all add: successor_handler_def set_connection_def world0_def)
  have cok: "codec_ok (default_env True) (default_env False) (return_type_t (h_ret ?f)) (V_int 42)"
    by (simp add: ret codec_ok_def unpack_compiles_def is_fundamental_def in_range_def int_min_def int_max_def)
  have cv: "if is_void_v (h_ret ?f) then V_int 42 = V_unit
      else codec_ok (default_env True) (default_env False) (return_type_t (h_ret ?f)) (V_int 42)"
    using cok ret(2) by simp
  have srv: "serving ?c 3 (cl_cross_ending ?cl) False" "sk_tx (c_socket ?c) = []"
    by (simp_all add: serving_def new_connection_def fresh_socket_def rpc_client_new_def)
  have ex: "\<exists>c' cl'. start Little 100 rt ?c ?w = start Little 100 rt c' ?w1
    \<and> serving c' 3 (cl_cross_ending ?cl) False \<and> sk_rx (c_socket c') = []
    \<and> call_for Little 100 (default_env False) None (hash_name (str_bytes ''succ'')) (return_type_t (h_ret ?f)) ?args
          (?cl\<lparr>cl_impl := (cl_impl ?cl)\<lparr>sk_rx := sk_tx (c_socket c')\<rparr>\<rparr>)
        = (Returned \<lparr>cr_ec = ok, cr_value = V_int 42\<rparr>, cl')
    \<and> sk_tx (cl_impl cl') @ [] = sk_tx (cl_impl ?cl) @ sk_rx (c_socket ?c)"
    by (rule remote_call_returns_result [OF router_inv_empty reg comp pass body cv _ _ _ _ srv])
       (simp_all add: buf ret len new_connection_def fresh_socket_def rpc_client_new_def)
  have w1: "w_user ?w1 = 1" by simp
  show ?thesis using ex reg w1 unfolding ret
    by (elim exE conjE) (intro exI [of _ rt] exI conjI, assumption+, simp_all add: fresh_socket_def rpc_client_new_def)
qed

section \<open>Calls one after the other\<close>

text \<open>
  C3: a client that makes several calls on one connection, each after the previous one has returned,
  gets for each of them the result of that call, in order. The handlers run once per call and see the
  state that the previous ones left; the connection then goes on with what follows in its stream.
\<close>

theorem calls_in_sequence_return_results:
  assumes "calls_return sv env rt lim lim' conn calls w vs w'"
    and "serving c conn (cl_cross_ending cl) cb" "sk_tx (c_socket c) = []"
    and "sk_rx (c_socket c) = call_frames host (cl_cross_ending cl) env calls @ r"
    and "sk_open (cl_impl cl)" "sk_writes (cl_impl cl) = []"
  shows "\<exists>c' cl'. start host lim rt c w = start host lim rt c' w'
    \<and> serving c' conn (cl_cross_ending cl) cb \<and> sk_rx (c_socket c') = r
    \<and> call_seq host lim' env (map client_call calls) (cl\<lparr>cl_impl := (cl_impl cl)\<lparr>sk_rx := sk_tx (c_socket c')\<rparr>\<rparr>)
        = (map (\<lambda>v. Returned \<lparr>cr_ec = ok, cr_value = v\<rparr>) vs, cl')
    \<and> sk_tx (cl_impl cl') @ r = sk_tx (cl_impl cl) @ sk_rx (c_socket c)"
  by (rule calls_answered [OF assms])

theorem calls_in_sequence_return_results_witness:
  "\<exists>rt c' cl'. sk_rx (c_socket c') = []
    \<and> start Big 100 rt (new_connection (fresh_socket (call_frames Big True (default_env False)
        (basict_local (\<lambda>a b. 0) :: (bytes \<times> unit world handler \<times> (ctype \<times> cval) list) list))) 5 True 0) (world0 ())
      = start Big 100 rt c' (set_connection 5 (world0 ()))
    \<and> call_seq Big 200 (default_env False) (map client_call (basict_local (\<lambda>a b. 0) :: (bytes \<times> unit world handler \<times> (ctype \<times> cval) list) list))
        (rpc_client_new\<lparr>cl_cross_ending := True, cl_impl := fresh_socket (sk_tx (c_socket c'))\<rparr>)
      = (map (\<lambda>v. Returned \<lparr>cr_ec = ok, cr_value = v\<rparr>) basict_results, cl')"
proof -
  have "get_func_name GCC (gcc_signature ''echo'') = Some ''echo''"
    "get_func_name GCC (gcc_signature ''echo_coro'') = Some ''echo_coro''"
    "get_func_name GCC (gcc_signature ''dummy::add'') = Some ''dummy::add''"
    "get_func_name GCC (gcc_signature ''get_person'') = Some ''get_person''"
    by code_simp+
  then obtain sv :: "unit server" where sv: "\<forall>(name, f) \<in> set (basict_functions (\<lambda>a b. 0)).
      map_invokers (sv_router sv) (hash_name (str_bytes name)) = Some (make_invoker (default_env True) f)"
    using example_server_finds [of "basict_functions (\<lambda>a b. 0)" GCC gcc_signature "default_env True"] keys
    by (auto simp: basict_functions_def)
  have w: "\<not> tls_delay (w_tls (world0 ()))" by (simp add: world0_def)
  note ret = basict_local_returns [OF sv _ _ w, of 100 200 False 5]
  let ?cl = "rpc_client_new\<lparr>cl_cross_ending := True, cl_impl := fresh_socket []\<rparr>"
  let ?calls = "basict_local (\<lambda>a b. 0) :: (bytes \<times> unit world handler \<times> (ctype \<times> cval) list) list"
  let ?c = "new_connection (fresh_socket (call_frames Big True (default_env False) ?calls)) 5 True 0"
  have srv: "serving ?c 5 (cl_cross_ending ?cl) False" "sk_tx (c_socket ?c) = []"
    "sk_rx (c_socket ?c) = call_frames Big (cl_cross_ending ?cl) (default_env False) ?calls @ []"
    "sk_open (cl_impl ?cl)" "sk_writes (cl_impl ?cl) = []"
    by (simp_all add: serving_def new_connection_def fresh_socket_def rpc_client_new_def)
  obtain c' cl' where "start Big 100 (sv_router sv) ?c (world0 ()) = start Big 100 (sv_router sv) c' (set_connection 5 (world0 ()))"
    "sk_rx (c_socket c') = []" "call_seq Big 200 (default_env False) (map client_call ?calls)
        (?cl\<lparr>cl_impl := (cl_impl ?cl)\<lparr>sk_rx := sk_tx (c_socket c')\<rparr>\<rparr>)
      = (map (\<lambda>v. Returned \<lparr>cr_ec = ok, cr_value = v\<rparr>) basict_results, cl')"
    using calls_in_sequence_return_results [OF ret srv] by auto
  then show ?thesis by (intro exI [of _ "sv_router sv"] exI [of _ c'] exI [of _ cl']) (simp add: fresh_socket_def)
qed

section \<open>Exceptions\<close>

lemma exception_reply:
  assumes "rr_ec res = (case e of Std_exception _ \<Rightarrow> function_exception | Unknown_exception \<Rightarrow> function_unknown_exception)"
    and "sk_open (cl_impl cl)" "sk_rx (cl_impl cl) = response_frame host (cl_cross_ending cl) res 0" "is_void_v t"
    and "length (rr_data res) < lim" "length (rr_data res) < 2 ^ 64 - 1"
  shows "fst (wait_response host lim env (return_type_t t) cl) = Returned \<lparr>cr_ec = rr_ec res, cr_value = V_unit\<rparr>"
proof -
  have rx: "sk_rx (cl_impl cl) = response_frame host (cl_cross_ending cl) res 0 @ []" using assms(3) by simp
  have "errc_wf (rr_ec res)" by (auto simp: assms(1) split: exn.splits)
  then show ?thesis using return_type_void [OF assms(4)]
    by (simp add: wait_response_frame [OF assms(2) rx assms(5, 6)] complete_topic_reply init_result_def Let_def)
qed

text \<open>
  C33: an exception of a handler crosses the wire as an error code: a client that calls a function
  without a result gets \<open>function_exception\<close>, or \<open>function_unknown_exception\<close> if what was thrown is not a
  \<open>std::exception\<close>. The state is the one in which the handler threw, and the connection goes on
  serving what follows in the stream.
\<close>

theorem remote_exception_reported:
  assumes "map_invokers rt (hash_name name) = Some (make_invoker sv f)" "handler_compiles sv f"
    and "passable env sv (h_params f) args" "is_void_v (h_ret f)"
    and "h_body f (map snd args) (set_connection conn w) = (Inl e, w1)" "\<not> tls_delay (w_tls w1)"
    and "call_spec sv rt name f (map snd args) (set_connection conn w) = (res, w2)"
    and "length (rr_data res) < lim'" "length (rr_data res) < 2 ^ 64 - 1"
    and "length (get_buffer env args) \<le> lim" "length (get_buffer env args) < 2 ^ 64"
    and "serving c conn (cl_cross_ending cl) cb" "sk_tx (c_socket c) = []"
    and "sk_rx (c_socket c) = request_frame host (cl_cross_ending cl) (hash_name name) (get_buffer env args) @ r"
    and "sk_open (cl_impl cl)" "sk_writes (cl_impl cl) = []"
  shows "\<exists>c' cl'. start host lim rt c w = start host lim rt c' w1
    \<and> serving c' conn (cl_cross_ending cl) cb \<and> sk_rx (c_socket c') = r
    \<and> call_for host lim' env None (hash_name name) (return_type_t (h_ret f)) args
          (cl\<lparr>cl_impl := (cl_impl cl)\<lparr>sk_rx := sk_tx (c_socket c')\<rparr>\<rparr>)
        = (Returned \<lparr>cr_ec = (case e of Std_exception _ \<Rightarrow> function_exception
             | Unknown_exception \<Rightarrow> function_unknown_exception), cr_value = V_unit\<rparr>, cl')"
proof -
  have r: "w2 = w1" "rr_ec res = (case e of Std_exception _ \<Rightarrow> function_exception | Unknown_exception \<Rightarrow> function_unknown_exception)"
    using assms(5, 7) by (auto simp: call_spec_def split: exn.splits)
  have spec: "call_spec sv rt name f (map snd args) (set_connection conn w) = (res, w1)" using assms(7) r(1) by simp
  have "\<exists>c' cl'. start host lim rt c w = start host lim rt c' w1
    \<and> serving c' conn (cl_cross_ending cl) cb \<and> sk_rx (c_socket c') = r
    \<and> call_for host lim' env None (hash_name name) (return_type_t (h_ret f)) args
          (cl\<lparr>cl_impl := (cl_impl cl)\<lparr>sk_rx := sk_tx (c_socket c')\<rparr>\<rparr>)
        = (Returned \<lparr>cr_ec = rr_ec res, cr_value = V_unit\<rparr>, cl')
    \<and> sk_tx (cl_impl cl') @ r = sk_tx (cl_impl cl) @ sk_rx (c_socket c)"
    by (rule remote_call [OF assms(1 - 3) spec assms(6, 10 - 16)])
       (rule exception_reply [OF r(2) _ _ assms(4, 8, 9)])
  then show ?thesis unfolding r(2) by blast
qed

definition failing_handler :: "unit world handler" where
  "failing_handler = \<lparr>h_params = [], h_ret = T_void, h_self = False,
     h_body = (\<lambda>args w. (Inl (Std_exception ''bad''), w))\<rparr>"

theorem remote_exception_reported_witness:
  "\<exists>c' cl'. start Little 100 (empty_router\<lparr>map_invokers := [hash_name [98] \<mapsto> make_invoker (default_env True) failing_handler]\<rparr>)
      (new_connection (fresh_socket (request_frame Little False (hash_name [98]) [])) 1 False 0) (world0 ())
    = start Little 100 (empty_router\<lparr>map_invokers := [hash_name [98] \<mapsto> make_invoker (default_env True) failing_handler]\<rparr>)
        c' (set_connection 1 (world0 ())) \<and> sk_rx (c_socket c') = []
    \<and> call_for Little 100 (default_env True) None (hash_name [98]) T_void []
      (rpc_client_new\<lparr>cl_impl := fresh_socket (sk_tx (c_socket c'))\<rparr>)
    = (Returned \<lparr>cr_ec = function_exception, cr_value = V_unit\<rparr>, cl')"
proof -
  let ?f = failing_handler
  let ?rt = "empty_router\<lparr>map_invokers := [hash_name [98] \<mapsto> make_invoker (default_env True) ?f]\<rparr>"
  let ?w = "set_connection 1 (world0 ())"
  let ?res = "\<lparr>rr_ec = function_exception, rr_result = str_bytes (''exception occur when call'' @ ''bad''), rr_view = []\<rparr>"
  let ?c = "new_connection (fresh_socket (request_frame Little False (hash_name [98]) [])) 1 False 0"
  let ?cl = "rpc_client_new\<lparr>cl_impl := fresh_socket []\<rparr>"
  have buf: "get_buffer (default_env True) [] = []" by (simp add: get_buffer_def pack_args_def)
  have inv: "map_invokers ?rt (hash_name [98]) = Some (make_invoker (default_env True) ?f)" by simp
  have comp: "handler_compiles (default_env True) ?f" "passable (default_env True) (default_env True) (h_params ?f) []"
    "is_void_v (h_ret ?f)"
    by (simp_all add: handler_compiles_def failing_handler_def is_void_v_def passable_def)
  have body: "h_body ?f (map snd []) ?w = (Inl (Std_exception ''bad''), ?w)" "\<not> tls_delay (w_tls ?w)"
    by (simp_all add: failing_handler_def set_connection_def world0_def)
  have spec: "call_spec (default_env True) ?rt [98] ?f (map snd []) ?w = (?res, ?w)"
    by (simp add: call_spec_def failing_handler_def)
  have srv: "serving ?c 1 (cl_cross_ending ?cl) False" "sk_tx (c_socket ?c) = []"
    by (simp_all add: serving_def new_connection_def fresh_socket_def rpc_client_new_def)
  have "\<exists>c' cl'. start Little 100 ?rt ?c (world0 ()) = start Little 100 ?rt c' ?w
    \<and> serving c' 1 (cl_cross_ending ?cl) False \<and> sk_rx (c_socket c') = []
    \<and> call_for Little 100 (default_env True) None (hash_name [98]) (return_type_t (h_ret ?f)) []
          (?cl\<lparr>cl_impl := (cl_impl ?cl)\<lparr>sk_rx := sk_tx (c_socket c')\<rparr>\<rparr>)
        = (Returned \<lparr>cr_ec = (case Std_exception ''bad'' of Std_exception _ \<Rightarrow> function_exception
             | Unknown_exception \<Rightarrow> function_unknown_exception), cr_value = V_unit\<rparr>, cl')"
    by (rule remote_exception_reported [OF inv comp body spec _ _ _ _ srv])
       (simp_all add: buf rr_data_def str_bytes_def new_connection_def fresh_socket_def rpc_client_new_def)
  then obtain c' cl' where "call_for Little 100 (default_env True) None (hash_name [98]) (return_type_t (h_ret ?f)) []
          (?cl\<lparr>cl_impl := (cl_impl ?cl)\<lparr>sk_rx := sk_tx (c_socket c')\<rparr>\<rparr>)
        = (Returned \<lparr>cr_ec = function_exception, cr_value = V_unit\<rparr>, cl')" "sk_rx (c_socket c') = []"
    "start Little 100 ?rt ?c (world0 ()) = start Little 100 ?rt c' ?w" by auto
  then show ?thesis
    by (intro exI [of _ c'] exI [of _ cl']) (simp add: failing_handler_def return_type_t_def fresh_socket_def rpc_client_new_def)
qed

section \<open>Publish and subscribe\<close>

text \<open>
  C4: a published value reaches the subscriber. The frame that \<open>subscribe\<close> sends makes the connection a
  subscriber of the topic; a publication of a value that both sides' codecs agree on is then
  written to that connection; and with those bytes the client's \<open>subscribe\<close> returns the published
  value.
\<close>

theorem publication_reaches_subscriber:
  assumes "serving c conn (cl_cross_ending cl) cb" "sk_tx (c_socket c) = []"
    and "sk_rx (c_socket c) = subscribe_frame host (cl_cross_ending cl) (hash_name topic) @ r" "hash_name topic \<noteq> 0"
    and "codec_ok sv env t v"
    and "length (pack_args sv [(t, v)]) < lim'" "length (pack_args sv [(t, v)]) < 2 ^ 64 - 1"
    and "sk_open (cl_impl cl)" "sk_writes (cl_impl cl) = []" "cl_sub_ops cl = []" "w_quits w = []"
  shows "\<exists>c1. start host lim rt c w = start host lim rt c1 w \<and> c_topic_id c1 = hash_name topic
    \<and> (\<exists>srv' c2 cl'. publish host sv topic t v (srv\<lparr>sv_conns := [(conn, c1)]\<rparr>) w = (srv', w) \<and> sv_conns srv' = [(conn, c2)]
        \<and> subscribe host lim' env t topic (cl\<lparr>cl_impl := (cl_impl cl)\<lparr>sk_rx := sk_tx (c_socket c2)\<rparr>\<rparr>)
            = (Returned \<lparr>cr_ec = ok, cr_value = v\<rparr>, cl')
        \<and> sk_tx (cl_impl cl') @ r = sk_tx (cl_impl cl) @ sk_rx (c_socket c))"
proof -
  let ?cross = "cl_cross_ending cl" and ?id = "hash_name topic"
  let ?res = "packed_result sv [(t, v)]"
  obtain c1 where c1: "start host lim rt c w = start host lim rt c1 w" "serving c1 conn ?cross cb"
    "c_topic_id c1 = ?id" "sk_tx (c_socket c1) = []"
    using start_subscribe [OF assms(1, 3), of lim rt w] assms(2) by auto
  let ?c2 = "(set_last_time w c1)\<lparr>c_socket := (c_socket c1)\<lparr>sk_tx := sk_tx (c_socket c1)
      @ response_frame host (c_cross_ending c1) ?res ?id\<rparr>\<rparr>"
  have pub: "publish host sv topic t v (srv\<lparr>sv_conns := [(conn, c1)]\<rparr>) w = (srv\<lparr>sv_conns := [(conn, ?c2)]\<rparr>, w)"
    using c1(2, 3) assms(11) response_success [of c1 host ?res ?id w]
    by (simp add: publish_def run_quits_simp serving_def)
  have tx: "sk_tx (c_socket ?c2) = response_frame host ?cross (rpc_result_of_string (pack_args sv [(t, v)])) ?id @ []"
    using c1(2, 4) by (simp add: serving_def response_frame_packed)
  let ?cl = "cl\<lparr>cl_impl := (cl_impl cl)\<lparr>sk_rx := sk_tx (c_socket ?c2)\<rparr>\<rparr>"
  have "\<exists>cl'. subscribe host lim' env t topic ?cl = (Returned \<lparr>cr_ec = ok, cr_value = v\<rparr>, cl')
    \<and> sk_tx (cl_impl cl') = sk_tx (cl_impl ?cl) @ subscribe_frame host (cl_cross_ending ?cl) ?id
    \<and> cl_sub_ops cl' = [(?id, Sub_done True)] \<and> sk_rx (cl_impl cl') = []"
  proof (rule subscribe_returns_publication [where res = "rpc_result_of_string (pack_args sv [(t, v)])"])
    show "unpack env t (rr_data (rpc_result_of_string (pack_args sv [(t, v)]))) = Inr v"
      using unpack_pack_value [OF assms(5)] by simp
    show "\<not> is_void t" using assms(5) object_type_not_void by (simp add: codec_ok_def)
    show "rr_ec (rpc_result_of_string (pack_args sv [(t, v)])) = ok"
      by (simp add: rpc_result_of_string_def rpc_result_init_def)
    show "sk_rx (cl_impl ?cl) = response_frame host (cl_cross_ending ?cl)
        (rpc_result_of_string (pack_args sv [(t, v)])) ?id @ []" using tx by simp
  qed (use assms(4, 6 - 10) in simp_all)
  then obtain cl' where sub: "subscribe host lim' env t topic ?cl = (Returned \<lparr>cr_ec = ok, cr_value = v\<rparr>, cl')"
    "sk_tx (cl_impl cl') @ r = sk_tx (cl_impl cl) @ sk_rx (c_socket c)" using assms(3) by auto
  show ?thesis
    by (rule exI [of _ c1], intro conjI exI [of _ "srv\<lparr>sv_conns := [(conn, ?c2)]\<rparr>"] exI [of _ ?c2] exI [of _ cl'])
       (use c1(1, 3) pub sub in simp_all)
qed

theorem publication_reaches_subscriber_witness:
  "\<exists>c1 srv' c2 cl'. c_topic_id c1 = hash_name (str_bytes ''a'')
    \<and> publish Little (default_env True) (str_bytes ''a'') T_string (V_str [104, 105])
        ((rpc_server_new [] [] 1)\<lparr>sv_conns := [(1, c1)]\<rparr>) (world0 ()) = (srv', world0 ())
    \<and> sv_conns srv' = [(1, c2)]
    \<and> subscribe Little 100 (default_env False) T_string (str_bytes ''a'')
        (rpc_client_new\<lparr>cl_impl := fresh_socket (sk_tx (c_socket c2))\<rparr>)
      = (Returned \<lparr>cr_ec = ok, cr_value = V_str [104, 105]\<rparr>, cl')"
proof -
  have h: "hash_name (str_bytes ''a'') \<noteq> 0" by (simp add: hash_name_a)
  let ?cl = "rpc_client_new\<lparr>cl_impl := fresh_socket []\<rparr>"
  let ?c = "new_connection (fresh_socket (subscribe_frame Little False (hash_name (str_bytes ''a'')) @ [])) 1 False 0"
  have cok: "codec_ok (default_env True) (default_env False) T_string (V_str [104, 105])"
    by (simp add: codec_ok_def unpack_compiles_def is_fundamental_def max_container_def)
  have s: "serving ?c 1 (cl_cross_ending ?cl) False" "sk_tx (c_socket ?c) = []"
    "sk_rx (c_socket ?c) = subscribe_frame Little (cl_cross_ending ?cl) (hash_name (str_bytes ''a'')) @ []"
    by (simp_all add: serving_def new_connection_def fresh_socket_def rpc_client_new_def)
  have p: "pack_args (default_env True) [(T_string, V_str [104, 105])] = [104, 105]"
    by (simp add: pack_args_def is_basic_v_def string_concept_def pack_one_def CharArray_def CharArrayRef_def)
  have "\<exists>c1. start Little 100 empty_router ?c (world0 ()) = start Little 100 empty_router c1 (world0 ())
    \<and> c_topic_id c1 = hash_name (str_bytes ''a'')
    \<and> (\<exists>srv' c2 cl'. publish Little (default_env True) (str_bytes ''a'') T_string (V_str [104, 105])
          ((rpc_server_new [] [] 1)\<lparr>sv_conns := [(1, c1)]\<rparr>) (world0 ()) = (srv', world0 ()) \<and> sv_conns srv' = [(1, c2)]
        \<and> subscribe Little 100 (default_env False) T_string (str_bytes ''a'')
            (?cl\<lparr>cl_impl := (cl_impl ?cl)\<lparr>sk_rx := sk_tx (c_socket c2)\<rparr>\<rparr>)
            = (Returned \<lparr>cr_ec = ok, cr_value = V_str [104, 105]\<rparr>, cl')
        \<and> sk_tx (cl_impl cl') @ [] = sk_tx (cl_impl ?cl) @ sk_rx (c_socket ?c))"
    by (rule publication_reaches_subscriber [OF s h cok])
       (simp_all add: p fresh_socket_def rpc_client_new_def world0_def)
  then obtain c1 srv' c2 cl' where "c_topic_id c1 = hash_name (str_bytes ''a'')"
    "publish Little (default_env True) (str_bytes ''a'') T_string (V_str [104, 105])
        ((rpc_server_new [] [] 1)\<lparr>sv_conns := [(1, c1)]\<rparr>) (world0 ()) = (srv', world0 ())" "sv_conns srv' = [(1, c2)]"
    "subscribe Little 100 (default_env False) T_string (str_bytes ''a'')
            (?cl\<lparr>cl_impl := (cl_impl ?cl)\<lparr>sk_rx := sk_tx (c_socket c2)\<rparr>\<rparr>)
            = (Returned \<lparr>cr_ec = ok, cr_value = V_str [104, 105]\<rparr>, cl')" by blast
  then show ?thesis by (intro exI conjI) (simp_all add: fresh_socket_def rpc_client_new_def)
qed

end
